(* ===== verification/Prelude.thy ===== *)
theory Prelude
  imports Main "HOL-Library.Word"
begin

text \<open>
  The shared base of the development: the outcome of a fallible, possibly blocking operation,
  the small state monad in which every asynchronous function of the repository is written, and
  a trace logic for the operating-system calls such a function issues.

  A Rust \<open>async fn f(..) -> Result<T, E>\<close> that works on a mutable object (a reader, a writer,
  the operating system) becomes an \<open>act\<close>: it maps the object's state to an outcome and the
  state it leaves behind. The four outcomes are the ways an awaited call can end: with a value,
  with an error, by never becoming ready (\<open>Pending\<close>, which only \<open>tokio::time::timeout\<close> turns
  into a value), and by a panic.
\<close>

named_theorems act_simps "symbolic execution of the outcome monad"
named_theorems act_defs "definitions of the monad's combinators"

subsection \<open>Outcomes and actions\<close>

datatype ('e, 'a) outcome = Done 'a | Failed 'e | Pending | Panicked

type_synonym ('s, 'e, 'a) act = "'s \<Rightarrow> ('e, 'a) outcome \<times> 's"

definition ret :: "'a \<Rightarrow> ('s, 'e, 'a) act" where
  "ret a s = (Done a, s)"

definition raise :: "'e \<Rightarrow> ('s, 'e, 'a) act" where
  "raise e s = (Failed e, s)"

definition panic :: "('s, 'e, 'a) act" where
  "panic s = (Panicked, s)"

text \<open>\<open>and_then m f\<close> is \<open>let x = m.await?; f(x)\<close>.\<close>

definition and_then :: "('s, 'e, 'a) act \<Rightarrow> ('a \<Rightarrow> ('s, 'e, 'b) act) \<Rightarrow> ('s, 'e, 'b) act" where
  "and_then m f s = (case m s of
      (Done a, s') \<Rightarrow> f a s'
    | (Failed e, s') \<Rightarrow> (Failed e, s')
    | (Pending, s') \<Rightarrow> (Pending, s')
    | (Panicked, s') \<Rightarrow> (Panicked, s'))"

text \<open>\<open>attempt m\<close> is \<open>m.await\<close> without the question mark: the \<open>Result\<close> is a value.\<close>

definition attempt :: "('s, 'e, 'a) act \<Rightarrow> ('s, 'f, 'e + 'a) act" where
  "attempt m s = (case m s of
      (Done a, s') \<Rightarrow> (Done (Inr a), s')
    | (Failed e, s') \<Rightarrow> (Done (Inl e), s')
    | (Pending, s') \<Rightarrow> (Pending, s')
    | (Panicked, s') \<Rightarrow> (Panicked, s'))"

text \<open>
  \<open>timeout m\<close> is \<open>tokio::time::timeout(d, m).await\<close>: \<open>None\<close> is \<open>Elapsed\<close>, an operation that did
  not become ready before the deadline.
\<close>

definition timeout :: "('s, 'e, 'a) act \<Rightarrow> ('s, 'f, ('e + 'a) option) act" where
  "timeout m s = (case m s of
      (Done a, s') \<Rightarrow> (Done (Some (Inr a)), s')
    | (Failed e, s') \<Rightarrow> (Done (Some (Inl e)), s')
    | (Pending, s') \<Rightarrow> (Done None, s')
    | (Panicked, s') \<Rightarrow> (Panicked, s'))"

text \<open>\<open>map_err g m\<close> is \<open>m.await.map_err(g)\<close>, also the conversion the question mark inserts.\<close>

definition map_err :: "('e \<Rightarrow> 'f) \<Rightarrow> ('s, 'e, 'a) act \<Rightarrow> ('s, 'f, 'a) act" where
  "map_err g m s = (case m s of
      (Done a, s') \<Rightarrow> (Done a, s')
    | (Failed e, s') \<Rightarrow> (Failed (g e), s')
    | (Pending, s') \<Rightarrow> (Pending, s')
    | (Panicked, s') \<Rightarrow> (Panicked, s'))"

text \<open>\<open>lift_result\<close> awaits nothing: it turns a computed \<open>Result\<close> into an action.\<close>

definition lift_result :: "'e + 'a \<Rightarrow> ('s, 'e, 'a) act" where
  "lift_result r s = (case r of Inl e \<Rightarrow> (Failed e, s) | Inr a \<Rightarrow> (Done a, s))"

lemmas act_unfolds [act_defs] =
  ret_def raise_def panic_def and_then_def attempt_def timeout_def map_err_def lift_result_def

lemma ret_run [act_simps]: "ret a s = (Done a, s)"
  by (simp add: act_defs)

lemma raise_run [act_simps]: "raise e s = (Failed e, s)"
  by (simp add: act_defs)

lemma panic_run [act_simps]: "panic s = (Panicked, s)"
  by (simp add: act_defs)

lemma and_then_Done [act_simps]: "m s = (Done a, s') \<Longrightarrow> and_then m f s = f a s'"
  by (simp add: act_defs)

lemma and_then_Failed [act_simps]: "m s = (Failed e, s') \<Longrightarrow> and_then m f s = (Failed e, s')"
  by (simp add: act_defs)

lemma and_then_Pending [act_simps]: "m s = (Pending, s') \<Longrightarrow> and_then m f s = (Pending, s')"
  by (simp add: act_defs)

lemma and_then_Panicked [act_simps]: "m s = (Panicked, s') \<Longrightarrow> and_then m f s = (Panicked, s')"
  by (simp add: act_defs)

lemma and_then_ret [simp]: "and_then (ret a) f = f a"
  by (rule ext) (simp add: act_defs)

lemma and_then_raise [simp]: "and_then (raise e) f = raise e"
  by (rule ext) (simp add: act_defs)

lemma and_then_assoc: "and_then (and_then m f) g = and_then m (\<lambda>a. and_then (f a) g)"
  by (rule ext) (simp add: act_defs split: prod.splits outcome.splits)

lemma and_then_DoneD:
  assumes "and_then m f s = (Done b, t)"
  obtains a s' where "m s = (Done a, s')" "f a s' = (Done b, t)"
  using assms by (auto simp: and_then_def split: prod.splits outcome.splits)

lemma and_then_Done_iff:
  "and_then m f s = (Done b, t) \<longleftrightarrow> (\<exists>a s'. m s = (Done a, s') \<and> f a s' = (Done b, t))"
  by (auto simp: act_simps elim: and_then_DoneD)

lemma ret_Done_iff: "ret a s = (Done b, t) \<longleftrightarrow> a = b \<and> s = t"
  by (simp add: act_simps)

lemma raise_not_Done [simp]: "raise e s \<noteq> (Done b, t)"
  by (simp add: act_simps)

text \<open>\<open>n\<close> times in a row, as a loop that collects its results.\<close>

fun repeat_n :: "nat \<Rightarrow> ('s, 'e, 'a) act \<Rightarrow> ('s, 'e, 'a list) act" where
  "repeat_n 0 m = ret []"
| "repeat_n (Suc n) m = and_then m (\<lambda>a. and_then (repeat_n n m) (\<lambda>as. ret (a # as)))"

subsection \<open>Calls and traces\<close>

text \<open>
  Where the state of an action is the list of calls made so far, \<open>sys c reply\<close> issues the call
  \<open>c\<close>: the environment answers \<open>reply\<close> from everything that happened before, and the call is
  appended to the trace. Quantifying over \<open>reply\<close> is quantifying over every environment.
\<close>

definition sys :: "'c \<Rightarrow> ('c list \<Rightarrow> ('e, 'a) outcome) \<Rightarrow> ('c list, 'e, 'a) act" where
  "sys c reply h = (reply h, h @ [c])"

text \<open>
  \<open>issues P m Q\<close>: every call that \<open>m\<close> issues satisfies \<open>P\<close>, the trace only grows, and a value
  that \<open>m\<close> returns satisfies \<open>Q\<close>.
\<close>

definition issues :: "('c \<Rightarrow> bool) \<Rightarrow> ('c list, 'e, 'a) act \<Rightarrow> ('a \<Rightarrow> bool) \<Rightarrow> bool" where
  "issues P m Q \<longleftrightarrow> (\<forall>h. \<exists>cs. snd (m h) = h @ cs \<and> (\<forall>c \<in> set cs. P c) \<and>
     (\<forall>a. fst (m h) = Done a \<longrightarrow> Q a))"

named_theorems issues_intros "rules of the trace logic"

lemma issuesD:
  assumes "issues P m Q" and "m h = (r, h')"
  obtains cs where "h' = h @ cs" "\<forall>c \<in> set cs. P c" "\<forall>a. r = Done a \<longrightarrow> Q a"
proof -
  from assms(1) obtain cs where "snd (m h) = h @ cs \<and> (\<forall>c \<in> set cs. P c) \<and>
      (\<forall>a. fst (m h) = Done a \<longrightarrow> Q a)"
    unfolding issues_def by blast
  with assms(2) that show thesis by simp
qed

lemma issues_ret [issues_intros]: "Q a \<Longrightarrow> issues P (ret a) Q"
  by (simp add: issues_def act_simps)

lemma issues_raise [issues_intros]: "issues P (raise e) Q"
  by (simp add: issues_def act_simps)

lemma issues_panic [issues_intros]: "issues P panic Q"
  by (simp add: issues_def act_simps)

lemma issues_lift_result [issues_intros]:
  "(\<And>a. r = Inr a \<Longrightarrow> Q a) \<Longrightarrow> issues P (lift_result r) Q"
  by (auto simp: issues_def lift_result_def split: sum.splits)

lemma issues_sys [issues_intros]:
  "P c \<Longrightarrow> (\<And>h a. reply h = Done a \<Longrightarrow> Q a) \<Longrightarrow> issues P (sys c reply) Q"
  by (simp add: issues_def sys_def)

lemma issues_and_then:
  assumes m: "issues P m R" and f: "\<And>a. R a \<Longrightarrow> issues P (f a) Q"
  shows "issues P (and_then m f) Q"
  unfolding issues_def
proof
  fix h
  obtain r h' where mh: "m h = (r, h')" by (cases "m h")
  from m mh obtain cs where cs: "h' = h @ cs" "\<forall>c \<in> set cs. P c" "\<forall>a. r = Done a \<longrightarrow> R a"
    by (rule issuesD)
  show "\<exists>cs. snd (and_then m f h) = h @ cs \<and> (\<forall>c \<in> set cs. P c) \<and>
      (\<forall>a. fst (and_then m f h) = Done a \<longrightarrow> Q a)"
  proof (cases r)
    case (Done a)
    with cs(3) f have fa: "issues P (f a) Q" by blast
    obtain r2 h2 where fh: "f a h' = (r2, h2)" by (cases "f a h'")
    from fa fh obtain ds where "h2 = h' @ ds" "\<forall>c \<in> set ds. P c" "\<forall>b. r2 = Done b \<longrightarrow> Q b"
      by (rule issuesD)
    with Done mh fh cs show ?thesis
      by (intro exI [of _ "cs @ ds"]) (auto simp: act_simps)
  qed (use mh cs in \<open>auto simp: act_simps\<close>)
qed

lemma issues_attempt:
  assumes "issues P m R" and "\<And>e. Q (Inl e)" and "\<And>a. R a \<Longrightarrow> Q (Inr a)"
  shows "issues P (attempt m) Q"
  unfolding issues_def
proof
  fix h
  obtain r h' where mh: "m h = (r, h')" by (cases "m h")
  from assms(1) mh obtain cs where "h' = h @ cs" "\<forall>c \<in> set cs. P c" "\<forall>a. r = Done a \<longrightarrow> R a"
    by (rule issuesD)
  with mh assms(2,3) show "\<exists>cs. snd (attempt m h) = h @ cs \<and> (\<forall>c \<in> set cs. P c) \<and>
      (\<forall>a. fst (attempt m h) = Done a \<longrightarrow> Q a)"
    by (intro exI [of _ cs]) (auto simp: attempt_def split: outcome.splits)
qed

lemma issues_timeout:
  assumes "issues P m R" and "Q None" and "\<And>e. Q (Some (Inl e))" and "\<And>a. R a \<Longrightarrow> Q (Some (Inr a))"
  shows "issues P (timeout m) Q"
  unfolding issues_def
proof
  fix h
  obtain r h' where mh: "m h = (r, h')" by (cases "m h")
  from assms(1) mh obtain cs where "h' = h @ cs" "\<forall>c \<in> set cs. P c" "\<forall>a. r = Done a \<longrightarrow> R a"
    by (rule issuesD)
  with mh assms(2-) show "\<exists>cs. snd (timeout m h) = h @ cs \<and> (\<forall>c \<in> set cs. P c) \<and>
      (\<forall>a. fst (timeout m h) = Done a \<longrightarrow> Q a)"
    by (intro exI [of _ cs]) (auto simp: timeout_def split: outcome.splits)
qed

lemma issues_map_err:
  assumes "issues P m Q"
  shows "issues P (map_err g m) Q"
  unfolding issues_def
proof
  fix h
  obtain r h' where mh: "m h = (r, h')" by (cases "m h")
  from assms mh obtain cs where "h' = h @ cs" "\<forall>c \<in> set cs. P c" "\<forall>a. r = Done a \<longrightarrow> Q a"
    by (rule issuesD)
  with mh show "\<exists>cs. snd (map_err g m h) = h @ cs \<and> (\<forall>c \<in> set cs. P c) \<and>
      (\<forall>a. fst (map_err g m h) = Done a \<longrightarrow> Q a)"
    by (intro exI [of _ cs]) (auto simp: map_err_def split: outcome.splits)
qed

lemma issues_weaken:
  "issues P m Q \<Longrightarrow> (\<And>c. P c \<Longrightarrow> P' c) \<Longrightarrow> (\<And>a. Q a \<Longrightarrow> Q' a) \<Longrightarrow> issues P' m Q'"
  unfolding issues_def by meson

text \<open>The frequent case, in which nothing is known of the intermediate values.\<close>

lemma issues_bind [issues_intros]:
  "issues P m (\<lambda>_. True) \<Longrightarrow> (\<And>a. issues P (f a) Q) \<Longrightarrow> issues P (and_then m f) Q"
  by (rule issues_and_then)

lemma issues_attempt_any [issues_intros]:
  "issues P m (\<lambda>_. True) \<Longrightarrow> issues P (attempt m) (\<lambda>_. True)"
  by (rule issues_attempt) auto

lemma issues_timeout_any [issues_intros]:
  "issues P m (\<lambda>_. True) \<Longrightarrow> issues P (timeout m) (\<lambda>_. True)"
  by (rule issues_timeout) auto

lemma issues_map_err_any [issues_intros]:
  "issues P m Q \<Longrightarrow> issues P (map_err g m) Q"
  by (rule issues_map_err)

end
