(* ===== verification/Bytes.thy ===== *)
theory Bytes
  imports Prelude
begin

text \<open>
  Machine integers and byte strings. \<open>u8\<close> to \<open>u128\<close> are words of their width. A Rust
  \<open>[u8]\<close>, \<open>Vec<u8>\<close> and also a \<open>String\<close> is the list of its bytes; that a \<open>String\<close> holds UTF-8 is
  the predicate \<open>utf8_valid\<close> of the theory Utf8. \<open>be_octets n\<close> is \<open>to_be_bytes\<close> (and \<open>octets\<close>
  of an address), \<open>from_be\<close> is \<open>from_be_bytes\<close>.
\<close>

unbundle bit_operations_syntax

type_synonym u8 = "8 word"
type_synonym u16 = "16 word"
type_synonym u32 = "32 word"
type_synonym u64 = "64 word"
type_synonym u128 = "128 word"

type_synonym bytes = "u8 list"

text \<open>A string literal of the source: the bytes of its (ASCII) characters.\<close>

definition lit :: "string \<Rightarrow> bytes" where
  "lit s = map of_char s"

fun be_octets :: "nat \<Rightarrow> 'a::len word \<Rightarrow> bytes" where
  "be_octets 0 w = []"
| "be_octets (Suc n) w = ucast (drop_bit (8 * n) w) # be_octets n w"

definition from_be :: "bytes \<Rightarrow> 'a::len word" where
  "from_be bs = foldl (\<lambda>acc b. push_bit 8 acc OR ucast b) 0 bs"

lemma length_be_octets [simp]: "length (be_octets n w) = n"
  by (induction n) auto

lemma take_bit_Suc_octet:
  fixes w :: "'a::len word"
  shows "push_bit (8 * n) (ucast (ucast (drop_bit (8 * n) w) :: u8)) OR take_bit (8 * n) w
    = take_bit (8 * Suc n) w"
  by (rule bit_word_eqI) (auto simp: bit_simps)

lemma foldl_be_octets:
  fixes acc w :: "'a::len word"
  shows "foldl (\<lambda>acc b. push_bit 8 acc OR ucast b) acc (be_octets n w)
    = push_bit (8 * n) acc OR take_bit (8 * n) w"
proof (induction n arbitrary: acc)
  case 0
  then show ?case by simp
next
  case (Suc n)
  have "foldl (\<lambda>acc b. push_bit 8 acc OR ucast b) acc (be_octets (Suc n) w)
      = push_bit (8 * n) (push_bit 8 acc OR ucast (ucast (drop_bit (8 * n) w) :: u8))
        OR take_bit (8 * n) w"
    by (simp add: Suc)
  also have "\<dots> = push_bit (8 * Suc n) acc OR
      (push_bit (8 * n) (ucast (ucast (drop_bit (8 * n) w) :: u8)) OR take_bit (8 * n) w)"
    by (simp add: push_bit_or or.assoc add.commute)
  finally show ?case by (simp only: take_bit_Suc_octet)
qed

lemma from_be_octets:
  fixes w :: "'a::len word"
  assumes "LENGTH('a) = 8 * n"
  shows "from_be (be_octets n w) = w"
  using assms by (simp add: from_be_def foldl_be_octets take_bit_word_eq_self)

lemma from_be_u8 [simp]: "from_be (be_octets 1 w) = (w :: u8)"
  by (rule from_be_octets) simp

lemma from_be_u16 [simp]: "from_be (be_octets 2 w) = (w :: u16)"
  by (rule from_be_octets) simp

lemma from_be_u32 [simp]: "from_be (be_octets 4 w) = (w :: u32)"
  by (rule from_be_octets) simp

lemma from_be_u128 [simp]: "from_be (be_octets 16 w) = (w :: u128)"
  by (rule from_be_octets) simp

lemma from_be_single [simp]: "from_be [b] = (b :: u8)"
  by (simp add: from_be_def)

lemma from_be_snoc: "from_be (bs @ [b]) = push_bit 8 (from_be bs) OR (ucast b :: 'a::len word)"
  by (simp add: from_be_def)

text \<open>The other direction: the octets of a read integer are the bytes it was read from.\<close>

lemma octet_of_snoc:
  fixes w :: "'a::len word"
  assumes "8 * n + 8 \<le> LENGTH('a)"
  shows "be_octets (Suc n) (push_bit 8 w OR ucast b) = be_octets n w @ [b]"
  using assms
proof (induction n)
  case 0
  then show ?case
    by (simp, intro bit_word_eqI) (auto simp: bit_simps)
next
  case (Suc n)
  have "ucast (drop_bit (8 * Suc n) (push_bit 8 w OR ucast b)) = (ucast (drop_bit (8 * n) w) :: u8)"
    using Suc.prems by (intro bit_word_eqI) (auto simp: bit_simps dest: bit_imp_le_length)
  with Suc show ?case by simp
qed

lemma octets_from_be:
  assumes "length bs = n" and "8 * n \<le> LENGTH('a::len)"
  shows "be_octets n (from_be bs :: 'a word) = bs"
  using assms
proof (induction bs arbitrary: n rule: rev_induct)
  case Nil
  then show ?case by simp
next
  case (snoc b bs)
  then obtain m where m: "n = Suc m" "length bs = m" by auto
  with snoc show ?case by (simp add: from_be_snoc octet_of_snoc del: be_octets.simps)
qed

text \<open>Lengths as \<open>u8\<close> and \<open>u16\<close>: what fits comes back, what does not wraps.\<close>

lemma unat_of_nat_u8: "unat (of_nat n :: u8) = n mod 256"
  by (simp add: unat_of_nat)

lemma unat_of_nat_u16: "unat (of_nat n :: u16) = n mod 65536"
  by (simp add: unat_of_nat)

lemma unat_u8_le: "unat (b :: u8) \<le> 255"
proof -
  have "unat b < 2 ^ LENGTH(8)" by (rule unsigned_less)
  then show ?thesis by simp
qed

lemma unat_u16_le: "unat (w :: u16) \<le> 65535"
proof -
  have "unat w < 2 ^ LENGTH(16)" by (rule unsigned_less)
  then show ?thesis by simp
qed

end
