(* ===== verification/Utf8.thy ===== *)
theory Utf8
  imports Bytes
begin

text \<open>
  UTF-8 as the standard library's \<open>String::from_utf8\<close> and \<open>String::from_utf8_lossy\<close> see it.
  \<open>utf8_step\<close> looks at the first sequence of a non-empty byte string: how many bytes it takes and
  whether it is a well-formed sequence. For an ill-formed one the count is that of the maximal
  prefix the decoder gives up on, which \<open>from_utf8_lossy\<close> replaces by one U+FFFD.
\<close>

definition utf8_char_width :: "u8 \<Rightarrow> nat" where
  "utf8_char_width b =
     (if b < 0x80 then 1
      else if 0xC2 \<le> b \<and> b \<le> 0xDF then 2
      else if 0xE0 \<le> b \<and> b \<le> 0xEF then 3
      else if 0xF0 \<le> b \<and> b \<le> 0xF4 then 4
      else 0)"

text \<open>\<open>safe_get\<close>: a byte past the end reads as 0, which is no continuation byte.\<close>

definition safe_get :: "bytes \<Rightarrow> nat \<Rightarrow> u8" where
  "safe_get bs i = (if i < length bs then bs ! i else 0)"

definition is_cont :: "u8 \<Rightarrow> bool" where
  "is_cont b \<longleftrightarrow> b AND 192 = 128"

definition second_of_3 :: "u8 \<Rightarrow> u8 \<Rightarrow> bool" where
  "second_of_3 b c \<longleftrightarrow>
     (b = 0xE0 \<and> 0xA0 \<le> c \<and> c \<le> 0xBF) \<or>
     (0xE1 \<le> b \<and> b \<le> 0xEC \<and> 0x80 \<le> c \<and> c \<le> 0xBF) \<or>
     (b = 0xED \<and> 0x80 \<le> c \<and> c \<le> 0x9F) \<or>
     (0xEE \<le> b \<and> b \<le> 0xEF \<and> 0x80 \<le> c \<and> c \<le> 0xBF)"

definition second_of_4 :: "u8 \<Rightarrow> u8 \<Rightarrow> bool" where
  "second_of_4 b c \<longleftrightarrow>
     (b = 0xF0 \<and> 0x90 \<le> c \<and> c \<le> 0xBF) \<or>
     (0xF1 \<le> b \<and> b \<le> 0xF3 \<and> 0x80 \<le> c \<and> c \<le> 0xBF) \<or>
     (b = 0xF4 \<and> 0x80 \<le> c \<and> c \<le> 0x8F)"

definition utf8_step :: "bytes \<Rightarrow> nat \<times> bool" where
  "utf8_step bs =
     (let b = safe_get bs 0; w = utf8_char_width b in
      if w = 1 then (1, True)
      else if w = 2 then
        (if is_cont (safe_get bs 1) then (2, True) else (1, False))
      else if w = 3 then
        (if second_of_3 b (safe_get bs 1) then
           (if is_cont (safe_get bs 2) then (3, True) else (2, False))
         else (1, False))
      else if w = 4 then
        (if second_of_4 b (safe_get bs 1) then
           (if is_cont (safe_get bs 2) then
              (if is_cont (safe_get bs 3) then (4, True) else (3, False))
            else (2, False))
         else (1, False))
      else (1, False))"

lemma utf8_step_pos: "0 < fst (utf8_step bs)"
  by (simp add: utf8_step_def Let_def)

lemma utf8_step_progress:
  "bs \<noteq> [] \<Longrightarrow> length bs - fst (utf8_step bs) < length bs"
  by (rule diff_less) (simp_all add: utf8_step_pos)

function utf8_valid :: "bytes \<Rightarrow> bool" where
  "utf8_valid bs =
     (if bs = [] then True
      else if snd (utf8_step bs) then utf8_valid (drop (fst (utf8_step bs)) bs)
      else False)"
  by pat_completeness auto
termination
  by (relation "measure length") (auto simp: utf8_step_progress)

definition replacement_char :: bytes where
  "replacement_char = [0xEF, 0xBF, 0xBD]"

function from_utf8_lossy :: "bytes \<Rightarrow> bytes" where
  "from_utf8_lossy bs =
     (if bs = [] then []
      else (if snd (utf8_step bs) then take (fst (utf8_step bs)) bs else replacement_char)
        @ from_utf8_lossy (drop (fst (utf8_step bs)) bs))"
  by pat_completeness auto
termination
  by (relation "measure length") (auto simp: utf8_step_progress)

declare utf8_valid.simps [simp del] from_utf8_lossy.simps [simp del]

lemma utf8_valid_Nil [simp]: "utf8_valid []"
  by (simp add: utf8_valid.simps)

lemma utf8_valid_iff:
  "bs \<noteq> [] \<Longrightarrow>
    utf8_valid bs \<longleftrightarrow> snd (utf8_step bs) \<and> utf8_valid (drop (fst (utf8_step bs)) bs)"
  by (subst utf8_valid.simps) simp

text \<open>\<open>String::from_utf8\<close>: the bytes unchanged, or \<open>None\<close> for its \<open>FromUtf8Error\<close>.\<close>

definition from_utf8 :: "bytes \<Rightarrow> bytes option" where
  "from_utf8 bs = (if utf8_valid bs then Some bs else None)"

subsection \<open>A sequence is recognised from its own bytes\<close>

lemma not_cont_0 [simp]: "\<not> is_cont 0"
  by (simp add: is_cont_def)

lemma not_second_0 [simp]: "\<not> second_of_3 b 0" "\<not> second_of_4 b 0"
  by (auto simp: second_of_3_def second_of_4_def)

lemma width_1_or_more:
  "utf8_char_width b \<in> {0, 1, 2, 3, 4}"
  by (simp add: utf8_char_width_def)

lemma safe_get_inside:
  "is_cont (safe_get bs i) \<Longrightarrow> i < length bs"
  "second_of_3 b (safe_get bs i) \<Longrightarrow> i < length bs"
  "second_of_4 b (safe_get bs i) \<Longrightarrow> i < length bs"
  by (auto simp: safe_get_def split: if_splits)

lemma utf8_step_le_length:
  assumes "bs \<noteq> []" and "snd (utf8_step bs)"
  shows "fst (utf8_step bs) \<le> length bs"
  using assms safe_get_inside(1) [of bs 1] safe_get_inside(1) [of bs 2] safe_get_inside(1) [of bs 3]
  by (simp add: utf8_step_def Let_def Suc_le_eq numeral_eq_Suc split: if_splits)

lemma safe_get_append: "i < length xs \<Longrightarrow> safe_get (xs @ ys) i = safe_get xs i"
  by (simp add: safe_get_def nth_append)

lemma safe_get_take: "i < n \<Longrightarrow> safe_get (take n xs) i = safe_get xs i"
  by (simp add: safe_get_def)

text \<open>A well-formed sequence stays one whatever follows it, and it needs nothing after it.\<close>

lemma utf8_step_valid_cases:
  assumes "utf8_step bs = (n, True)"
  obtains
    "n = 1" "utf8_char_width (safe_get bs 0) = 1"
  | "n = 2" "utf8_char_width (safe_get bs 0) = 2" "is_cont (safe_get bs 1)"
  | "n = 3" "utf8_char_width (safe_get bs 0) = 3" "second_of_3 (safe_get bs 0) (safe_get bs 1)"
      "is_cont (safe_get bs 2)"
  | "n = 4" "utf8_char_width (safe_get bs 0) = 4" "second_of_4 (safe_get bs 0) (safe_get bs 1)"
      "is_cont (safe_get bs 2)" "is_cont (safe_get bs 3)"
  using assms that by (simp add: utf8_step_def Let_def split: if_splits)

lemma utf8_step_local:
  assumes "utf8_step bs = (n, True)"
    and same: "\<And>i. i < n \<Longrightarrow> safe_get cs i = safe_get bs i"
  shows "utf8_step cs = (n, True)"
  using assms(1)
proof (cases rule: utf8_step_valid_cases)
  case 1
  with same [of 0] show ?thesis by (simp add: utf8_step_def Let_def)
next
  case 2
  with same [of 0] same [of 1] show ?thesis by (simp add: utf8_step_def Let_def)
next
  case 3
  with same [of 0] same [of 1] same [of 2] show ?thesis by (simp add: utf8_step_def Let_def)
next
  case 4
  with same [of 0] same [of 1] same [of 2] same [of 3] show ?thesis
    by (simp add: utf8_step_def Let_def)
qed

lemma utf8_step_append:
  assumes "bs \<noteq> []" and "utf8_step bs = (n, True)"
  shows "utf8_step (bs @ cs) = (n, True)"
  using assms(2)
proof (rule utf8_step_local)
  have "n \<le> length bs" using utf8_step_le_length [of bs] assms by simp
  then show "\<And>i. i < n \<Longrightarrow> safe_get (bs @ cs) i = safe_get bs i"
    by (simp add: safe_get_append)
qed

lemma utf8_valid_append:
  "utf8_valid xs \<Longrightarrow> utf8_valid ys \<Longrightarrow> utf8_valid (xs @ ys)"
proof (induction xs rule: utf8_valid.induct)
  case (1 xs)
  show ?case
  proof (cases "xs = []")
    case True
    with "1.prems" show ?thesis by simp
  next
    case False
    have "snd (utf8_step xs)"
      using "1.prems"(1) False by (simp add: utf8_valid_iff)
    then obtain n where step: "utf8_step xs = (n, True)"
      by (cases "utf8_step xs") simp
    have n: "n \<le> length xs" using utf8_step_le_length [of xs] False step by simp
    have rest: "utf8_valid (drop n xs)"
      using "1.prems"(1) False step by (simp add: utf8_valid_iff)
    have "utf8_valid (drop n xs @ ys)"
      using "1.IH" False step rest "1.prems"(2) by simp
    then show ?thesis
      using n False utf8_step_append [OF False step, of ys]
      by (simp add: utf8_valid_iff [of "xs @ ys"])
  qed
qed

lemma utf8_valid_step:
  assumes "bs \<noteq> []" and "utf8_step bs = (n, True)"
  shows "utf8_valid (take n bs)"
proof -
  have n: "0 < n" "n \<le> length bs"
    using utf8_step_pos [of bs] utf8_step_le_length [of bs] assms by simp_all
  have "utf8_step (take n bs) = (n, True)"
    using assms(2) by (rule utf8_step_local) (simp add: safe_get_take)
  then show ?thesis
    using n by (subst utf8_valid_iff) auto
qed

lemma utf8_valid_replacement: "utf8_valid replacement_char"
proof -
  have step: "utf8_step replacement_char = (3, True)"
    by (simp add: utf8_step_def replacement_char_def safe_get_def utf8_char_width_def
        second_of_3_def is_cont_def)
  then show ?thesis
    by (subst utf8_valid_iff) (simp_all add: step, simp_all add: replacement_char_def)
qed

subsection \<open>Lossy decoding\<close>

lemma from_utf8_lossy_valid: "utf8_valid (from_utf8_lossy bs)"
proof (induction bs rule: from_utf8_lossy.induct)
  case (1 bs)
  show ?case
  proof (cases "bs = []")
    case True
    then show ?thesis by (simp add: from_utf8_lossy.simps)
  next
    case False
    have head: "utf8_valid
        (if snd (utf8_step bs) then take (fst (utf8_step bs)) bs else replacement_char)"
      using utf8_valid_step [OF False] utf8_valid_replacement by (auto simp: prod_eq_iff)
    have tail: "utf8_valid (from_utf8_lossy (drop (fst (utf8_step bs)) bs))"
      using "1.IH" False by simp
    have "from_utf8_lossy bs =
        (if snd (utf8_step bs) then take (fst (utf8_step bs)) bs else replacement_char)
          @ from_utf8_lossy (drop (fst (utf8_step bs)) bs)"
      using False by (subst from_utf8_lossy.simps) (simp only: if_False)
    then show ?thesis
      using utf8_valid_append [OF head tail] by (simp only:)
  qed
qed

lemma from_utf8_lossy_id: "utf8_valid bs \<Longrightarrow> from_utf8_lossy bs = bs"
proof (induction bs rule: utf8_valid.induct)
  case (1 bs)
  show ?case
  proof (cases "bs = []")
    case True
    then show ?thesis by (simp add: from_utf8_lossy.simps)
  next
    case False
    with "1.prems" have s: "snd (utf8_step bs)" "utf8_valid (drop (fst (utf8_step bs)) bs)"
      by (simp_all add: utf8_valid_iff)
    with "1.IH" False have "from_utf8_lossy (drop (fst (utf8_step bs)) bs)
        = drop (fst (utf8_step bs)) bs" by simp
    with False s(1) show ?thesis by (subst from_utf8_lossy.simps) simp
  qed
qed

lemma from_utf8_lossy_fixpoint: "from_utf8_lossy bs = bs \<longleftrightarrow> utf8_valid bs"
  using from_utf8_lossy_valid [of bs] from_utf8_lossy_id [of bs] by auto

lemma from_utf8_lossy_idem: "from_utf8_lossy (from_utf8_lossy bs) = from_utf8_lossy bs"
  by (rule from_utf8_lossy_id) (rule from_utf8_lossy_valid)

lemma from_utf8_lossy_Nil [simp]: "from_utf8_lossy [] = []"
  by (simp add: from_utf8_lossy.simps)

text \<open>ASCII text is valid UTF-8; in particular every literal of the source is.\<close>

lemma utf8_valid_ascii: "\<forall>b \<in> set bs. b < 0x80 \<Longrightarrow> utf8_valid bs"
proof (induction bs)
  case Nil
  then show ?case by simp
next
  case (Cons b bs)
  then have "utf8_step (b # bs) = (1, True)"
    by (simp add: utf8_step_def safe_get_def utf8_char_width_def)
  with Cons show ?case by (simp add: utf8_valid_iff)
qed

subsection \<open>Whitespace\<close>

text \<open>
  \<open>s.trim().is_empty()\<close>: the string consists of characters with the property White_Space only.
  The byte sequences below are the UTF-8 encodings of those characters.
\<close>

definition whitespace_seqs :: "bytes list" where
  "whitespace_seqs =
     [[0x09], [0x0A], [0x0B], [0x0C], [0x0D], [0x20], [0xC2, 0x85], [0xC2, 0xA0],
      [0xE1, 0x9A, 0x80], [0xE2, 0x80, 0x80], [0xE2, 0x80, 0x81], [0xE2, 0x80, 0x82],
      [0xE2, 0x80, 0x83], [0xE2, 0x80, 0x84], [0xE2, 0x80, 0x85], [0xE2, 0x80, 0x86],
      [0xE2, 0x80, 0x87], [0xE2, 0x80, 0x88], [0xE2, 0x80, 0x89], [0xE2, 0x80, 0x8A],
      [0xE2, 0x80, 0xA8], [0xE2, 0x80, 0xA9], [0xE2, 0x80, 0xAF], [0xE2, 0x81, 0x9F],
      [0xE3, 0x80, 0x80]]"

function trim_is_empty :: "bytes \<Rightarrow> bool" where
  "trim_is_empty bs =
     (if bs = [] then True
      else if take (fst (utf8_step bs)) bs \<in> set whitespace_seqs
      then trim_is_empty (drop (fst (utf8_step bs)) bs)
      else False)"
  by pat_completeness auto
termination
  by (relation "measure length") (auto simp: utf8_step_progress)

declare trim_is_empty.simps [simp del]

lemma trim_is_empty_Nil [simp]: "trim_is_empty []"
  by (simp add: trim_is_empty.simps)

end
