(* ===== verification/Streams.thy ===== *)
theory Streams
  imports Utf8
begin

text \<open>
  The byte streams under the protocol. The code is generic over \<open>R: AsyncRead\<close> and
  \<open>W: AsyncWrite\<close>; so is the model: an operation takes the trait's operations as an argument (the
  trait dictionary) and threads the state of the reader or writer.

  The locale \<open>async_read\<close> states what tokio documents of \<open>read_exact\<close>: a reader delivers the bytes
  of its stream in order, all that are asked for or an error. \<open>stream_rx\<close> is the plain stream that
  every reader is compared with; \<open>Cursor\<close> of the standard library is one provider. The locale
  \<open>async_write\<close> states what \<open>write_all\<close>, \<open>flush\<close> and \<open>shutdown\<close> do to the bytes sent.
\<close>

subsection \<open>I/O errors\<close>

text \<open>\<open>std::io::Error\<close>: its kind and its text. Kinds the code does not name are \<open>OtherKind\<close>.\<close>

datatype error_kind =
    UnexpectedEof | BrokenPipe | ConnectionReset | ConnectionAborted | NotConnected | TimedOut
  | InvalidData | InvalidInput | OtherKind nat

datatype io_error = IoError (err_kind: error_kind) (err_text: bytes)

subsection \<open>Readers\<close>

text \<open>
  What a reader still holds: the bytes that will arrive, and what happens after them, an error
  (\<open>UnexpectedEof\<close> when the peer closed) or silence.
\<close>

datatype ending = Ends io_error | Stalls

record stream =
  s_bytes :: bytes
  s_end :: ending

text \<open>\<open>read_exact\<close> into a buffer of \<open>n\<close> bytes.\<close>

type_synonym 'r rx = "nat \<Rightarrow> ('r, io_error, bytes) act"

definition stream_rx :: "stream rx" where
  "stream_rx n s =
     (if n \<le> length (s_bytes s) then (Done (take n (s_bytes s)), s\<lparr>s_bytes := drop n (s_bytes s)\<rparr>)
      else (case s_end s of Ends e \<Rightarrow> Failed e | Stalls \<Rightarrow> Pending, s\<lparr>s_bytes := []\<rparr>))"

definition stream_of :: "bytes \<Rightarrow> ending \<Rightarrow> stream" where
  "stream_of bs e = \<lparr>s_bytes = bs, s_end = e\<rparr>"

lemma stream_of_sel [simp]: "s_bytes (stream_of bs e) = bs" "s_end (stream_of bs e) = e"
  by (simp_all add: stream_of_def)

lemma stream_of_eta [simp]: "stream_of (s_bytes s) (s_end s) = s"
  by (simp add: stream_of_def)

lemma stream_of_inject [simp]: "stream_of bs e = stream_of cs f \<longleftrightarrow> bs = cs \<and> e = f"
  by (simp add: stream_of_def)

lemma stream_rx_append [act_simps]:
  "length bs = n \<Longrightarrow> stream_rx n (stream_of (bs @ rest) e) = (Done bs, stream_of rest e)"
  by (simp add: stream_rx_def stream_of_def)

lemma stream_rx_short:
  "length (s_bytes s) < n \<Longrightarrow>
    stream_rx n s = (case s_end s of Ends e \<Rightarrow> Failed e | Stalls \<Rightarrow> Pending, s\<lparr>s_bytes := []\<rparr>)"
  by (simp add: stream_rx_def)

lemma stream_rx_Done:
  "stream_rx n s = (Done bs, s') \<longleftrightarrow>
    length bs = n \<and> s = stream_of (bs @ s_bytes s') (s_end s')"
  by (cases s; cases s') (auto simp: stream_rx_def stream_of_def min_def split: ending.splits)

lemma stream_rx_keeps_end [simp]: "s_end (snd (stream_rx n s)) = s_end s"
  by (simp add: stream_rx_def)

text \<open>\<open>read_u8\<close> and \<open>read_u16\<close> (big endian) of \<open>AsyncReadExt\<close>.\<close>

definition read_u8 :: "'r rx \<Rightarrow> ('r, io_error, u8) act" where
  "read_u8 rx = and_then (rx 1) (\<lambda>bs. ret (from_be bs))"

definition read_u16 :: "'r rx \<Rightarrow> ('r, io_error, u16) act" where
  "read_u16 rx = and_then (rx 2) (\<lambda>bs. ret (from_be bs))"

lemma read_u8_Cons [act_simps]:
  "read_u8 stream_rx (stream_of (b # rest) e) = (Done b, stream_of rest e)"
  using stream_rx_append [of "[b]" 1 rest e] by (simp add: read_u8_def act_simps)

lemma read_u16_octets [act_simps]:
  "read_u16 stream_rx (stream_of (be_octets 2 w @ rest) e) = (Done w, stream_of rest e)"
  by (simp add: read_u16_def act_simps)

lemma read_u8_Done:
  "read_u8 stream_rx s = (Done b, s') \<longleftrightarrow> s = stream_of (b # s_bytes s') (s_end s')"
proof
  assume "read_u8 stream_rx s = (Done b, s')"
  then obtain bs where "stream_rx 1 s = (Done bs, s')" "b = from_be bs"
    by (auto simp: read_u8_def and_then_def ret_def split: prod.splits outcome.splits)
  then show "s = stream_of (b # s_bytes s') (s_end s')"
    by (auto simp: stream_rx_Done length_Suc_conv)
next
  assume "s = stream_of (b # s_bytes s') (s_end s')"
  then show "read_u8 stream_rx s = (Done b, s')"
    by (metis read_u8_Cons stream_of_eta)
qed

lemma read_u16_Done:
  "read_u16 stream_rx s = (Done w, s') \<longleftrightarrow> s = stream_of (be_octets 2 w @ s_bytes s') (s_end s')"
proof
  assume "read_u16 stream_rx s = (Done w, s')"
  then obtain bs where "stream_rx 2 s = (Done bs, s')" "w = from_be bs"
    by (auto simp: read_u16_def and_then_def ret_def split: prod.splits outcome.splits)
  then show "s = stream_of (be_octets 2 w @ s_bytes s') (s_end s')"
    using octets_from_be [of bs 2, where 'a = 16] by (simp add: stream_rx_Done)
next
  assume "s = stream_of (be_octets 2 w @ s_bytes s') (s_end s')"
  then show "read_u16 stream_rx s = (Done w, s')"
    by (metis read_u16_octets stream_of_eta)
qed

subsection \<open>Every reader reads as its stream does\<close>

text \<open>
  \<open>reads_as view p q\<close>: running \<open>p\<close> on a reader gives the result of running \<open>q\<close> on the stream the
  reader holds, and leaves a reader that holds what \<open>q\<close> leaves.
\<close>

definition reads_as :: "('r \<Rightarrow> 'q) \<Rightarrow> ('r, 'e, 'a) act \<Rightarrow> ('q, 'e, 'a) act \<Rightarrow> bool" where
  "reads_as view p q \<longleftrightarrow> (\<forall>r. q (view r) = (fst (p r), view (snd (p r))))"

lemma reads_asD: "reads_as view p q \<Longrightarrow> q (view r) = (fst (p r), view (snd (p r)))"
  by (simp add: reads_as_def)

named_theorems reads_intros "a generic reader against the plain stream"

lemma reads_as_ret [reads_intros]: "reads_as view (ret a) (ret a)"
  by (simp add: reads_as_def act_simps)

lemma reads_as_raise [reads_intros]: "reads_as view (raise e) (raise e)"
  by (simp add: reads_as_def act_simps)

lemma reads_as_and_then [reads_intros]:
  "reads_as view p q \<Longrightarrow> (\<And>a. reads_as view (f a) (g a)) \<Longrightarrow>
    reads_as view (and_then p f) (and_then q g)"
  by (auto simp: reads_as_def and_then_def split: prod.splits outcome.splits)

lemma reads_as_if [reads_intros]:
  "(b \<Longrightarrow> reads_as view p q) \<Longrightarrow> (\<not> b \<Longrightarrow> reads_as view p' q') \<Longrightarrow>
    reads_as view (if b then p else p') (if b then q else q')"
  by simp

lemma reads_as_case_option [reads_intros]:
  "reads_as view p q \<Longrightarrow> (\<And>a. reads_as view (f a) (g a)) \<Longrightarrow>
    reads_as view (case x of None \<Rightarrow> p | Some a \<Rightarrow> f a) (case x of None \<Rightarrow> q | Some a \<Rightarrow> g a)"
  by (cases x) auto

locale async_read =
  fixes rx :: "'r rx"
    and view :: "'r \<Rightarrow> stream"
  assumes read_exact_law: "stream_rx n (view r) = (fst (rx n r), view (snd (rx n r)))"
begin

lemma rx_reads_as: "reads_as view (rx n) (stream_rx n)"
  by (simp add: reads_as_def read_exact_law)

lemma read_u8_reads_as: "reads_as view (read_u8 rx) (read_u8 stream_rx)"
  unfolding read_u8_def by (intro reads_intros rx_reads_as)

lemma read_u16_reads_as: "reads_as view (read_u16 rx) (read_u16 stream_rx)"
  unfolding read_u16_def by (intro reads_intros rx_reads_as)

end

interpretation plain_stream: async_read stream_rx "\<lambda>s. s"
  by unfold_locales simp

text \<open>\<open>std::io::Cursor<Vec<u8>>\<close>: a buffer and a position; \<open>eof\<close> is the error at its end.\<close>

record cursor =
  cur_buf :: bytes
  cur_pos :: nat

definition cursor_new :: "bytes \<Rightarrow> cursor" where
  "cursor_new bs = \<lparr>cur_buf = bs, cur_pos = 0\<rparr>"

definition cursor_rx :: "io_error \<Rightarrow> cursor rx" where
  "cursor_rx eof n c =
     (if n \<le> length (cur_buf c) - cur_pos c
      then (Done (take n (drop (cur_pos c) (cur_buf c))), c\<lparr>cur_pos := cur_pos c + n\<rparr>)
      else (Failed eof, c\<lparr>cur_pos := max (cur_pos c) (length (cur_buf c))\<rparr>))"

definition cursor_view :: "io_error \<Rightarrow> cursor \<Rightarrow> stream" where
  "cursor_view eof c = stream_of (drop (cur_pos c) (cur_buf c)) (Ends eof)"

interpretation cursor: async_read "cursor_rx eof" "cursor_view eof" for eof
  by unfold_locales
    (auto simp: cursor_rx_def cursor_view_def stream_rx_def stream_of_def max_def add.commute)

subsection \<open>Writers\<close>

record 'w tx =
  write_all :: "bytes \<Rightarrow> ('w, io_error, unit) act"
  flush :: "('w, io_error, unit) act"
  shutdown :: "('w, io_error, unit) act"

text \<open>
  \<open>sent\<close> is what has been written so far. \<open>write_all\<close> sends its buffer, or a prefix of it before
  an error or a stall; flushing and shutting down send nothing.
\<close>

locale async_write =
  fixes tx :: "'w tx"
    and sent :: "'w \<Rightarrow> bytes"
  assumes write_all_Done: "write_all tx bs w = (Done u, w') \<Longrightarrow> sent w' = sent w @ bs"
    and write_all_prefix: "\<exists>n. sent (snd (write_all tx bs w)) = sent w @ take n bs"
    and flush_law: "sent (snd (flush tx w)) = sent w"
    and shutdown_law: "sent (snd (shutdown tx w)) = sent w"
begin

text \<open>The writes of the protocol are \<open>write_all(&buf)\<close> followed by \<open>flush()\<close>.\<close>

lemma write_flush_Done:
  assumes "and_then (write_all tx bs) (\<lambda>_. flush tx) w = (Done u, w')"
  shows "sent w' = sent w @ bs"
proof -
  from assms obtain w1 where w1: "write_all tx bs w = (Done (), w1)" "flush tx w1 = (Done u, w')"
    by (auto elim: and_then_DoneD)
  from write_all_Done [OF w1(1)] flush_law [of w1] w1(2) show ?thesis by simp
qed

lemma write_flush_prefix:
  "\<exists>n. sent (snd (and_then (write_all tx bs) (\<lambda>_. flush tx) w)) = sent w @ take n bs"
proof -
  obtain r w1 where w1: "write_all tx bs w = (r, w1)" by (cases "write_all tx bs w")
  from write_all_prefix [of bs w] w1 obtain n where n: "sent w1 = sent w @ take n bs" by auto
  show ?thesis
    using w1 n flush_law [of w1] by (cases r) (auto simp: act_simps)
qed

end

text \<open>\<open>Vec<u8>\<close> as a writer: it takes everything.\<close>

definition vec_tx :: "bytes tx" where
  "vec_tx = \<lparr>write_all = (\<lambda>bs w. (Done (), w @ bs)), flush = ret (), shutdown = ret ()\<rparr>"

lemma vec_tx_sel [act_simps]:
  "write_all vec_tx bs w = (Done (), w @ bs)" "flush vec_tx w = (Done (), w)"
  "shutdown vec_tx w = (Done (), w)"
  by (simp_all add: vec_tx_def act_simps)

interpretation vec: async_write vec_tx "\<lambda>w. w"
  by unfold_locales (simp_all add: act_simps, metis order_refl take_all)

end
