(* ===== verification/Net.thy ===== *)
theory Net
  imports Streams
begin

text \<open>
  Addresses of \<open>std::net\<close> with the parts of their \<open>Display\<close> that reach the wire or the command
  line, and the interface of the \<open>ipnet\<close> crate. An address is the word of its width, \<open>octets\<close> is
  \<open>be_octets\<close>. A \<open>SocketAddrV6\<close> also carries a flow label and a scope id, which \<open>From<(Ipv6Addr,
  u16)>\<close> sets to 0.

  \<open>IpNet\<close> is third-party code: its type is a parameter \<open>'net\<close>, its methods are the fields of an
  \<open>ipnet\<close> record that the operations using them take as an argument.
\<close>

datatype ip_addr = V4 u32 | V6 u128

datatype socket_addr =
    SA4 (sa4_ip: u32) (sa4_port: u16)
  | SA6 (sa6_ip: u128) (sa6_port: u16) (sa6_flowinfo: u32) (sa6_scope_id: u32)

fun ip :: "socket_addr \<Rightarrow> ip_addr" where
  "ip (SA4 a p) = V4 a"
| "ip (SA6 a p f s) = V6 a"

fun port :: "socket_addr \<Rightarrow> u16" where
  "port (SA4 a p) = p"
| "port (SA6 a p f s) = p"

fun ip_is_ipv4 :: "ip_addr \<Rightarrow> bool" where
  "ip_is_ipv4 (V4 a) = True"
| "ip_is_ipv4 (V6 a) = False"

definition sa_is_ipv4 :: "socket_addr \<Rightarrow> bool" where
  "sa_is_ipv4 sa = ip_is_ipv4 (ip sa)"

text \<open>\<open>SocketAddr::new\<close> and \<open>SocketAddr::from((ip, port))\<close>.\<close>

fun socket_addr_new :: "ip_addr \<Rightarrow> u16 \<Rightarrow> socket_addr" where
  "socket_addr_new (V4 a) p = SA4 a p"
| "socket_addr_new (V6 a) p = SA6 a p 0 0"

lemma ip_socket_addr_new [simp]: "ip (socket_addr_new a p) = a"
  by (cases a) auto

lemma port_socket_addr_new [simp]: "port (socket_addr_new a p) = p"
  by (cases a) auto

definition ipv4 :: "nat \<Rightarrow> nat \<Rightarrow> nat \<Rightarrow> nat \<Rightarrow> u32" where
  "ipv4 a b c d = from_be [of_nat a, of_nat b, of_nat c, of_nat d]"

definition ipv4_is_loopback :: "u32 \<Rightarrow> bool" where
  "ipv4_is_loopback a \<longleftrightarrow> drop_bit 24 a = 127"

fun is_loopback :: "ip_addr \<Rightarrow> bool" where
  "is_loopback (V4 a) = ipv4_is_loopback a"
| "is_loopback (V6 a) = (a = 1)"

definition is_broadcast :: "u32 \<Rightarrow> bool" where
  "is_broadcast a \<longleftrightarrow> a = 0xFFFFFFFF"

definition is_unspecified :: "u32 \<Rightarrow> bool" where
  "is_unspecified a \<longleftrightarrow> a = 0"

text \<open>\<open>Ipv6Addr::to_ipv4_mapped\<close>: the IPv4 address inside \<open>::ffff:a.b.c.d\<close>.\<close>

definition to_ipv4_mapped :: "u128 \<Rightarrow> u32 option" where
  "to_ipv4_mapped a = (if drop_bit 32 a = 0xFFFF then Some (ucast a) else None)"

definition ipv4_mapped :: "u32 \<Rightarrow> u128" where
  "ipv4_mapped a = push_bit 32 0xFFFF OR ucast a"

lemma to_ipv4_mapped_of [simp]: "to_ipv4_mapped (ipv4_mapped a) = Some a"
proof -
  have "drop_bit 32 (ipv4_mapped a) = 0xFFFF"
    unfolding ipv4_mapped_def
    by (rule bit_word_eqI) (auto simp: bit_simps dest: bit_imp_le_length)
  moreover have "ucast (push_bit 32 x OR ucast a :: u128) = a" for x :: u128
    by (rule bit_word_eqI) (auto simp: bit_simps)
  then have "ucast (ipv4_mapped a) = a"
    unfolding ipv4_mapped_def .
  ultimately show ?thesis by (simp add: to_ipv4_mapped_def)
qed

subsection \<open>Display\<close>

text \<open>Digits in a base, most significant first; the digits of the code are ASCII.\<close>

definition digit :: "nat \<Rightarrow> u8" where
  "digit d = (if d < 10 then of_nat (48 + d) else of_nat (87 + d))"

fun show_base :: "nat \<Rightarrow> nat \<Rightarrow> bytes" where
  "show_base b n =
     (if b \<le> 1 \<or> n < b then [digit n] else show_base b (n div b) @ [digit (n mod b)])"

declare show_base.simps [simp del]

definition show_dec :: "nat \<Rightarrow> bytes" where
  "show_dec n = show_base 10 n"

definition show_hex :: "nat \<Rightarrow> bytes" where
  "show_hex n = show_base 16 n"

fun join :: "bytes \<Rightarrow> bytes list \<Rightarrow> bytes" where
  "join sep [] = []"
| "join sep [x] = x"
| "join sep (x # xs) = x @ sep @ join sep xs"

definition show_ipv4 :: "u32 \<Rightarrow> bytes" where
  "show_ipv4 a = join (lit ''.'') (map (\<lambda>b. show_dec (unat b)) (be_octets 4 a))"

definition segments :: "u128 \<Rightarrow> u16 list" where
  "segments a = map (\<lambda>i. ucast (drop_bit (16 * i) a)) (rev [0..<8])"

text \<open>The longest run of zero segments, the first one where several are longest.\<close>

fun zero_span :: "nat \<Rightarrow> u16 list \<Rightarrow> nat \<times> nat \<Rightarrow> nat \<times> nat \<Rightarrow> nat \<times> nat" where
  "zero_span i [] current longest = longest"
| "zero_span i (s # ss) current longest =
     (if s = 0 then
        let start = (if snd current = 0 then i else fst current);
            current' = (start, Suc (snd current))
        in zero_span (Suc i) ss current' (if snd current' > snd longest then current' else longest)
      else zero_span (Suc i) ss (0, 0) longest)"

definition show_segments :: "u16 list \<Rightarrow> bytes" where
  "show_segments ss = join (lit '':'') (map (\<lambda>s. show_hex (unat s)) ss)"

definition show_ipv6 :: "u128 \<Rightarrow> bytes" where
  "show_ipv6 a = (case to_ipv4_mapped a of
      Some v4 \<Rightarrow> lit ''::ffff:'' @ show_ipv4 v4
    | None \<Rightarrow>
        let ss = segments a; z = zero_span 0 ss (0, 0) (0, 0) in
        if snd z > 1
        then show_segments (take (fst z) ss) @ lit ''::'' @ show_segments (drop (fst z + snd z) ss)
        else show_segments ss)"

fun show_ip :: "ip_addr \<Rightarrow> bytes" where
  "show_ip (V4 a) = show_ipv4 a"
| "show_ip (V6 a) = show_ipv6 a"

fun show_socket_addr :: "socket_addr \<Rightarrow> bytes" where
  "show_socket_addr (SA4 a p) = show_ipv4 a @ lit '':'' @ show_dec (unat p)"
| "show_socket_addr (SA6 a p f s) =
     (if s = 0 then lit ''['' @ show_ipv6 a @ lit '']:'' @ show_dec (unat p)
      else lit ''['' @ show_ipv6 a @ lit ''%'' @ show_dec (unat s) @ lit '']:'' @ show_dec (unat p))"

lemma digit_ascii: "d < 16 \<Longrightarrow> digit d < 0x80"
proof -
  have "\<forall>d \<in> set [0..<16]. digit d < 0x80" by code_simp
  then show "d < 16 \<Longrightarrow> digit d < 0x80" by simp
qed

lemma show_base_ascii: "1 < b \<Longrightarrow> b \<le> 16 \<Longrightarrow> \<forall>c \<in> set (show_base b n). c < 0x80"
proof (induction b n rule: show_base.induct)
  case (1 b n)
  show ?case
  proof (cases "n < b")
    case True
    with "1.prems" show ?thesis by (subst show_base.simps) (simp add: digit_ascii)
  next
    case False
    moreover have "n mod b < 16"
      using "1.prems" mod_less_divisor [of b n] by linarith
    ultimately show ?thesis
      using "1.prems" "1.IH" by (subst show_base.simps) (auto simp: digit_ascii)
  qed
qed

subsection \<open>The ipnet interface\<close>

record 'net ipnet =
  net_contains :: "'net \<Rightarrow> ip_addr \<Rightarrow> bool"
  net_addr :: "'net \<Rightarrow> ip_addr"
  net_network :: "'net \<Rightarrow> ip_addr"
  net_is_v4 :: "'net \<Rightarrow> bool"
  net_show :: "'net \<Rightarrow> bytes"
  net_new :: "ip_addr \<Rightarrow> nat \<Rightarrow> 'net option"

text \<open>\<open>nets.iter().any(|net| net.contains(&ip))\<close>.\<close>

definition any_contains :: "'net ipnet \<Rightarrow> 'net list \<Rightarrow> ip_addr \<Rightarrow> bool" where
  "any_contains N nets a \<longleftrightarrow> list_ex (\<lambda>net. net_contains N net a) nets"

lemma any_contains_iff [simp]:
  "any_contains N nets a \<longleftrightarrow> (\<exists>net \<in> set nets. net_contains N net a)"
  by (simp add: any_contains_def list_ex_iff)

text \<open>
  Documented behaviour of \<open>IpNet::contains\<close>: a network holds addresses of its own family only.
\<close>

definition family_strict :: "'net ipnet \<Rightarrow> bool" where
  "family_strict N \<longleftrightarrow> (\<forall>net a. net_contains N net a \<longrightarrow> ip_is_ipv4 a = net_is_v4 N net)"

text \<open>
  A concrete instance, CIDR prefixes, at which the hypotheses about the parameter are shown to be
  satisfiable: an address and a prefix length, \<open>contains\<close> compares the leading bits.
\<close>

datatype cidr = Cidr4 u32 nat | Cidr6 u128 nat

fun cidr_contains :: "cidr \<Rightarrow> ip_addr \<Rightarrow> bool" where
  "cidr_contains (Cidr4 a n) (V4 x) = (drop_bit (32 - n) a = drop_bit (32 - n) x)"
| "cidr_contains (Cidr6 a n) (V6 x) = (drop_bit (128 - n) a = drop_bit (128 - n) x)"
| "cidr_contains _ _ = False"

fun cidr_addr :: "cidr \<Rightarrow> ip_addr" where
  "cidr_addr (Cidr4 a n) = V4 a"
| "cidr_addr (Cidr6 a n) = V6 a"

fun cidr_network :: "cidr \<Rightarrow> ip_addr" where
  "cidr_network (Cidr4 a n) = V4 (push_bit (32 - n) (drop_bit (32 - n) a))"
| "cidr_network (Cidr6 a n) = V6 (push_bit (128 - n) (drop_bit (128 - n) a))"

fun cidr_is_v4 :: "cidr \<Rightarrow> bool" where
  "cidr_is_v4 (Cidr4 a n) = True"
| "cidr_is_v4 (Cidr6 a n) = False"

fun cidr_show :: "cidr \<Rightarrow> bytes" where
  "cidr_show (Cidr4 a n) = show_ipv4 a @ lit ''/'' @ show_dec n"
| "cidr_show (Cidr6 a n) = show_ipv6 a @ lit ''/'' @ show_dec n"

fun cidr_new :: "ip_addr \<Rightarrow> nat \<Rightarrow> cidr option" where
  "cidr_new (V4 a) n = (if n \<le> 32 then Some (Cidr4 a n) else None)"
| "cidr_new (V6 a) n = (if n \<le> 128 then Some (Cidr6 a n) else None)"

definition cidr_net :: "cidr ipnet" where
  "cidr_net = \<lparr>net_contains = cidr_contains, net_addr = cidr_addr, net_network = cidr_network,
     net_is_v4 = cidr_is_v4, net_show = cidr_show, net_new = cidr_new\<rparr>"

lemma cidr_net_sel [simp]:
  "net_contains cidr_net = cidr_contains" "net_addr cidr_net = cidr_addr"
  "net_network cidr_net = cidr_network" "net_is_v4 cidr_net = cidr_is_v4"
  "net_show cidr_net = cidr_show" "net_new cidr_net = cidr_new"
  by (simp_all add: cidr_net_def)

lemma family_strict_cidr: "family_strict cidr_net"
proof -
  have "ip_is_ipv4 a = cidr_is_v4 net" if "cidr_contains net a" for net a
    using that by (cases net; cases a) auto
  then show ?thesis by (simp add: family_strict_def)
qed

end
