(* ===== verification/Wire.thy ===== *)
theory Wire
  imports Net
begin

text \<open>
  The wire protocol of \<open>crates/proto/src/lib.rs\<close>: commands, status codes, target addresses, the
  request and response of the handshake, and length-prefixed datagrams. Encoders append to a
  buffer, decoders read from any \<open>AsyncRead\<close>.
\<close>

subsection \<open>Constants, commands, status codes\<close>

definition MAGIC :: bytes where
  "MAGIC = lit ''VBRG''"

definition VERSION :: u8 where
  "VERSION = 1"

definition MAX_DATAGRAM :: nat where
  "MAX_DATAGRAM = unat (- 1 :: u16)"

definition ATYP_IPV4 :: u8 where "ATYP_IPV4 = 1"
definition ATYP_DOMAIN :: u8 where "ATYP_DOMAIN = 3"
definition ATYP_IPV6 :: u8 where "ATYP_IPV6 = 4"

datatype cmd = ConnectTcp | BindUdp

fun cmd_code :: "cmd \<Rightarrow> u8" where
  "cmd_code ConnectTcp = 1"
| "cmd_code BindUdp = 2"

definition cmd_from_u8 :: "u8 \<Rightarrow> cmd option" where
  "cmd_from_u8 v = (if v = 1 then Some ConnectTcp else if v = 2 then Some BindUdp else None)"

datatype status =
    Ok | AuthFailed | Forbidden | Unreachable | BadRequest | Unsupported | ServerError

fun status_code :: "status \<Rightarrow> u8" where
  "status_code Ok = 0"
| "status_code AuthFailed = 1"
| "status_code Forbidden = 2"
| "status_code Unreachable = 3"
| "status_code BadRequest = 4"
| "status_code Unsupported = 5"
| "status_code ServerError = 6"

definition status_from_u8 :: "u8 \<Rightarrow> status option" where
  "status_from_u8 v =
     (if v = 0 then Some Ok
      else if v = 1 then Some AuthFailed
      else if v = 2 then Some Forbidden
      else if v = 3 then Some Unreachable
      else if v = 4 then Some BadRequest
      else if v = 5 then Some Unsupported
      else if v = 6 then Some ServerError
      else None)"

fun show_status :: "status \<Rightarrow> bytes" where
  "show_status Ok = lit ''ok''"
| "show_status AuthFailed = lit ''authentication failed''"
| "show_status Forbidden = lit ''target not allowed by server policy''"
| "show_status Unreachable = lit ''target unreachable from the VM''"
| "show_status BadRequest = lit ''malformed request''"
| "show_status Unsupported = lit ''unsupported command''"
| "show_status ServerError = lit ''server error''"

text \<open>Both enumerations are finite types, so a statement about every code is decided by cases.\<close>

instantiation cmd :: enum
begin
definition "enum_cmd = [ConnectTcp, BindUdp]"
definition "enum_all_cmd P \<longleftrightarrow> P ConnectTcp \<and> P BindUdp"
definition "enum_ex_cmd P \<longleftrightarrow> P ConnectTcp \<or> P BindUdp"
instance
proof
  have "x \<in> set enum_class.enum" for x :: cmd by (cases x) (simp_all add: enum_cmd_def)
  then show univ: "(UNIV :: cmd set) = set enum_class.enum" by auto
  show "distinct (enum_class.enum :: cmd list)" by (simp add: enum_cmd_def)
  show "enum_class.enum_all P \<longleftrightarrow> Ball (UNIV :: cmd set) P" for P
    unfolding univ by (simp add: enum_all_cmd_def enum_cmd_def)
  show "enum_class.enum_ex P \<longleftrightarrow> Bex (UNIV :: cmd set) P" for P
    unfolding univ by (simp add: enum_ex_cmd_def enum_cmd_def)
qed
end

instantiation status :: enum
begin
definition
  "enum_status = [Ok, AuthFailed, Forbidden, Unreachable, BadRequest, Unsupported, ServerError]"
definition "enum_all_status P \<longleftrightarrow> list_all P (enum_class.enum :: status list)"
definition "enum_ex_status P \<longleftrightarrow> list_ex P (enum_class.enum :: status list)"
instance
proof
  have "x \<in> set enum_class.enum" for x :: status by (cases x) (simp_all add: enum_status_def)
  then show univ: "(UNIV :: status set) = set enum_class.enum" by auto
  show "distinct (enum_class.enum :: status list)" by (simp add: enum_status_def)
  show "enum_class.enum_all P \<longleftrightarrow> Ball (UNIV :: status set) P" for P
    unfolding univ by (simp add: enum_all_status_def list_all_iff)
  show "enum_class.enum_ex P \<longleftrightarrow> Bex (UNIV :: status set) P" for P
    unfolding univ by (simp add: enum_ex_status_def list_ex_iff)
qed
end

lemma cmd_from_code [simp]: "cmd_from_u8 (cmd_code c) = Some c"
  by (cases c) (simp_all add: cmd_from_u8_def)

lemma cmd_from_u8_Some: "cmd_from_u8 v = Some c \<longleftrightarrow> v = cmd_code c"
  by (cases c) (auto simp: cmd_from_u8_def)

lemma status_from_code [simp]: "status_from_u8 (status_code c) = Some c"
  by (cases c) (simp_all add: status_from_u8_def)

lemma status_from_u8_Some: "status_from_u8 v = Some c \<longleftrightarrow> v = status_code c"
  by (cases c) (auto simp: status_from_u8_def)

subsection \<open>Target addresses\<close>

datatype address = Ip socket_addr | Domain bytes u16

fun address_port :: "address \<Rightarrow> u16" where
  "address_port (Ip sa) = port sa"
| "address_port (Domain host p) = p"

fun address_ip :: "address \<Rightarrow> ip_addr option" where
  "address_ip (Ip sa) = Some (ip sa)"
| "address_ip (Domain host p) = None"

fun address_encode :: "address \<Rightarrow> bytes \<Rightarrow> bytes" where
  "address_encode (Ip (SA4 a p)) out = out @ [ATYP_IPV4] @ be_octets 4 a @ be_octets 2 p"
| "address_encode (Ip (SA6 a p flowinfo scope)) out =
     out @ [ATYP_IPV6] @ be_octets 16 a @ be_octets 2 p"
| "address_encode (Domain host p) out =
     (let len = min (length host) 255 in
      out @ [ATYP_DOMAIN] @ [of_nat len] @ take len host @ be_octets 2 p)"

definition address_read_from :: "'r rx \<Rightarrow> ('r, io_error, address) act" where
  "address_read_from rx =
     and_then (read_u8 rx) (\<lambda>atyp.
       if atyp = ATYP_IPV4 then
         and_then (rx 4) (\<lambda>octets.
         and_then (read_u16 rx) (\<lambda>p.
         ret (Ip (socket_addr_new (V4 (from_be octets)) p))))
       else if atyp = ATYP_IPV6 then
         and_then (rx 16) (\<lambda>octets.
         and_then (read_u16 rx) (\<lambda>p.
         ret (Ip (socket_addr_new (V6 (from_be octets)) p))))
       else if atyp = ATYP_DOMAIN then
         and_then (read_u8 rx) (\<lambda>len.
         and_then (rx (unat len)) (\<lambda>buf.
         and_then (read_u16 rx) (\<lambda>p.
         case from_utf8 buf of
           None \<Rightarrow> raise (IoError InvalidData (lit ''domain is not valid utf-8''))
         | Some host \<Rightarrow> ret (Domain host p))))
       else raise (IoError InvalidData
         (lit ''unknown address type '' @ show_dec (unat atyp))))"

fun show_address :: "address \<Rightarrow> bytes" where
  "show_address (Ip sa) = show_socket_addr sa"
| "show_address (Domain host p) = host @ lit '':'' @ show_dec (unat p)"

subsection \<open>The handshake\<close>

record request =
  req_cmd :: cmd
  req_token :: bytes
  req_target :: address

definition request_bytes :: "request \<Rightarrow> bytes" where
  "request_bytes req =
     address_encode (req_target req)
       (MAGIC @ [VERSION] @ [cmd_code (req_cmd req)] @ [of_nat (length (req_token req))]
        @ req_token req)"

definition request_write_to :: "'w tx \<Rightarrow> request \<Rightarrow> ('w, io_error, unit) act" where
  "request_write_to tx req =
     (if length (req_token req) > 255
      then raise (IoError InvalidInput (lit ''token longer than 255 bytes''))
      else and_then (write_all tx (request_bytes req)) (\<lambda>_. flush tx))"

definition request_read_from :: "'r rx \<Rightarrow> ('r, io_error, request) act" where
  "request_read_from rx =
     and_then (rx 4) (\<lambda>magic.
     if magic \<noteq> MAGIC then raise (IoError InvalidData (lit ''bad magic'')) else
     and_then (read_u8 rx) (\<lambda>version.
     if version \<noteq> VERSION then raise (IoError InvalidData
       (lit ''unsupported protocol version '' @ show_dec (unat version))) else
     and_then (read_u8 rx) (\<lambda>v.
     case cmd_from_u8 v of
       None \<Rightarrow> raise (IoError InvalidData (lit ''unknown command''))
     | Some c \<Rightarrow>
         and_then (read_u8 rx) (\<lambda>token_len.
         and_then (rx (unat token_len)) (\<lambda>buf.
         case from_utf8 buf of
           None \<Rightarrow> raise (IoError InvalidData (lit ''token is not valid utf-8''))
         | Some token \<Rightarrow>
             and_then (address_read_from rx) (\<lambda>target.
             ret \<lparr>req_cmd = c, req_token = token, req_target = target\<rparr>))))))"

record response =
  rsp_status :: status
  rsp_message :: bytes

definition response_ok :: response where
  "response_ok = \<lparr>rsp_status = Ok, rsp_message = []\<rparr>"

definition response_err :: "status \<Rightarrow> bytes \<Rightarrow> response" where
  "response_err s message = \<lparr>rsp_status = s, rsp_message = message\<rparr>"

definition response_bytes :: "response \<Rightarrow> bytes" where
  "response_bytes rsp =
     (let len = min (length (rsp_message rsp)) 255 in
      MAGIC @ [VERSION] @ [status_code (rsp_status rsp)] @ [of_nat len]
        @ take len (rsp_message rsp))"

definition response_write_to :: "'w tx \<Rightarrow> response \<Rightarrow> ('w, io_error, unit) act" where
  "response_write_to tx rsp =
     and_then (write_all tx (response_bytes rsp)) (\<lambda>_. flush tx)"

definition response_read_from :: "'r rx \<Rightarrow> ('r, io_error, response) act" where
  "response_read_from rx =
     and_then (rx 4) (\<lambda>magic.
     if magic \<noteq> MAGIC then raise (IoError InvalidData (lit ''bad magic in response'')) else
     and_then (read_u8 rx) (\<lambda>version.
     if version \<noteq> VERSION then raise (IoError InvalidData
       (lit ''unsupported protocol version '' @ show_dec (unat version) @ lit '' in response'')) else
     and_then (read_u8 rx) (\<lambda>v.
     case status_from_u8 v of
       None \<Rightarrow> raise (IoError InvalidData (lit ''unknown status code''))
     | Some st \<Rightarrow>
         and_then (read_u8 rx) (\<lambda>len.
         and_then (rx (unat len)) (\<lambda>msg.
         ret \<lparr>rsp_status = st, rsp_message = from_utf8_lossy msg\<rparr>)))))"

subsection \<open>Datagrams\<close>

definition datagram_bytes :: "bytes \<Rightarrow> bytes" where
  "datagram_bytes payload = be_octets 2 (of_nat (length payload) :: u16) @ payload"

definition write_datagram :: "'w tx \<Rightarrow> bytes \<Rightarrow> ('w, io_error, unit) act" where
  "write_datagram tx payload =
     (if length payload > MAX_DATAGRAM
      then raise (IoError InvalidInput (lit ''datagram too large''))
      else write_all tx (datagram_bytes payload))"

text \<open>
  \<open>read_datagram\<close> resizes the caller's buffer to the announced length, fills it and returns the
  length. The model returns the filled buffer, of which the length is that length.
\<close>

definition read_datagram :: "'r rx \<Rightarrow> ('r, io_error, bytes) act" where
  "read_datagram rx = and_then (read_u16 rx) (\<lambda>len. rx (unat len))"

lemma MAX_DATAGRAM_eq [simp]: "MAX_DATAGRAM = 65535"
  by (simp add: MAX_DATAGRAM_def unsigned_minus_1_eq_mask mask_eq_exp_minus_1)

lemma length_MAGIC [simp]: "length MAGIC = 4"
  by (simp add: MAGIC_def lit_def)

lemmas atyp_defs = ATYP_IPV4_def ATYP_IPV6_def ATYP_DOMAIN_def

end
