(* ===== verification/Wire_Codec.thy ===== *)
theory Wire_Codec
  imports Wire
begin

text \<open>
  What the wire format promises. The locale \<open>codec\<close> is the contract of an encoder and its decoder:
  a good value is read back from its encoding and nothing behind it is consumed. In
  \<open>canonical_codec\<close> the decoder also accepts encodings only, which makes the format unambiguous and
  prefix-free. Addresses, requests and datagrams are canonical codecs; a response is a codec only,
  since its message is decoded lossily.
\<close>

subsection \<open>The contract\<close>

locale codec =
  fixes enc :: "'a \<Rightarrow> bytes"
    and dec :: "(stream, io_error, 'a) act"
    and good :: "'a \<Rightarrow> bool"
  assumes dec_enc: "good a \<Longrightarrow> dec (stream_of (enc a @ rest) e) = (Done a, stream_of rest e)"
begin

lemma enc_inject: "good a \<Longrightarrow> good b \<Longrightarrow> enc a = enc b \<Longrightarrow> a = b"
  using dec_enc [of a "[]" Stalls] dec_enc [of b "[]" Stalls] by simp

lemma prefix_free:
  assumes "good a" "good b" "enc a @ xs = enc b @ ys"
  shows "a = b \<and> xs = ys"
proof -
  have "dec (stream_of (enc a @ xs) Stalls) = (Done a, stream_of xs Stalls)"
    using assms(1) by (rule dec_enc)
  moreover have "dec (stream_of (enc a @ xs) Stalls) = (Done b, stream_of ys Stalls)"
    unfolding assms(3) using assms(2) by (rule dec_enc)
  ultimately show ?thesis by simp
qed

lemma enc_nonempty: "good a \<Longrightarrow> good b \<Longrightarrow> a \<noteq> b \<Longrightarrow> enc a \<noteq> []"
  using prefix_free [of a b "enc b" "[]"] by fastforce

text \<open>A whole sequence of values is read back in order.\<close>

lemma dec_sequence:
  assumes "\<forall>a \<in> set as. good a"
  shows "repeat_n (length as) dec (stream_of (concat (map enc as) @ rest) e)
    = (Done as, stream_of rest e)"
  using assms by (induction as) (simp_all add: act_simps dec_enc)

text \<open>A prefix of an encoded sequence that is itself an encoded sequence encodes a prefix.\<close>

lemma sequence_prefix:
  assumes "concat (map enc as) @ xs = concat (map enc bs) @ ys"
    and "\<forall>a \<in> set as. good a" and "\<forall>b \<in> set bs. good b" and "length as \<le> length bs"
  shows "as = take (length as) bs"
  using assms
proof (induction as arbitrary: bs)
  case Nil
  then show ?case by simp
next
  case (Cons a as)
  then obtain b bs' where bs: "bs = b # bs'" by (cases bs) auto
  with Cons.prems have "enc a @ (concat (map enc as) @ xs) = enc b @ (concat (map enc bs') @ ys)"
    by simp
  from prefix_free [OF _ _ this] Cons.prems bs have "a = b"
      "concat (map enc as) @ xs = concat (map enc bs') @ ys" by auto
  with Cons.IH [of bs'] Cons.prems bs show ?case by simp
qed

lemma sequence_prefix_le:
  assumes "concat (map enc as) @ xs = concat (map enc bs)"
    and "\<forall>a \<in> set as. good a" and "\<forall>b \<in> set bs. good b" and "\<And>a. good a \<Longrightarrow> enc a \<noteq> []"
  shows "as = take (length as) bs"
proof (cases "length as \<le> length bs")
  case True
  then show ?thesis
    by (rule sequence_prefix [where xs = xs and ys = "[]", rotated -1]) (use assms in auto)
next
  case False
  let ?extra = "drop (length bs) as"
  have "bs = take (length bs) as"
    by (rule sequence_prefix [where xs = "[]" and ys = xs]) (use False assms in auto)
  then have "concat (map enc as) = concat (map enc bs) @ concat (map enc ?extra)"
    by (metis append_take_drop_id concat_append map_append)
  with assms(1) have empty: "\<forall>a \<in> set ?extra. enc a = []" by simp
  have "a \<notin> set ?extra" for a
    using empty assms(2,4) by (meson in_set_dropD)
  then have "?extra = []" by (metis list.set_intros(1) neq_Nil_conv)
  with False show ?thesis by simp
qed

end

locale canonical_codec = codec +
  assumes dec_canonical:
    "dec s = (Done a, s') \<Longrightarrow> good a \<and> s = stream_of (enc a @ s_bytes s') (s_end s')"
begin

lemma dec_iff:
  "dec s = (Done a, s') \<longleftrightarrow> good a \<and> s = stream_of (enc a @ s_bytes s') (s_end s')"
  using dec_canonical [of s a s'] dec_enc [of a "s_bytes s'" "s_end s'"] by auto

text \<open>What was decoded stays decoded when more bytes arrive.\<close>

lemma dec_extend:
  assumes "dec (stream_of bs e) = (Done a, stream_of rest e)"
  shows "dec (stream_of (bs @ extra) f) = (Done a, stream_of (rest @ extra) f)"
  using assms by (simp add: dec_iff)

text \<open>A proper prefix of an encoding never decodes.\<close>

lemma truncated_not_Done:
  assumes "good a" and "k < length (enc a)"
  shows "dec (stream_of (take k (enc a)) e) \<noteq> (Done b, s')"
proof
  assume "dec (stream_of (take k (enc a)) e) = (Done b, s')"
  then have b: "good b" and "take k (enc a) = enc b @ s_bytes s'"
    by (auto simp: dec_iff)
  then have "enc a = enc b @ (s_bytes s' @ drop k (enc a))"
    by (metis append.assoc append_take_drop_id)
  with prefix_free [OF assms(1) b, of "[]" "s_bytes s' @ drop k (enc a)"] assms(2)
  show False by simp
qed

end

subsection \<open>Addresses\<close>

text \<open>
  The addresses the format carries without loss: the flow label and scope id of an IPv6 socket
  address are not encoded, and a domain must fit its one-byte length.
\<close>

fun good_address :: "address \<Rightarrow> bool" where
  "good_address (Ip (SA4 a p)) = True"
| "good_address (Ip (SA6 a p flowinfo scope)) = (flowinfo = 0 \<and> scope = 0)"
| "good_address (Domain host p) = (length host \<le> 255 \<and> utf8_valid host)"

abbreviation address_bytes :: "address \<Rightarrow> bytes" where
  "address_bytes a \<equiv> address_encode a []"

lemma address_encode_append: "address_encode a out = out @ address_bytes a"
  by (cases a rule: good_address.cases) (auto simp: Let_def)

lemma length_byte [simp]: "n \<le> 255 \<Longrightarrow> unat (of_nat n :: u8) = n"
  by (simp add: unat_of_nat_u8)

lemma of_nat_unat_u8 [simp]: "of_nat (unat (b :: u8)) = b"
  by simp

lemma address_dec_enc:
  assumes "good_address a"
  shows "address_read_from stream_rx (stream_of (address_bytes a @ rest) e)
    = (Done a, stream_of rest e)"
proof (cases a)
  case (Ip sa)
  then show ?thesis
    using assms
    by (cases sa) (simp_all add: address_read_from_def atyp_defs act_simps)
next
  case (Domain host p)
  with assms have "length host \<le> 255" "utf8_valid host" by auto
  with Domain show ?thesis
    by (simp add: address_read_from_def atyp_defs act_simps from_utf8_def Let_def)
qed

lemma address_dec_canonical:
  assumes "address_read_from stream_rx s = (Done a, s')"
  shows "good_address a \<and> s = stream_of (address_bytes a @ s_bytes s') (s_end s')"
  using assms
  by (auto simp: address_read_from_def and_then_Done_iff ret_Done_iff read_u8_Done read_u16_Done
      stream_rx_Done octets_from_be from_utf8_def unat_u8_le Let_def min_def
      split: if_splits option.splits)

interpretation address_codec: canonical_codec address_bytes "address_read_from stream_rx" good_address
  by unfold_locales (use address_dec_enc address_dec_canonical in blast)+

text \<open>An address reader over any \<open>AsyncRead\<close> reads what the stream reader does.\<close>

context async_read
begin

lemma address_reads_as: "reads_as view (address_read_from rx) (address_read_from stream_rx)"
  unfolding address_read_from_def
  by (intro reads_intros rx_reads_as read_u8_reads_as read_u16_reads_as)

lemma request_reads_as: "reads_as view (request_read_from rx) (request_read_from stream_rx)"
  unfolding request_read_from_def
  by (intro reads_intros rx_reads_as read_u8_reads_as address_reads_as)

lemma response_reads_as: "reads_as view (response_read_from rx) (response_read_from stream_rx)"
  unfolding response_read_from_def
  by (intro reads_intros rx_reads_as read_u8_reads_as)

lemma datagram_reads_as: "reads_as view (read_datagram rx) (read_datagram stream_rx)"
  unfolding read_datagram_def
  by (intro reads_intros rx_reads_as read_u16_reads_as)

end

subsection \<open>Requests\<close>

definition good_request :: "request \<Rightarrow> bool" where
  "good_request req \<longleftrightarrow> length (req_token req) \<le> 255 \<and> utf8_valid (req_token req) \<and>
     good_address (req_target req)"

lemma request_bytes_eq:
  "request_bytes req = MAGIC @ VERSION # cmd_code (req_cmd req) # of_nat (length (req_token req))
     # req_token req @ address_bytes (req_target req)"
  unfolding request_bytes_def by (subst address_encode_append) simp

lemma request_dec_enc:
  assumes "good_request req"
  shows "request_read_from stream_rx (stream_of (request_bytes req @ rest) e)
    = (Done req, stream_of rest e)"
  using assms
  by (simp add: good_request_def request_read_from_def request_bytes_eq act_simps from_utf8_def
      address_codec.dec_enc)

lemma request_dec_canonical:
  assumes "request_read_from stream_rx s = (Done req, s')"
  shows "good_request req \<and> s = stream_of (request_bytes req @ s_bytes s') (s_end s')"
  using assms
  by (auto simp: request_read_from_def and_then_Done_iff ret_Done_iff read_u8_Done stream_rx_Done
      address_codec.dec_iff cmd_from_u8_Some good_request_def request_bytes_eq from_utf8_def
      unat_u8_le split: if_splits option.splits)

interpretation request_codec: canonical_codec request_bytes "request_read_from stream_rx" good_request
  by unfold_locales (use request_dec_enc request_dec_canonical in blast)+

subsection \<open>Responses\<close>

text \<open>
  A response is decoded without loss when its message fits the one-byte length and is UTF-8. In
  general the peer sees the first 255 bytes, repaired.
\<close>

definition good_response :: "response \<Rightarrow> bool" where
  "good_response rsp \<longleftrightarrow> length (rsp_message rsp) \<le> 255 \<and> utf8_valid (rsp_message rsp)"

definition received_response :: "response \<Rightarrow> response" where
  "received_response rsp =
     rsp\<lparr>rsp_message := from_utf8_lossy (take 255 (rsp_message rsp))\<rparr>"

lemma response_read_write:
  "response_read_from stream_rx (stream_of (response_bytes rsp @ rest) e)
    = (Done (received_response rsp), stream_of rest e)"
proof -
  have len: "min (length (rsp_message rsp)) 255 \<le> 255" by simp
  show ?thesis
    by (simp add: response_read_from_def response_bytes_def received_response_def Let_def act_simps
        length_byte [OF len] min_def)
qed

lemma received_response_good: "good_response rsp \<Longrightarrow> received_response rsp = rsp"
  by (simp add: good_response_def received_response_def from_utf8_lossy_id)

interpretation response_codec: codec response_bytes "response_read_from stream_rx" good_response
  by unfold_locales (simp add: response_read_write received_response_good)

subsection \<open>Datagrams\<close>

definition good_datagram :: "bytes \<Rightarrow> bool" where
  "good_datagram d \<longleftrightarrow> length d \<le> MAX_DATAGRAM"

lemma datagram_dec_enc:
  assumes "good_datagram d"
  shows "read_datagram stream_rx (stream_of (datagram_bytes d @ rest) e)
    = (Done d, stream_of rest e)"
proof -
  have "unat (of_nat (length d) :: u16) = length d"
    using assms by (simp add: good_datagram_def unat_of_nat_u16)
  then show ?thesis by (simp add: read_datagram_def datagram_bytes_def act_simps)
qed

lemma datagram_dec_canonical:
  assumes "read_datagram stream_rx s = (Done d, s')"
  shows "good_datagram d \<and> s = stream_of (datagram_bytes d @ s_bytes s') (s_end s')"
  using assms unat_u16_le
  by (auto simp: read_datagram_def and_then_Done_iff read_u16_Done stream_rx_Done good_datagram_def
      datagram_bytes_def)

interpretation datagram_codec: canonical_codec datagram_bytes "read_datagram stream_rx" good_datagram
  by unfold_locales (use datagram_dec_enc datagram_dec_canonical in blast)+

subsection \<open>Properties of the wire format\<close>

text \<open>
  C12: the request decoder accepts exactly the encodings of well-formed requests. It returns the
  request that was encoded, consumes its bytes and not one more, and nothing else decodes.
\<close>

theorem request_wire_exact:
  "request_read_from stream_rx s = (Done req, s') \<longleftrightarrow>
    good_request req \<and> s = stream_of (request_bytes req @ s_bytes s') (s_end s')"
  by (rule request_codec.dec_iff)

text \<open>
  A request of which the last bytes are missing is never taken for a request, not even for
  another one.
\<close>

lemma request_truncation_detected:
  assumes "good_request req" and "k < length (request_bytes req)"
  shows "request_read_from stream_rx (stream_of (take k (request_bytes req)) e) \<noteq> (Done req', s')"
  using assms by (rule request_codec.truncated_not_Done)

lemma request_truncation_detected_witness:
  "let req = \<lparr>req_cmd = BindUdp, req_token = lit ''k'', req_target = Ip (SA4 0 53)\<rparr> in
    \<forall>s'. request_read_from stream_rx (stream_of (take 9 (request_bytes req)) Stalls) \<noteq> (Done req, s')"
  unfolding Let_def by (intro allI, rule request_truncation_detected; code_simp)

text \<open>
  C13: what the peer reads of a response is its status, and the first 255 bytes of its message
  with what is not UTF-8 replaced; the message arrives unchanged when it is UTF-8 and fits.
\<close>

theorem response_as_received:
  "response_read_from stream_rx (stream_of (response_bytes rsp @ rest) e) =
     (Done (rsp\<lparr>rsp_message := (if good_response rsp then rsp_message rsp
        else from_utf8_lossy (take 255 (rsp_message rsp)))\<rparr>), stream_of rest e)"
proof -
  have "received_response rsp = rsp\<lparr>rsp_message := (if good_response rsp then rsp_message rsp
      else from_utf8_lossy (take 255 (rsp_message rsp)))\<rparr>"
    using received_response_good [of rsp] by (auto simp: received_response_def)
  then show ?thesis by (simp add: response_read_write)
qed

text \<open>A writer that sends datagrams one after the other, as the uplinks do.\<close>

fun write_datagrams :: "'w tx \<Rightarrow> bytes list \<Rightarrow> ('w, io_error, unit) act" where
  "write_datagrams tx [] = ret ()"
| "write_datagrams tx (d # ds) = and_then (write_datagram tx d) (\<lambda>_. write_datagrams tx ds)"

lemma write_datagrams_vec:
  "\<forall>d \<in> set ds. good_datagram d \<Longrightarrow>
    write_datagrams vec_tx ds out = (Done (), out @ concat (map datagram_bytes ds))"
  by (induction ds arbitrary: out)
    (simp_all add: act_simps good_datagram_def write_datagram_def vec_tx_def and_then_def not_less)

text \<open>
  Datagrams written to a tunnel one after the other are read back one by one, each with its
  boundaries and none with its neighbour's bytes.
\<close>

lemma datagrams_roundtrip:
  assumes "\<forall>d \<in> set ds. good_datagram d"
  shows "\<exists>out. write_datagrams vec_tx ds [] = (Done (), out) \<and>
    repeat_n (length ds) (read_datagram stream_rx) (stream_of (out @ rest) e)
      = (Done ds, stream_of rest e)"
  using datagram_codec.dec_sequence [OF assms] write_datagrams_vec [OF assms] by simp

lemma datagrams_roundtrip_witness:
  "\<exists>out. write_datagrams vec_tx [[1, 2], [], [3]] [] = (Done (), out) \<and>
    repeat_n (length [[1, 2 :: u8], [], [3]]) (read_datagram stream_rx) (stream_of (out @ [9]) Stalls)
      = (Done [[1, 2], [], [3]], stream_of [9] Stalls)"
  by (rule datagrams_roundtrip) (simp add: good_datagram_def MAX_DATAGRAM_def)

text \<open>
  The limits of the format are enforced before anything is sent: a token over 255 bytes and a
  datagram over 65535 bytes are refused and leave the writer untouched, everything else is appended
  in full.
\<close>

lemma write_limits:
  "request_write_to vec_tx req out =
     (if 255 < length (req_token req)
      then (Failed (IoError InvalidInput (lit ''token longer than 255 bytes'')), out)
      else (Done (), out @ request_bytes req)) \<and>
   write_datagram vec_tx d out =
     (if 65535 < length d then (Failed (IoError InvalidInput (lit ''datagram too large'')), out)
      else (Done (), out @ datagram_bytes d))"
  by (simp add: request_write_to_def write_datagram_def MAX_DATAGRAM_def vec_tx_def raise_def
      and_then_def ret_def)

end
