(* ===== verification/World.thy ===== *)
theory World
  imports "HOL-Library.Code_Target_Nat" Wire_Codec
begin

text \<open>
  The environment of a session: everything a task asks the runtime or the operating system for is a
  \<open>call\<close>, and the state of a task is the trace of the calls it made. An \<open>os\<close> answers a call from
  the whole trace before it, so a theorem over all \<open>os\<close> holds for every behaviour of the network,
  the resolver and the clock. The stream to the peer of the session is \<open>os_inbox\<close>, the bytes the
  peer will send and how its stream ends.
\<close>

datatype call =
    Timer nat                      \<comment> \<open>\<open>timeout(d, ..)\<close> starts, \<open>d\<close> in milliseconds\<close>
  | Sleep nat                      \<comment> \<open>\<open>sleep(d)\<close>, milliseconds\<close>
  | Now                            \<comment> \<open>\<open>Instant::now()\<close>\<close>
  | ReadExact nat                  \<comment> \<open>the stream to the peer of the session\<close>
  | WriteAll bytes
  | Flush
  | Shutdown
  | SetNodelay bool
  | LookupHost bytes u16           \<comment> \<open>\<open>tokio::net::lookup_host\<close>\<close>
  | NewSocketV4                    \<comment> \<open>\<open>TcpSocket\<close>\<close>
  | NewSocketV6
  | BindSocket socket_addr
  | ConnectSocket socket_addr
  | UdpBind socket_addr            \<comment> \<open>\<open>UdpSocket\<close>\<close>
  | UdpConnect socket_addr
  | UpstreamNodelay bool           \<comment> \<open>the connection to the target\<close>
  | UpstreamShutdown
  | CopyBidirectional              \<comment> \<open>\<open>tokio::io::copy_bidirectional\<close>\<close>
  | LocalShutdown                \<comment> \<open>the local side of a flow\<close>
  | RaceUdpPumps nat               \<comment> \<open>the \<open>select!\<close> over the two UDP pumps, idle milliseconds\<close>
  | RaceTcpPumps nat               \<comment> \<open>the \<open>select!\<close> over TCP relay and idle watchdog\<close>
  | TcpDial socket_addr            \<comment> \<open>\<open>TcpStream::connect\<close>\<close>
  | QuicStart socket_addr bytes    \<comment> \<open>quinn: \<open>endpoint.connect(server, name)\<close>\<close>
  | QuicConnect                    \<comment> \<open>quinn: await the connection\<close>
  | QuicCloseReason nat            \<comment> \<open>quinn: is connection \<open>n\<close> still open\<close>
  | QuicOpenBi nat                 \<comment> \<open>quinn: open a bidirectional stream on connection \<open>n\<close>\<close>
  | GrpcSendFrame bytes            \<comment> \<open>tonic: put a \<open>TunnelFrame\<close> on the request stream\<close>
  | GrpcOpen                       \<comment> \<open>tonic: the \<open>Open\<close> call\<close>
  | RunProgram bytes "bytes list"  \<comment> \<open>\<open>std::process::Command\<close>\<close>
  | CreateTun bytes u32 u32 u16    \<comment> \<open>tun-rs: name, address, netmask, mtu\<close>
  | SpawnDns                       \<comment> \<open>\<open>tokio::spawn(dns::serve(..))\<close>\<close>
  | AcceptLoop                     \<comment> \<open>the accept loop of a main function, until shutdown\<close>

text \<open>
  The answers. \<open>os_unit\<close> answers every call whose result carries no data. \<open>os_run\<close> is what
  \<open>Command::output\<close> returns: that the program could not be run, or its exit status and output.
\<close>

record run_output =
  out_success :: bool
  out_status :: bytes
  out_stdout :: bytes
  out_stderr :: bytes

record os =
  os_inbox :: stream
  os_write :: "call list \<Rightarrow> bytes \<Rightarrow> (io_error, unit) outcome"
  os_unit :: "call list \<Rightarrow> call \<Rightarrow> (io_error, unit) outcome"
  os_lookup :: "call list \<Rightarrow> bytes \<Rightarrow> u16 \<Rightarrow> (io_error, socket_addr list) outcome"
  os_now :: "call list \<Rightarrow> nat"
  os_run :: "call list \<Rightarrow> bytes \<Rightarrow> bytes list \<Rightarrow> io_error + run_output"
  os_handle :: "call list \<Rightarrow> call \<Rightarrow> (io_error, nat) outcome"
  os_flag :: "call list \<Rightarrow> call \<Rightarrow> bool"

type_synonym ('e, 'a) io = "(call list, 'e, 'a) act"

definition do_call :: "os \<Rightarrow> call \<Rightarrow> (io_error, unit) io" where
  "do_call os c = sys c (\<lambda>h. os_unit os h c)"

text \<open>\<open>timeout(d, m).await\<close>: the deadline is armed, then \<open>m\<close> runs.\<close>

definition with_timeout :: "nat \<Rightarrow> ('e, 'a) io \<Rightarrow> ('f, ('e + 'a) option) io" where
  "with_timeout d m = and_then (sys (Timer d) (\<lambda>_. Done ())) (\<lambda>_. timeout m)"

text \<open>\<open>let _ = m.await\<close>: the result is dropped.\<close>

definition ignore :: "('e, 'a) io \<Rightarrow> ('f, unit) io" where
  "ignore m = and_then (attempt m) (\<lambda>_. ret ())"

lemma issues_do_call [issues_intros]: "P c \<Longrightarrow> issues P (do_call os c) (\<lambda>_. True)"
  unfolding do_call_def by (rule issues_sys) auto

lemma issues_with_timeout:
  assumes "P (Timer d)" and "issues P m R" and "Q None" and "\<And>e. Q (Some (Inl e))"
    and "\<And>a. R a \<Longrightarrow> Q (Some (Inr a))"
  shows "issues P (with_timeout d m) Q"
  unfolding with_timeout_def
  by (rule issues_bind, rule issues_sys) (use assms in \<open>auto intro: issues_timeout\<close>)

lemma issues_with_timeout_any [issues_intros]:
  "P (Timer d) \<Longrightarrow> issues P m (\<lambda>_. True) \<Longrightarrow> issues P (with_timeout d m) (\<lambda>_. True)"
  by (rule issues_with_timeout) auto

lemma issues_ignore [issues_intros]:
  "issues P m (\<lambda>_. True) \<Longrightarrow> issues P (ignore m) (\<lambda>_. True)"
  unfolding ignore_def by (intro issues_intros) auto

subsection \<open>The stream to the peer\<close>

definition inbox_view :: "stream \<Rightarrow> call list \<Rightarrow> stream" where
  "inbox_view s h =
     foldl (\<lambda>s c. case c of ReadExact n \<Rightarrow> snd (stream_rx n s) | _ \<Rightarrow> s) s h"

lemma inbox_view_snoc [simp]:
  "inbox_view s (h @ [c]) =
     (case c of ReadExact n \<Rightarrow> snd (stream_rx n (inbox_view s h)) | _ \<Rightarrow> inbox_view s h)"
  by (simp add: inbox_view_def split: call.split)

lemma inbox_view_Nil [simp]: "inbox_view s [] = s"
  by (simp add: inbox_view_def)

definition peer_rx :: "os \<Rightarrow> call list rx" where
  "peer_rx os n = sys (ReadExact n) (\<lambda>h. fst (stream_rx n (inbox_view (os_inbox os) h)))"

interpretation peer: async_read "peer_rx os" "inbox_view (os_inbox os)" for os
  by unfold_locales (simp add: peer_rx_def sys_def)

definition peer_tx :: "os \<Rightarrow> call list tx" where
  "peer_tx os =
     \<lparr>write_all = (\<lambda>bs. sys (WriteAll bs) (\<lambda>h. os_write os h bs)),
      flush = do_call os Flush, shutdown = do_call os Shutdown\<rparr>"

lemma peer_tx_sel [simp]:
  "write_all (peer_tx os) bs = sys (WriteAll bs) (\<lambda>h. os_write os h bs)"
  "flush (peer_tx os) = do_call os Flush"
  "shutdown (peer_tx os) = do_call os Shutdown"
  by (simp_all add: peer_tx_def)

text \<open>What the completed writes of a trace sent to the peer.\<close>

definition sent_by :: "os \<Rightarrow> call list \<Rightarrow> call \<Rightarrow> bytes" where
  "sent_by os h c = (case c of
      WriteAll bs \<Rightarrow> if os_write os h bs = Done () then bs else []
    | _ \<Rightarrow> [])"

definition sent_to_peer :: "os \<Rightarrow> call list \<Rightarrow> bytes" where
  "sent_to_peer os h = concat (map (\<lambda>i. sent_by os (take i h) (h ! i)) [0..<length h])"

lemma sent_to_peer_Nil [simp]: "sent_to_peer os [] = []"
  by (simp add: sent_to_peer_def)

lemma sent_to_peer_snoc [simp]: "sent_to_peer os (h @ [c]) = sent_to_peer os h @ sent_by os h c"
  unfolding sent_to_peer_def
  by (simp, intro arg_cong [where f = concat] map_cong) (auto simp: nth_append)

interpretation peer_out: async_write "peer_tx os" "sent_to_peer os" for os
proof unfold_locales
  show "\<exists>n. sent_to_peer os (snd (write_all (peer_tx os) bs w)) = sent_to_peer os w @ take n bs"
    for bs w
    by (auto simp: sys_def sent_by_def intro: exI [of _ "length bs"] exI [of _ 0])
qed (auto simp: sys_def do_call_def sent_by_def)

lemma sent_to_peer_other:
  "\<forall>c \<in> set cs. \<forall>bs. c \<noteq> WriteAll bs \<Longrightarrow> sent_to_peer os (h @ cs) = sent_to_peer os h"
proof (induction cs rule: rev_induct)
  case Nil
  then show ?case by simp
next
  case (snoc c cs)
  then have "sent_to_peer os (h @ cs) = sent_to_peer os h" "sent_by os (h @ cs) c = []"
    by (auto simp: sent_by_def split: call.splits)
  then show ?case
    using sent_to_peer_snoc [of os "h @ cs" c] by simp
qed

text \<open>Calls that leave the stream to the peer alone.\<close>

fun silent :: "call \<Rightarrow> bool" where
  "silent (ReadExact n) = False"
| "silent (WriteAll bs) = False"
| "silent _ = True"

lemma silent_no_write: "silent c \<Longrightarrow> sent_by os h c = []"
  by (cases c) (auto simp: sent_by_def)

lemma silent_no_read: "silent c \<Longrightarrow> inbox_view s (h @ [c]) = inbox_view s h"
  by (cases c) auto

lemma silent_keeps:
  assumes "\<forall>c \<in> set cs. silent c"
  shows "sent_to_peer os (h @ cs) = sent_to_peer os h \<and> inbox_view s (h @ cs) = inbox_view s h"
  using assms
proof (induction cs rule: rev_induct)
  case Nil
  then show ?case by simp
next
  case (snoc c cs)
  then have "silent c" "sent_to_peer os (h @ cs) = sent_to_peer os h"
      "inbox_view s (h @ cs) = inbox_view s h"
    by auto
  then show ?case
    using sent_to_peer_snoc [of os "h @ cs" c] silent_no_read [of c s "h @ cs"]
    by (simp add: silent_no_write)
qed

text \<open>Reads leave what was sent alone, and writes what is still to be read.\<close>

lemma reads_send_nothing:
  assumes "issues is_r m Q" and "m h = (r, h')" and "\<And>c bs. is_r c \<Longrightarrow> c \<noteq> WriteAll bs"
  shows "sent_to_peer os h' = sent_to_peer os h"
proof -
  from assms(1,2) obtain cs where "h' = h @ cs" "\<forall>c \<in> set cs. is_r c" by (rule issuesD)
  with assms(3) sent_to_peer_other [of cs os h] show ?thesis by blast
qed

lemma writes_read_nothing:
  assumes "issues is_w m Q" and "m h = (r, h')" and "\<And>c n. is_w c \<Longrightarrow> c \<noteq> ReadExact n"
  shows "inbox_view s h' = inbox_view s h"
proof -
  from assms(1,2) obtain cs where cs: "h' = h @ cs" "\<forall>c \<in> set cs. is_w c" by (rule issuesD)
  have "inbox_view s (h @ cs) = inbox_view s h" if "\<forall>c \<in> set cs. \<forall>n. c \<noteq> ReadExact n"
    using that
  proof (induction cs rule: rev_induct)
    case (snoc c cs)
    then show ?case
      using inbox_view_snoc [of s "h @ cs" c] by (auto split: call.splits)
  qed simp
  with cs assms(3) show ?thesis by blast
qed

lemma with_timeout_SomeD:
  assumes "with_timeout d m h = (Done (Some (Inr a)), h')"
  shows "m (h @ [Timer d]) = (Done a, h')"
  using assms
  by (auto simp: with_timeout_def timeout_def and_then_def sys_def
      split: prod.splits outcome.splits)

subsection \<open>The protocol over the peer's stream\<close>

text \<open>Reading a request or a response issues reads only.\<close>

definition is_read :: "call \<Rightarrow> bool" where
  "is_read c \<longleftrightarrow> (\<exists>n. c = ReadExact n)"

definition is_write :: "call \<Rightarrow> bool" where
  "is_write c \<longleftrightarrow> (\<exists>bs. c = WriteAll bs) \<or> c = Flush"

lemma issues_peer_rx [issues_intros]: "issues is_read (peer_rx os n) (\<lambda>_. True)"
  unfolding peer_rx_def by (intro issues_intros) (auto simp: is_read_def)

lemma issues_read_u8 [issues_intros]: "issues is_read (read_u8 (peer_rx os)) (\<lambda>_. True)"
  unfolding read_u8_def by (intro issues_intros) auto

lemma issues_read_u16 [issues_intros]: "issues is_read (read_u16 (peer_rx os)) (\<lambda>_. True)"
  unfolding read_u16_def by (intro issues_intros) auto

lemma issues_if [issues_intros]:
  "(b \<Longrightarrow> issues P m Q) \<Longrightarrow> (\<not> b \<Longrightarrow> issues P m' Q) \<Longrightarrow> issues P (if b then m else m') Q"
  by simp

lemma issues_case_option [issues_intros]:
  "(x = None \<Longrightarrow> issues P m Q) \<Longrightarrow> (\<And>a. x = Some a \<Longrightarrow> issues P (f a) Q) \<Longrightarrow>
    issues P (case x of None \<Rightarrow> m | Some a \<Rightarrow> f a) Q"
  by (cases x) auto

lemma issues_case_sum [issues_intros]:
  "(\<And>e. x = Inl e \<Longrightarrow> issues P (f e) Q) \<Longrightarrow> (\<And>a. x = Inr a \<Longrightarrow> issues P (g a) Q) \<Longrightarrow>
    issues P (case x of Inl e \<Rightarrow> f e | Inr a \<Rightarrow> g a) Q"
  by (cases x) auto

lemma issues_address_read: "issues is_read (address_read_from (peer_rx os)) (\<lambda>_. True)"
  unfolding address_read_from_def by (intro issues_intros) auto

lemma issues_request_read: "issues is_read (request_read_from (peer_rx os)) (\<lambda>_. True)"
  unfolding request_read_from_def by (intro issues_intros issues_address_read) auto

lemma issues_response_read: "issues is_read (response_read_from (peer_rx os)) (\<lambda>_. True)"
  unfolding response_read_from_def by (intro issues_intros) auto

lemma issues_write_all:
  "P (WriteAll bs) \<Longrightarrow> issues P (write_all (peer_tx os) bs) (\<lambda>_. True)"
  by (simp add: issues_sys)

lemma issues_request_write:
  "P (WriteAll (request_bytes req)) \<Longrightarrow> P Flush \<Longrightarrow>
    issues P (request_write_to (peer_tx os) req) (\<lambda>_. True)"
  by (auto simp: request_write_to_def intro!: issues_intros)

lemma request_write_sends:
  assumes "request_write_to (peer_tx os) req h = (Done u, h')"
  shows "sent_to_peer os h' = sent_to_peer os h @ request_bytes req \<and>
    inbox_view s h' = inbox_view s h \<and> length (req_token req) \<le> 255"
proof -
  from assms have short: "length (req_token req) \<le> 255"
    by (auto simp: request_write_to_def raise_def split: if_splits)
  with assms have "and_then (write_all (peer_tx os) (request_bytes req)) (\<lambda>_. flush (peer_tx os)) h
      = (Done u, h')"
    by (simp add: request_write_to_def)
  from peer_out.write_flush_Done [OF this] short
    writes_read_nothing [OF issues_request_write [of is_write req os] assms, of s]
  show ?thesis by (auto simp: is_write_def)
qed

text \<open>Reading a response consumes it from the stream and nothing else.\<close>

lemma response_read_peer:
  assumes "response_read_from (peer_rx os) h = (r, h')"
  shows "response_read_from stream_rx (inbox_view (os_inbox os) h) = (r, inbox_view (os_inbox os) h')"
    and "sent_to_peer os h' = sent_to_peer os h"
proof -
  show "response_read_from stream_rx (inbox_view (os_inbox os) h) = (r, inbox_view (os_inbox os) h')"
    using reads_asD [OF peer.response_reads_as, of os h] assms by simp
  show "sent_to_peer os h' = sent_to_peer os h"
    by (rule reads_send_nothing [OF issues_response_read assms]) (auto simp: is_read_def)
qed

lemma issues_response_write:
  "P (WriteAll (response_bytes rsp)) \<Longrightarrow> P Flush \<Longrightarrow>
    issues P (response_write_to (peer_tx os) rsp) (\<lambda>_. True)"
  unfolding response_write_to_def
  by (simp, intro issues_intros) auto

text \<open>
  A concrete world for examples: every call succeeds, the resolver answers every name with
  \<open>192.0.2.1\<close>, the clock counts calls, programs print \<open>out\<close>.
\<close>

definition willing_os :: "stream \<Rightarrow> bytes \<Rightarrow> os" where
  "willing_os inbox out = \<lparr>os_inbox = inbox, os_write = (\<lambda>h bs. Done ()), os_unit = (\<lambda>h c. Done ()),
     os_lookup = (\<lambda>h host p. Done [SA4 0xC0000201 p]), os_now = length,
     os_run = (\<lambda>h prog args. Inr \<lparr>out_success = True, out_status = [], out_stdout = out,
       out_stderr = []\<rparr>),
     os_handle = (\<lambda>h c. Done 0), os_flag = (\<lambda>h c. True)\<rparr>"

definition example_request :: request where
  "example_request = \<lparr>req_cmd = ConnectTcp, req_token = lit ''key'',
     req_target = Domain (lit ''a'') 443\<rparr>"

end
