(* ===== verification/Access.thy ===== *)
theory Access
  imports Net
begin

text \<open>
  Access control as both servers practise it: a shared token compared without an early exit, and an
  allow list under a deny list. The two crates have their own copies of this code; the locales
  \<open>token_check\<close> and \<open>access_policy\<close> are the contracts, and each crate's functions are interpreted
  in the theory of its configuration.
\<close>

subsection \<open>Comparing tokens\<close>

text \<open>
  What the comparison loop establishes: the lengths agree in their low byte, and at every index of
  the longer string the bytes agree, a missing byte reading as 0.
\<close>

definition same_padded :: "bytes \<Rightarrow> bytes \<Rightarrow> bool" where
  "same_padded a b \<longleftrightarrow>
     length a mod 256 = length b mod 256 \<and>
     (\<forall>i < max (length a) (length b). safe_get a i = safe_get b i)"

lemma same_padded_short:
  assumes "length a \<le> 255" and "length b \<le> 255"
  shows "same_padded a b \<longleftrightarrow> a = b"
proof
  assume sp: "same_padded a b"
  with assms have len: "length a = length b" by (simp add: same_padded_def)
  have "a ! i = b ! i" if "i < length a" for i
    using sp len that by (auto simp: same_padded_def safe_get_def)
  with len show "a = b" by (simp add: nth_equalityI)
qed (simp add: same_padded_def)

lemma ucast_xor_u8: "(ucast (x XOR y :: u64) :: u8) = ucast x XOR ucast y"
  by (rule bit_word_eqI) (auto simp: bit_simps)

lemma ucast_of_nat_u8: "(ucast (of_nat n :: u64) :: u8) = of_nat n"
  by (rule bit_word_eqI) (auto simp: bit_simps)

lemma xor_eq_0_u8: "(x :: u8) XOR y = 0 \<longleftrightarrow> x = y"
  by (metis xor.assoc xor.left_neutral xor_self_eq)

lemma length_diff_0:
  "(ucast ((of_nat m :: u64) XOR of_nat n) :: u8) = 0 \<longleftrightarrow> m mod 256 = n mod 256"
  by (simp add: ucast_xor_u8 ucast_of_nat_u8 xor_eq_0_u8 word_of_nat_eq_iff take_bit_eq_mod)

text \<open>A fold that ors differences together is 0 only if each of them is.\<close>

lemma fold_or_0:
  "fold (\<lambda>i d. d OR f i) is (d :: u8) = 0 \<longleftrightarrow> d = 0 \<and> (\<forall>i \<in> set is. f i = 0)"
  by (induction "is" arbitrary: d) (auto simp: or_eq_0_iff)

locale token_check =
  fixes matches :: "bytes \<Rightarrow> bytes \<Rightarrow> bool"
  assumes matches_law: "matches expected got \<longleftrightarrow> same_padded expected got"
begin

lemma matches_exact:
  "length expected \<le> 255 \<Longrightarrow> length got \<le> 255 \<Longrightarrow> matches expected got \<longleftrightarrow> expected = got"
  by (simp add: matches_law same_padded_short)

lemma matches_refl: "matches t t"
  by (simp add: matches_law same_padded_def)

lemma matches_sym: "matches a b \<longleftrightarrow> matches b a"
  by (auto simp: matches_law same_padded_def max.commute)

text \<open>The low byte of the length is all that is compared: 256 trailing NULs go unnoticed.\<close>

lemma matches_nul_padded: "matches t (t @ replicate 256 0)"
  by (auto simp: matches_law same_padded_def safe_get_def nth_append)

end

subsection \<open>Allow and deny lists\<close>

locale access_policy =
  fixes permits :: "'cfg \<Rightarrow> ip_addr \<Rightarrow> bool"
    and allow :: "'cfg \<Rightarrow> 'net list"
    and deny :: "'cfg \<Rightarrow> 'net list"
    and N :: "'net ipnet"
  assumes permits_law: "permits cfg a \<longleftrightarrow>
     \<not> any_contains N (deny cfg) a \<and> (allow cfg = [] \<or> any_contains N (allow cfg) a)"
begin

lemma denied: "net \<in> set (deny cfg) \<Longrightarrow> net_contains N net a \<Longrightarrow> \<not> permits cfg a"
  by (auto simp: permits_law)

lemma permits_monotone:
  assumes "set (deny cfg) \<subseteq> set (deny cfg')" and "set (allow cfg') \<subseteq> set (allow cfg)"
    and "allow cfg' \<noteq> []" and "permits cfg' a"
  shows "permits cfg a"
  using assms by (auto simp: permits_law)

text \<open>
  The lists are matched against the address as it is: an IPv4 network never matches the
  IPv4-mapped IPv6 form of an address it contains.
\<close>

lemma mapped_permitted:
  assumes "family_strict N" and "\<forall>net \<in> set (deny cfg). net_is_v4 N net" and "allow cfg = []"
  shows "permits cfg (V6 a)"
proof -
  have "\<not> net_contains N net (V6 a)" if "net \<in> set (deny cfg)" for net
    using assms(1,2) that by (metis family_strict_def ip_is_ipv4.simps(2))
  then show ?thesis using assms(3) by (auto simp: permits_law)
qed

end

text \<open>
  Choosing what to dial: the candidates the policy admits, in the resolver's order.
\<close>

definition admitted :: "(ip_addr \<Rightarrow> bool) \<Rightarrow> socket_addr list \<Rightarrow> socket_addr list" where
  "admitted p candidates = filter (\<lambda>sa. p (ip sa)) candidates"

lemma admitted_permits: "sa \<in> set (admitted p candidates) \<Longrightarrow> p (ip sa)"
  by (simp add: admitted_def)

lemma admitted_candidate: "sa \<in> set (admitted p candidates) \<Longrightarrow> sa \<in> set candidates"
  by (simp add: admitted_def)

lemma filter_eqD: "filter p xs = ys \<Longrightarrow> \<forall>y \<in> set ys. p y \<and> y \<in> set xs"
  by auto

end
