(* ===== verification/Triples.thy ===== *)
theory Triples
  imports World Access
begin

text \<open>
  A Hoare logic over traces, for the properties about the order of calls. In \<open>triple I P m Q\<close> the
  history before satisfies \<open>I\<close>; every call that \<open>m\<close> issues satisfies \<open>P\<close> at the history it is
  issued in; and where \<open>m\<close> returns a value, \<open>Q\<close> holds of the value and the history after.
\<close>

definition triple ::
    "('c list \<Rightarrow> bool) \<Rightarrow> ('c list \<Rightarrow> 'c \<Rightarrow> bool) \<Rightarrow> ('c list, 'e, 'a) act \<Rightarrow>
     ('a \<Rightarrow> 'c list \<Rightarrow> bool) \<Rightarrow> bool" where
  "triple I P m Q \<longleftrightarrow> (\<forall>h. I h \<longrightarrow>
     (\<exists>cs. snd (m h) = h @ cs \<and> (\<forall>i < length cs. P (h @ take i cs) (cs ! i)) \<and>
       (\<forall>a. fst (m h) = Done a \<longrightarrow> Q a (h @ cs))))"

named_theorems triple_intros "rules of the trace Hoare logic"

lemma tripleD:
  assumes "triple I P m Q" and "I h" and "m h = (r, h')"
  obtains cs where "h' = h @ cs" "\<forall>i < length cs. P (h @ take i cs) (cs ! i)"
    "\<forall>a. r = Done a \<longrightarrow> Q a h'"
proof -
  from assms(1,2) obtain cs where "snd (m h) = h @ cs"
      "\<forall>i < length cs. P (h @ take i cs) (cs ! i)" "\<forall>a. fst (m h) = Done a \<longrightarrow> Q a (h @ cs)"
    unfolding triple_def by blast
  with assms(3) that show thesis by simp
qed

lemma guarded_append:
  assumes "\<forall>i < length cs. P (h @ take i cs) (cs ! i)"
    and "\<forall>i < length ds. P ((h @ cs) @ take i ds) (ds ! i)"
  shows "\<forall>i < length (cs @ ds). P (h @ take i (cs @ ds)) ((cs @ ds) ! i)"
proof (intro allI impI)
  fix i
  assume i: "i < length (cs @ ds)"
  show "P (h @ take i (cs @ ds)) ((cs @ ds) ! i)"
  proof (cases "i < length cs")
    case True
    with assms(1) show ?thesis by (simp add: nth_append)
  next
    case False
    with i assms(2) [rule_format, of "i - length cs"] show ?thesis by (simp add: nth_append)
  qed
qed

lemma triple_ret [triple_intros]: "(\<And>h. I h \<Longrightarrow> Q a h) \<Longrightarrow> triple I P (ret a) Q"
  by (simp add: triple_def act_simps)

lemma triple_raise [triple_intros]: "triple I P (raise e) Q"
  by (simp add: triple_def act_simps)

lemma triple_sys:
  assumes "\<And>h. I h \<Longrightarrow> P h c" and "\<And>h a. I h \<Longrightarrow> reply h = Done a \<Longrightarrow> Q a (h @ [c])"
  shows "triple I P (sys c reply) Q"
  using assms by (auto simp: triple_def sys_def)

lemma triple_and_then:
  assumes m: "triple I P m R" and f: "\<And>a. triple (R a) P (f a) Q"
  shows "triple I P (and_then m f) Q"
  unfolding triple_def
proof (intro allI impI)
  fix h
  assume "I h"
  obtain r h' where mh: "m h = (r, h')" by (cases "m h")
  from m \<open>I h\<close> mh obtain cs where cs: "h' = h @ cs" "\<forall>i < length cs. P (h @ take i cs) (cs ! i)"
      "\<forall>a. r = Done a \<longrightarrow> R a h'"
    by (rule tripleD)
  show "\<exists>cs. snd (and_then m f h) = h @ cs \<and> (\<forall>i < length cs. P (h @ take i cs) (cs ! i)) \<and>
      (\<forall>a. fst (and_then m f h) = Done a \<longrightarrow> Q a (h @ cs))"
  proof (cases r)
    case (Done a)
    with cs(3) have "R a h'" by simp
    obtain r2 h2 where fh: "f a h' = (r2, h2)" by (cases "f a h'")
    from f \<open>R a h'\<close> fh obtain ds where ds: "h2 = h' @ ds"
        "\<forall>i < length ds. P (h' @ take i ds) (ds ! i)" "\<forall>b. r2 = Done b \<longrightarrow> Q b h2"
      by (rule tripleD)
    from guarded_append [OF cs(2) ds(2) [unfolded cs(1)]] Done mh fh cs(1) ds(1,3) show ?thesis
      by (intro exI [of _ "cs @ ds"]) (auto simp: act_simps)
  qed (use mh cs in \<open>auto simp: act_simps\<close>)
qed

lemma triple_conseq:
  assumes "triple I P m Q" and "\<And>h. I' h \<Longrightarrow> I h" and "\<And>a h. Q a h \<Longrightarrow> Q' a h"
  shows "triple I' P m Q'"
  using assms unfolding triple_def by meson

lemma triple_attempt:
  assumes "triple I P m R" and "\<And>e h. Q (Inl e) h" and "\<And>a h. R a h \<Longrightarrow> Q (Inr a) h"
  shows "triple I P (attempt m) Q"
  unfolding triple_def
proof (intro allI impI)
  fix h
  assume "I h"
  obtain r h' where mh: "m h = (r, h')" by (cases "m h")
  from assms(1) \<open>I h\<close> mh obtain cs where "h' = h @ cs"
      "\<forall>i < length cs. P (h @ take i cs) (cs ! i)" "\<forall>a. r = Done a \<longrightarrow> R a h'"
    by (rule tripleD)
  with mh assms(2,3) show "\<exists>cs. snd (attempt m h) = h @ cs \<and>
      (\<forall>i < length cs. P (h @ take i cs) (cs ! i)) \<and>
      (\<forall>a. fst (attempt m h) = Done a \<longrightarrow> Q a (h @ cs))"
    by (intro exI [of _ cs]) (auto simp: attempt_def split: outcome.splits)
qed

lemma triple_timeout:
  assumes "triple I P m R" and "\<And>h. Q None h" and "\<And>e h. Q (Some (Inl e)) h"
    and "\<And>a h. R a h \<Longrightarrow> Q (Some (Inr a)) h"
  shows "triple I P (timeout m) Q"
  unfolding triple_def
proof (intro allI impI)
  fix h
  assume "I h"
  obtain r h' where mh: "m h = (r, h')" by (cases "m h")
  from assms(1) \<open>I h\<close> mh obtain cs where "h' = h @ cs"
      "\<forall>i < length cs. P (h @ take i cs) (cs ! i)" "\<forall>a. r = Done a \<longrightarrow> R a h'"
    by (rule tripleD)
  with mh assms(2-) show "\<exists>cs. snd (timeout m h) = h @ cs \<and>
      (\<forall>i < length cs. P (h @ take i cs) (cs ! i)) \<and>
      (\<forall>a. fst (timeout m h) = Done a \<longrightarrow> Q a (h @ cs))"
    by (intro exI [of _ cs]) (auto simp: timeout_def split: outcome.splits)
qed

text \<open>An action all of whose calls are harmless keeps what extending the history keeps.\<close>

lemma triple_of_issues:
  assumes "issues P' m Q'" and "\<And>h c. P' c \<Longrightarrow> P h c"
    and "\<And>h cs a. I h \<Longrightarrow> Q' a \<Longrightarrow> Q a (h @ cs)"
  shows "triple I P m Q"
  unfolding triple_def
proof (intro allI impI)
  fix h
  assume "I h"
  obtain r h' where mh: "m h = (r, h')" by (cases "m h")
  from assms(1) mh obtain cs where "h' = h @ cs" "\<forall>c \<in> set cs. P' c" "\<forall>a. r = Done a \<longrightarrow> Q' a"
    by (rule issuesD)
  with mh assms(2,3) \<open>I h\<close> show "\<exists>cs. snd (m h) = h @ cs \<and>
      (\<forall>i < length cs. P (h @ take i cs) (cs ! i)) \<and> (\<forall>a. fst (m h) = Done a \<longrightarrow> Q a (h @ cs))"
    by (intro exI [of _ cs]) auto
qed

text \<open>A precondition that does not speak of the history is a hypothesis.\<close>

lemma triple_pure: "(K \<Longrightarrow> triple (\<lambda>_. True) P m Q) \<Longrightarrow> triple (\<lambda>_. K) P m Q"
  by (cases K) (simp_all add: triple_def)

subsection \<open>Dialling and answering\<close>

text \<open>The calls that open a connection to a target, and the target.\<close>

fun dial_target :: "call \<Rightarrow> socket_addr option" where
  "dial_target (ConnectSocket a) = Some a"
| "dial_target (UdpConnect a) = Some a"
| "dial_target _ = None"

definition dials_only :: "(socket_addr \<Rightarrow> bool) \<Rightarrow> call \<Rightarrow> bool" where
  "dials_only p c \<longleftrightarrow> (\<forall>a. dial_target c = Some a \<longrightarrow> p a)"

lemma dials_only_None [simp]: "dial_target c = None \<Longrightarrow> dials_only p c"
  by (simp add: dials_only_def)

lemma dials_only_Connect [simp]:
  "dials_only p (ConnectSocket a) \<longleftrightarrow> p a" "dials_only p (UdpConnect a) \<longleftrightarrow> p a"
  by (auto simp: dials_only_def)

text \<open>The calls that concern the stream to the peer only.\<close>

fun peer_call :: "call \<Rightarrow> bool" where
  "peer_call (Timer d) = True"
| "peer_call (ReadExact n) = True"
| "peer_call (WriteAll bs) = True"
| "peer_call Flush = True"
| "peer_call Shutdown = True"
| "peer_call (SetNodelay b) = True"
| "peer_call _ = False"

lemma peer_call_no_dial: "peer_call c \<Longrightarrow> dial_target c = None"
  by (cases c) auto

text \<open>A dial that the operating system reported as successful.\<close>

definition dialled :: "os \<Rightarrow> (socket_addr \<Rightarrow> bool) \<Rightarrow> call list \<Rightarrow> bool" where
  "dialled os p h \<longleftrightarrow> (\<exists>i < length h. \<exists>a. dial_target (h ! i) = Some a \<and> p a \<and>
     os_unit os (take i h) (h ! i) = Done ())"

lemma dialled_append: "dialled os p h \<Longrightarrow> dialled os p (h @ cs)"
  unfolding dialled_def
  by (elim exE conjE, rule_tac x = i in exI) (auto simp: nth_append)

text \<open>The dial is in the part of the history that dials.\<close>

lemma dialled_in:
  assumes "dialled os p (h @ cs)" and "\<forall>c \<in> set h. dial_target c = None"
  shows "\<exists>c a. c \<in> set cs \<and> dial_target c = Some a"
proof -
  from assms(1) obtain i a where i: "i < length (h @ cs)" "dial_target ((h @ cs) ! i) = Some a"
    unfolding dialled_def by blast
  moreover from i(2) assms(2) have "\<not> i < length h" by (auto simp: nth_append)
  ultimately show ?thesis
    by (intro exI [of _ "(h @ cs) ! i"]) (auto simp: nth_append)
qed

lemma dialled_last:
  assumes "dial_target c = Some a" "p a" "os_unit os h c = Done ()"
  shows "dialled os p (h @ [c])"
  unfolding dialled_def using assms by (intro exI [of _ "length h"]) simp

text \<open>
  The rule both servers follow for their answer: a success response goes out only after a
  successful dial to an admissible address.
\<close>

definition ok_after_dial :: "os \<Rightarrow> (socket_addr \<Rightarrow> bool) \<Rightarrow> call list \<Rightarrow> call \<Rightarrow> bool" where
  "ok_after_dial os p h c \<longleftrightarrow> (c = WriteAll (response_bytes response_ok) \<longrightarrow> dialled os p h)"

lemma ok_after_dial_other: "(\<And>bs. c \<noteq> WriteAll bs) \<Longrightarrow> ok_after_dial os p h c"
  by (simp add: ok_after_dial_def)

lemma response_bytes_err_not_ok:
  "s \<noteq> Ok \<Longrightarrow> response_bytes (response_err s m) \<noteq> response_bytes response_ok"
  by (cases s) (auto simp: response_bytes_def response_err_def response_ok_def Let_def)

lemma ok_after_dial_err:
  "s \<noteq> Ok \<Longrightarrow> ok_after_dial os p h (WriteAll (response_bytes (response_err s m)))"
  using response_bytes_err_not_ok by (simp add: ok_after_dial_def)

text \<open>Steps that write nothing keep the rule, whatever they return.\<close>

fun no_write :: "call \<Rightarrow> bool" where
  "no_write (WriteAll bs) = False"
| "no_write _ = True"

lemma ok_after_dial_no_write: "no_write c \<Longrightarrow> ok_after_dial os p h c"
  by (auto simp: ok_after_dial_def)

lemma triple_no_write:
  "issues no_write m (\<lambda>_. True) \<Longrightarrow> (\<And>h cs. I h \<Longrightarrow> J (h @ cs)) \<Longrightarrow>
    triple I (ok_after_dial os p) m (\<lambda>_. J)"
  by (erule triple_of_issues) (auto simp: ok_after_dial_no_write)

lemma triple_skip:
  "issues no_write m (\<lambda>_. True) \<Longrightarrow> triple I (ok_after_dial os p) m (\<lambda>_ _. True)"
  by (rule triple_no_write) auto

lemma triple_keep_dialled:
  "issues no_write m (\<lambda>_. True) \<Longrightarrow>
    triple (dialled os p) (ok_after_dial os p) m (\<lambda>_. dialled os p)"
  by (rule triple_no_write) (auto intro: dialled_append)

lemma triple_dial:
  assumes "dial_target c = Some a" and "p a"
  shows "triple I (ok_after_dial os p) (do_call os c) (\<lambda>_. dialled os p)"
  unfolding do_call_def
  by (rule triple_sys) (use assms in \<open>auto intro: dialled_last simp: ok_after_dial_def\<close>)

lemma triple_error_response:
  assumes "s \<noteq> Ok"
  shows "triple I (ok_after_dial os p) (response_write_to (peer_tx os) (response_err s m)) (\<lambda>_ _. True)"
proof (rule triple_of_issues)
  show "issues (\<lambda>c. c = WriteAll (response_bytes (response_err s m)) \<or> c = Flush)
      (response_write_to (peer_tx os) (response_err s m)) (\<lambda>_. True)"
    by (rule issues_response_write) auto
qed (use ok_after_dial_err [OF assms] in \<open>auto simp: ok_after_dial_def\<close>)

lemma triple_ok_response:
  "triple (dialled os p) (ok_after_dial os p) (response_write_to (peer_tx os) response_ok)
    (\<lambda>_. dialled os p)"
  unfolding response_write_to_def peer_tx_sel
  by (rule triple_and_then [where R = "\<lambda>_. dialled os p"], rule triple_sys)
    (auto intro!: dialled_append triple_keep_dialled issues_do_call simp: ok_after_dial_def)

text \<open>
  The addresses a target stands for: itself, or what the resolver answers to its name. A server may
  dial those its policy permits.
\<close>

definition names :: "os \<Rightarrow> address \<Rightarrow> socket_addr \<Rightarrow> bool" where
  "names os target a \<longleftrightarrow> (case target of
      Ip sa \<Rightarrow> a = sa
    | Domain host p \<Rightarrow> \<exists>h answer. os_lookup os h host p = Done answer \<and> a \<in> set answer)"

definition may_dial :: "os \<Rightarrow> (ip_addr \<Rightarrow> bool) \<Rightarrow> address \<Rightarrow> socket_addr \<Rightarrow> bool" where
  "may_dial os permitted target a \<longleftrightarrow> permitted (ip a) \<and> names os target a"

subsection \<open>Dialling a list of candidates\<close>

text \<open>Everything \<open>dial_tcp addr\<close> does is about \<open>addr\<close>.\<close>

definition dial_calls :: "socket_addr \<Rightarrow> call \<Rightarrow> bool" where
  "dial_calls addr c \<longleftrightarrow> c = NewSocketV4 \<or> c = NewSocketV6 \<or> (\<exists>b. c = BindSocket b) \<or>
     c = ConnectSocket addr"

lemma dials_only_dial_calls: "dial_calls addr c \<Longrightarrow> p addr \<Longrightarrow> dials_only p c"
  by (auto simp: dial_calls_def)

text \<open>The error a failed dial is reported with.\<close>

definition dial_text :: "(socket_addr \<Rightarrow> (io_error, unit) outcome) \<Rightarrow> socket_addr \<Rightarrow> bytes" where
  "dial_text out a = (case out a of
      Failed err \<Rightarrow> err_text err
    | _ \<Rightarrow> lit ''connect to '' @ show_socket_addr a @ lit '' timed out'')"

text \<open>
  Both servers try the candidates in turn under a deadline each, keep the text of the last error,
  and stop at the first connection.
\<close>

locale dial_candidates =
  fixes dial :: "os \<Rightarrow> 'cfg \<Rightarrow> socket_addr \<Rightarrow> (io_error, unit) io"
    and deadline :: "'cfg \<Rightarrow> nat"
    and loop :: "os \<Rightarrow> 'cfg \<Rightarrow> socket_addr list \<Rightarrow> bytes option \<Rightarrow>
      (io_error, bool \<times> bytes option) io"
  assumes dial_issues: "issues (dial_calls addr) (dial os cfg addr) (\<lambda>_. True)"
    and dial_connects: "p addr \<Longrightarrow>
      triple (\<lambda>_. True) (ok_after_dial os p) (dial os cfg addr) (\<lambda>_. dialled os p)"
    and loop_Nil: "loop os cfg [] l = ret (False, l)"
    and loop_Cons: "loop os cfg (addr # addrs) l =
      and_then (with_timeout (deadline cfg) (dial os cfg addr)) (\<lambda>r.
        case r of
          Some (Inr _) \<Rightarrow> ret (True, l)
        | Some (Inl err) \<Rightarrow> loop os cfg addrs (Some (err_text err))
        | None \<Rightarrow> loop os cfg addrs
            (Some (lit ''connect to '' @ show_socket_addr addr @ lit '' timed out'')))"
begin

lemma loop_dials:
  "\<forall>sa \<in> set addrs. p sa \<Longrightarrow> issues (dials_only p) (loop os cfg addrs l) (\<lambda>_. True)"
proof (induction addrs arbitrary: l)
  case Nil
  then show ?case by (simp add: loop_Nil issues_ret)
next
  case (Cons addr addrs)
  then have "issues (dials_only p) (dial os cfg addr) (\<lambda>_. True)"
    by (auto intro: issues_weaken [OF dial_issues] dials_only_dial_calls)
  with Cons show ?case
    by (auto intro!: issues_intros simp: loop_Cons split: sum.splits)
qed

lemma loop_no_write: "issues no_write (loop os cfg addrs l) (\<lambda>_. True)"
proof (induction addrs arbitrary: l)
  case Nil
  then show ?case by (simp add: loop_Nil issues_ret)
next
  case (Cons addr addrs)
  have "issues no_write (dial os cfg addr) (\<lambda>_. True)"
    by (rule issues_weaken [OF dial_issues]) (auto simp: dial_calls_def)
  with Cons show ?case
    by (auto intro!: issues_intros simp: loop_Cons split: sum.splits)
qed

text \<open>The loop reports a connection only after a successful dial.\<close>

lemma loop_connected:
  "\<forall>sa \<in> set addrs. p sa \<Longrightarrow>
    triple (\<lambda>_. True) (ok_after_dial os p) (loop os cfg addrs l)
      (\<lambda>(upstream, _) h. upstream \<longrightarrow> dialled os p h)"
proof (induction addrs arbitrary: l)
  case Nil
  then show ?case by (simp add: loop_Nil triple_ret)
next
  case (Cons addr addrs)
  have dial: "triple (\<lambda>_. True) (ok_after_dial os p) (with_timeout (deadline cfg) (dial os cfg addr))
      (\<lambda>r h. (\<exists>u. r = Some (Inr u)) \<longrightarrow> dialled os p h)"
    unfolding with_timeout_def
    by (rule triple_and_then [where R = "\<lambda>_ _. True"], rule triple_sys)
      (use Cons.prems dial_connects in \<open>auto intro!: triple_timeout simp: ok_after_dial_def\<close>)
  show ?case
    unfolding loop_Cons
  proof (rule triple_and_then [OF dial])
    fix r :: "(io_error + unit) option"
    have IH: "triple (\<lambda>h. (\<exists>u. r = Some (Inr u)) \<longrightarrow> dialled os p h) (ok_after_dial os p)
        (loop os cfg addrs l') (\<lambda>(upstream, _) h. upstream \<longrightarrow> dialled os p h)" for l'
      by (rule triple_conseq [OF Cons.IH]) (use Cons.prems in auto)
    show "triple (\<lambda>h. (\<exists>u. r = Some (Inr u)) \<longrightarrow> dialled os p h) (ok_after_dial os p)
        (case r of
          Some (Inr _) \<Rightarrow> ret (True, l)
        | Some (Inl err) \<Rightarrow> loop os cfg addrs (Some (err_text err))
        | None \<Rightarrow> loop os cfg addrs
            (Some (lit ''connect to '' @ show_socket_addr addr @ lit '' timed out'')))
        (\<lambda>(upstream, _) h. upstream \<longrightarrow> dialled os p h)"
      using IH by (auto intro: triple_ret split: option.splits sum.splits)
  qed
qed

text \<open>
  In a network where the outcome of a dial depends on the address alone, the loop connects to the
  first reachable candidate: it succeeds exactly if there is one, no later candidate is touched,
  and otherwise the reported error is that of the last candidate.
\<close>

lemma loop_first_reachable:
  assumes dial: "\<And>a h. fst (dial os cfg a h) = out a" and out: "\<And>a. out a \<noteq> Panicked"
  shows "fst (loop os cfg addrs l h) = Done
    (if \<exists>a \<in> set addrs. out a = Done ()
     then (True, case takeWhile (\<lambda>a. out a \<noteq> Done ()) addrs of
         [] \<Rightarrow> l | as \<Rightarrow> Some (dial_text out (last as)))
     else (False, if addrs = [] then l else Some (dial_text out (last addrs))))"
proof (induction addrs arbitrary: l h)
  case Nil
  then show ?case by (simp add: loop_Nil act_simps)
next
  case (Cons addr addrs)
  obtain r h' where run: "dial os cfg addr (h @ [Timer (deadline cfg)]) = (r, h')"
    by (cases "dial os cfg addr (h @ [Timer (deadline cfg)])")
  with dial [of addr "h @ [Timer (deadline cfg)]"] have r: "r = out addr" by simp
  show ?case
  proof (cases "out addr = Done ()")
    case True
    with run r show ?thesis
      by (simp add: loop_Cons with_timeout_def sys_def timeout_def act_simps and_then_def)
  next
    case False
    with run r out [of addr] have "fst (loop os cfg (addr # addrs) l h) =
        fst (loop os cfg addrs (Some (dial_text out addr)) h')"
      by (cases "out addr")
        (simp_all add: loop_Cons with_timeout_def sys_def timeout_def and_then_def dial_text_def)
    with False show ?thesis
      by (auto simp: Cons.IH split: list.splits)
  qed
qed

end

subsection \<open>The handshake of a session\<close>

text \<open>
  Both servers read the request under a deadline and then serve it; the error of a deadline that
  passed is theirs.
\<close>

definition handshake_then ::
    "os \<Rightarrow> nat \<Rightarrow> io_error \<Rightarrow> (request \<Rightarrow> (io_error, unit) io) \<Rightarrow> (io_error, unit) io" where
  "handshake_then os d elapsed serve =
     and_then (with_timeout d (request_read_from (peer_rx os))) (\<lambda>r. case r of
       None \<Rightarrow> raise elapsed
     | Some (Inl err) \<Rightarrow> raise err
     | Some (Inr req) \<Rightarrow> serve req)"

fun read_or_timer :: "call \<Rightarrow> bool" where
  "read_or_timer (Timer d) = True"
| "read_or_timer (ReadExact n) = True"
| "read_or_timer _ = False"

lemma read_or_timer_peer_call: "read_or_timer c \<Longrightarrow> peer_call c"
  by (cases c) auto

lemma read_or_timer_harmless:
  "read_or_timer c \<Longrightarrow> dial_target c = None \<and> (\<forall>bs. c \<noteq> WriteAll bs)"
  by (cases c) auto

lemma handshake_cases:
  assumes "handshake_then os d elapsed serve h = (r, h')"
  obtains (failed) cs where "h' = h @ cs" "\<forall>c \<in> set cs. read_or_timer c" "\<forall>u. r \<noteq> Done u"
  | (served) req cs where "good_request req"
      "inbox_view (os_inbox os) h = stream_of (request_bytes req @ s_bytes (inbox_view (os_inbox os) (h @ cs)))
         (s_end (os_inbox os))"
      "\<forall>c \<in> set cs. read_or_timer c" "serve req (h @ cs) = (r, h')"
proof -
  let ?m = "with_timeout d (request_read_from (peer_rx os)) :: (io_error, _) io"
  obtain a h1 where m: "?m h = (a, h1)" by (cases "?m h")
  have "issues read_or_timer ?m (\<lambda>_. True)"
    by (intro issues_intros issues_weaken [OF issues_request_read]) (auto simp: is_read_def)
  from this m obtain cs where cs: "h1 = h @ cs" "\<forall>c \<in> set cs. read_or_timer c" by (rule issuesD)
  show thesis
  proof (cases "\<exists>req. a = Done (Some (Inr req))")
    case True
    then obtain req where a: "a = Done (Some (Inr req))" by blast
    from m [unfolded a] have "request_read_from (peer_rx os) (h @ [Timer d]) = (Done req, h1)"
      by (rule with_timeout_SomeD)
    with reads_asD [OF peer.request_reads_as, of os "h @ [Timer d]"]
    have "request_read_from stream_rx (inbox_view (os_inbox os) h) = (Done req, inbox_view (os_inbox os) h1)"
      by simp
    moreover have "s_end (inbox_view s h) = s_end s" for s h
      by (induction h rule: rev_induct) (auto split: call.split)
    ultimately have "good_request req" "inbox_view (os_inbox os) h
        = stream_of (request_bytes req @ s_bytes (inbox_view (os_inbox os) h1)) (s_end (os_inbox os))"
      by (simp_all add: request_codec.dec_iff)
    with served cs m a assms show thesis
      by (simp add: handshake_then_def and_then_def)
  next
    case False
    with m assms have "h' = h1 \<and> (\<forall>u. r \<noteq> Done u)"
      by (auto simp: handshake_then_def and_then_def raise_def
          split: outcome.splits option.splits sum.splits)
    with failed cs show thesis by blast
  qed
qed

text \<open>A request that arrives is served as it was sent, and what follows it is left in the stream.\<close>

lemma handshake_serves:
  assumes "good_request req" and "inbox_view (os_inbox os) h = stream_of (request_bytes req @ rest) e"
  obtains cs where "\<forall>c \<in> set cs. read_or_timer c"
    "inbox_view (os_inbox os) (h @ cs) = stream_of rest e"
    "handshake_then os d elapsed serve h = serve req (h @ cs)"
proof -
  let ?m = "request_read_from (peer_rx os)"
  obtain a h1 where m: "?m (h @ [Timer d]) = (a, h1)" by (cases "?m (h @ [Timer d])")
  with reads_asD [OF peer.request_reads_as, of os "h @ [Timer d]"] assms
  have a: "a = Done req" and view: "inbox_view (os_inbox os) h1 = stream_of rest e"
    by (simp_all add: request_dec_enc)
  from issues_request_read m obtain cs where cs: "h1 = (h @ [Timer d]) @ cs" "\<forall>c \<in> set cs. is_read c"
    by (rule issuesD)
  have "handshake_then os d elapsed serve h = serve req h1"
    using m a by (simp add: handshake_then_def with_timeout_def timeout_def and_then_def sys_def)
  moreover have "\<forall>c \<in> set (Timer d # cs). read_or_timer c" using cs(2) by (auto simp: is_read_def)
  ultimately show thesis using that [of "Timer d # cs"] cs(1) view by simp
qed

subsection \<open>The answer of a gateway, abstractly\<close>

text \<open>
  A world whose answers do not depend on the history: \<open>net\<close> answers the calls, \<open>dns\<close> the lookups,
  the peer takes every write; nothing panics, and only a connection attempt may stay unanswered.
\<close>

definition static_world ::
    "os \<Rightarrow> (call \<Rightarrow> (io_error, unit) outcome) \<Rightarrow>
     (bytes \<Rightarrow> u16 \<Rightarrow> (io_error, socket_addr list) outcome) \<Rightarrow> bool" where
  "static_world os net dns \<longleftrightarrow>
     (\<forall>h c. os_unit os h c = net c) \<and> (\<forall>h host p. os_lookup os h host p = dns host p) \<and>
     (\<forall>h bs. os_write os h bs = Done ()) \<and>
     (\<forall>c. net c \<noteq> Panicked \<and> (net c = Pending \<longrightarrow> (\<exists>a. c = ConnectSocket a)))"

definition resolution ::
    "(bytes \<Rightarrow> u16 \<Rightarrow> (io_error, socket_addr list) outcome) \<Rightarrow> address \<Rightarrow>
     (io_error, socket_addr list) outcome" where
  "resolution dns target = (case target of Ip sa \<Rightarrow> Done [sa] | Domain host p \<Rightarrow> dns host p)"

text \<open>Connecting from a local address of the same family, and binding a datagram socket to one.\<close>

definition tcp_result ::
    "(call \<Rightarrow> (io_error, unit) outcome) \<Rightarrow> ip_addr option \<Rightarrow> socket_addr \<Rightarrow>
     (io_error, unit) outcome" where
  "tcp_result net local_ip a =
     (case net (if sa_is_ipv4 a then NewSocketV4 else NewSocketV6) of
        Done _ \<Rightarrow>
          (case (case local_ip of
              Some b \<Rightarrow> if ip_is_ipv4 b = sa_is_ipv4 a then net (BindSocket (socket_addr_new b 0))
                else Done ()
            | None \<Rightarrow> Done ()) of
             Done _ \<Rightarrow> net (ConnectSocket a)
           | failure \<Rightarrow> failure)
      | failure \<Rightarrow> failure)"

definition udp_local_addr :: "ip_addr option \<Rightarrow> socket_addr \<Rightarrow> socket_addr" where
  "udp_local_addr local_ip a =
     (case local_ip of
        Some b \<Rightarrow> if ip_is_ipv4 b = sa_is_ipv4 a then socket_addr_new b 0
          else if sa_is_ipv4 a then SA4 0 0 else SA6 0 0 0 0
      | None \<Rightarrow> if sa_is_ipv4 a then SA4 0 0 else SA6 0 0 0 0)"

text \<open>
  The response to a request, as a function of the configuration and the world: \<open>open_verdict\<close> for
  the admitted candidates, \<open>verdict\<close> for a request, where \<open>denied\<close> is the text for a wrong token.
\<close>

definition open_verdict ::
    "ip_addr option \<Rightarrow> (call \<Rightarrow> (io_error, unit) outcome) \<Rightarrow> cmd \<Rightarrow> socket_addr list \<Rightarrow> response" where
  "open_verdict local_ip net c as =
     (case as of
        [] \<Rightarrow> response_err Forbidden (lit ''destination not allowed'')
      | first # _ \<Rightarrow>
          (case c of
             ConnectTcp \<Rightarrow>
               if \<exists>a \<in> set as. tcp_result net local_ip a = Done () then response_ok
               else response_err Unreachable (dial_text (tcp_result net local_ip) (last as))
           | BindUdp \<Rightarrow>
               (case net (UdpBind (udp_local_addr local_ip first)) of
                  Failed err \<Rightarrow> response_err ServerError (lit ''bind failed: '' @ err_text err)
                | _ \<Rightarrow> (case net (UdpConnect first) of
                    Failed err \<Rightarrow> response_err Unreachable (lit ''connect failed: '' @ err_text err)
                  | _ \<Rightarrow> response_ok))))"

definition verdict ::
    "bytes \<Rightarrow> (bytes \<Rightarrow> bool) \<Rightarrow> (ip_addr \<Rightarrow> bool) \<Rightarrow> ip_addr option \<Rightarrow>
     (call \<Rightarrow> (io_error, unit) outcome) \<Rightarrow>
     (bytes \<Rightarrow> u16 \<Rightarrow> (io_error, socket_addr list) outcome) \<Rightarrow> request \<Rightarrow> response" where
  "verdict denied token_ok permitted local_ip net dns req =
     (if \<not> token_ok (req_token req) then response_err AuthFailed denied
      else case resolution dns (req_target req) of
        Failed err \<Rightarrow> response_err Unreachable (lit ''resolve failed: '' @ err_text err)
      | Done candidates \<Rightarrow>
          if candidates = [] then response_err Unreachable (lit ''name resolved to nothing'')
          else open_verdict local_ip net (req_cmd req)
            (filter (\<lambda>sa. permitted (ip sa)) candidates)
      | _ \<Rightarrow> response_err Unreachable (lit ''resolve timed out''))"

text \<open>\<open>sends os m bs\<close>: in every history \<open>m\<close> sends \<open>bs\<close> to the peer and nothing else.\<close>

definition sends :: "os \<Rightarrow> ('e, 'a) io \<Rightarrow> bytes \<Rightarrow> bool" where
  "sends os m bs \<longleftrightarrow> (\<forall>h. sent_to_peer os (snd (m h)) = sent_to_peer os h @ bs)"

lemma sendsI:
  "(\<And>h r h'. m h = (r, h') \<Longrightarrow> sent_to_peer os h' = sent_to_peer os h @ bs) \<Longrightarrow> sends os m bs"
  unfolding sends_def by (metis surjective_pairing)

lemma sendsD: "sends os m bs \<Longrightarrow> m h = (r, h') \<Longrightarrow> sent_to_peer os h' = sent_to_peer os h @ bs"
  unfolding sends_def by (metis snd_conv)

lemma sends_nothing:
  assumes "issues no_write m Q"
  shows "sends os m []"
proof (rule sendsI)
  fix h r h'
  assume "m h = (r, h')"
  with assms obtain cs where "h' = h @ cs" "\<forall>c \<in> set cs. no_write c" by (rule issuesD)
  with sent_to_peer_other [of cs os h] show "sent_to_peer os h' = sent_to_peer os h @ []"
    by (metis append_Nil2 no_write.simps(1))
qed

lemma sends_then_nothing:
  assumes "sends os m bs" and "\<And>a. sends os (f a) []"
  shows "sends os (and_then m f) bs"
proof (rule sendsI)
  fix h r h'
  assume run: "and_then m f h = (r, h')"
  obtain r1 h1 where m: "m h = (r1, h1)" by (cases "m h")
  from sendsD [OF assms(1) this] run m sendsD [OF assms(2)]
  show "sent_to_peer os h' = sent_to_peer os h @ bs"
    by (cases r1) (auto simp: and_then_def)
qed

text \<open>An action that sends nothing and whose value is known contributes its continuation.\<close>

lemma sends_after:
  assumes "issues no_write m Q" and "\<And>h. fst (m h) = Done a" and "sends os (f a) bs"
  shows "sends os (and_then m f) bs"
proof (rule sendsI)
  fix h r h'
  assume run: "and_then m f h = (r, h')"
  obtain h1 where m: "m h = (Done a, h1)" using assms(2) [of h] by (cases "m h") simp
  with run have "f a h1 = (r, h')" by (simp add: and_then_def)
  from sendsD [OF assms(3) this] sendsD [OF sends_nothing [OF assms(1)] m]
  show "sent_to_peer os h' = sent_to_peer os h @ bs" by simp
qed

lemma sends_response:
  assumes "\<forall>h bs. os_write os h bs = Done ()"
  shows "sends os (response_write_to (peer_tx os) rsp) (response_bytes rsp)"
proof (rule sendsI)
  fix h r h'
  assume "response_write_to (peer_tx os) rsp h = (r, h')"
  with assms have "h' = (h @ [WriteAll (response_bytes rsp)]) @ [Flush]"
    by (simp add: response_write_to_def and_then_def sys_def do_call_def)
  with assms show "sent_to_peer os h' = sent_to_peer os h @ response_bytes rsp"
    by (simp only: sent_to_peer_snoc) (simp add: sent_by_def)
qed

text \<open>What calls return in a static world.\<close>

lemma static_write: "static_world os net dns \<Longrightarrow> \<forall>h bs. os_write os h bs = Done ()"
  by (simp add: static_world_def)

lemma static_tcp_result: "static_world os net dns \<Longrightarrow> tcp_result net local_ip a \<noteq> Panicked"
  by (auto simp: static_world_def tcp_result_def split: outcome.split option.split)

lemma static_attempt:
  assumes "static_world os net dns" and "\<And>a. c \<noteq> ConnectSocket a"
  shows "fst (attempt (do_call os c) h) = Done (case net c of Failed err \<Rightarrow> Inl err | _ \<Rightarrow> Inr ())"
proof -
  have "net c \<noteq> Panicked" "net c \<noteq> Pending" "os_unit os h c = net c"
    using assms unfolding static_world_def by blast+
  then show ?thesis
    by (cases "net c") (simp_all add: attempt_def do_call_def sys_def)
qed

lemma static_ignore:
  assumes "static_world os net dns" and "\<And>a. c \<noteq> ConnectSocket a"
  shows "fst ((ignore (do_call os c) :: ('e, unit) io) h) = Done ()"
proof -
  have "net c \<noteq> Panicked" "net c \<noteq> Pending" "os_unit os h c = net c"
    using assms unfolding static_world_def by blast+
  then show ?thesis
    by (cases "net c") (simp_all add: ignore_def attempt_def do_call_def sys_def and_then_def ret_def)
qed

subsection \<open>The contract of a gateway\<close>

text \<open>
  What a server that dials on behalf of a peer promises: a request without the token leads to
  nothing but traffic with the peer; whatever it dials, its policy permits; and it reports success
  only after a successful dial.
\<close>

locale gateway =
  fixes token_ok :: "'cfg \<Rightarrow> bytes \<Rightarrow> bool"
    and permits :: "'cfg \<Rightarrow> ip_addr \<Rightarrow> bool"
    and serve :: "os \<Rightarrow> 'cfg \<Rightarrow> request \<Rightarrow> (io_error, unit) io"
  assumes serve_unauthorised:
      "\<not> token_ok cfg (req_token req) \<Longrightarrow> issues peer_call (serve os cfg req) (\<lambda>_. True)"
    and serve_dials: "issues (dials_only (may_dial os (permits cfg) (req_target req))) (serve os cfg req) (\<lambda>_. True)"
    and serve_ok:
      "triple (\<lambda>_. True) (ok_after_dial os (may_dial os (permits cfg) (req_target req))) (serve os cfg req) (\<lambda>_ _. True)"
begin

text \<open>A dial happens only for an authorised request, and only to a permitted address.\<close>

lemma dial_authorised:
  assumes run: "serve os cfg req h = (r, h @ cs)"
    and c: "c \<in> set cs" "dial_target c = Some a"
  shows "token_ok cfg (req_token req) \<and> may_dial os (permits cfg) (req_target req) a"
proof
  from serve_dials run obtain ds where "h @ cs = h @ ds" "\<forall>c \<in> set ds. dials_only (may_dial os (permits cfg) (req_target req)) c"
    by (rule issuesD)
  with c show "may_dial os (permits cfg) (req_target req) a" by (auto simp: dials_only_def)
next
  show "token_ok cfg (req_token req)"
  proof (rule ccontr)
    assume "\<not> token_ok cfg (req_token req)"
    from serve_unauthorised [OF this] run obtain ds where "h @ cs = h @ ds" "\<forall>c \<in> set ds. peer_call c"
      by (rule issuesD)
    with c(1) have "peer_call c" by simp
    with c(2) show False by (simp add: peer_call_no_dial)
  qed
qed

lemma ok_implies_dialled:
  assumes run: "serve os cfg req h = (r, h @ cs)"
    and i: "i < length cs" "cs ! i = WriteAll (response_bytes response_ok)"
  shows "dialled os (may_dial os (permits cfg) (req_target req)) (h @ take i cs)"
proof -
  from serve_ok TrueI run obtain ds where "h @ cs = h @ ds"
      "\<forall>i < length ds. ok_after_dial os (may_dial os (permits cfg) (req_target req)) (h @ take i ds) (ds ! i)"
    by (rule tripleD)
  with i show ?thesis by (auto simp: ok_after_dial_def)
qed

lemma session_extends:
  assumes "handshake_then os d elapsed (serve os cfg) h = (r, h')"
  shows "\<exists>cs. h' = h @ cs"
  using assms
proof (cases rule: handshake_cases)
  case (served req ds)
  from serve_dials served(4) obtain es where "h' = (h @ ds) @ es" by (rule issuesD)
  then show ?thesis by auto
qed auto

text \<open>
  For a whole session, from the bytes the peer sends: whoever causes a dial has sent, first, a
  well-formed request with the token.
\<close>

lemma session_dials:
  assumes run: "handshake_then os d elapsed (serve os cfg) h = (r, h @ cs)"
    and c: "c \<in> set cs" "dial_target c = Some a"
  shows "\<exists>req rest. good_request req \<and> token_ok cfg (req_token req) \<and> may_dial os (permits cfg) (req_target req) a \<and>
    s_bytes (inbox_view (os_inbox os) h) = request_bytes req @ rest"
  using run
proof (cases rule: handshake_cases)
  case (failed ds)
  with c read_or_timer_harmless show ?thesis by auto
next
  case (served req ds)
  from serve_dials served(4) obtain es where "h @ cs = (h @ ds) @ es" by (rule issuesD)
  then have cs: "cs = ds @ es" by simp
  with c read_or_timer_harmless served(3) have "c \<in> set es" by auto
  with dial_authorised [of os cfg req "h @ ds" r es c a] served(4) cs c(2) served(1,2)
  show ?thesis by (metis append.assoc stream_of_sel(1))
qed

lemma session_ok:
  assumes run: "handshake_then os d elapsed (serve os cfg) h = (r, h @ cs)"
    and i: "i < length cs" "cs ! i = WriteAll (response_bytes response_ok)"
    and fresh: "\<forall>c \<in> set h. dial_target c = None"
  shows "\<exists>req rest. good_request req \<and> token_ok cfg (req_token req) \<and>
    s_bytes (inbox_view (os_inbox os) h) = request_bytes req @ rest \<and>
    dialled os (may_dial os (permits cfg) (req_target req)) (h @ take i cs)"
  using run
proof (cases rule: handshake_cases)
  case (failed ds)
  with i read_or_timer_harmless show ?thesis by (metis nth_mem same_append_eq)
next
  case (served req ds)
  from serve_dials served(4) obtain es where "h @ cs = (h @ ds) @ es" by (rule issuesD)
  then have cs: "cs = ds @ es" by simp
  have "\<not> i < length ds"
    using i(2) served(3) read_or_timer_harmless cs by (metis nth_append nth_mem)
  with i cs ok_implies_dialled [of os cfg req "h @ ds" r es "i - length ds"] served(4)
  have dialled: "dialled os (may_dial os (permits cfg) (req_target req)) ((h @ ds) @ take (i - length ds) es)"
    and take: "take i cs = ds @ take (i - length ds) es"
    by (simp_all add: nth_append)
  have "\<forall>c \<in> set (h @ ds). dial_target c = None"
    using fresh served(3) read_or_timer_harmless by auto
  from dialled_in [OF dialled this] obtain c a where "c \<in> set es" "dial_target c = Some a"
    by (meson in_set_takeD)
  with dial_authorised [of os cfg req "h @ ds" r es c a] served(4) cs
  have "token_ok cfg (req_token req)" by simp
  with served(1,2) dialled take show ?thesis by (metis append.assoc stream_of_sel(1))
qed

lemma session_unauthorised:
  assumes "good_request req" and "inbox_view (os_inbox os) h = stream_of (request_bytes req @ rest) e"
    and "\<not> token_ok cfg (req_token req)"
    and "handshake_then os d elapsed (serve os cfg) h = (r, h @ cs)"
  shows "\<forall>c \<in> set cs. peer_call c"
proof -
  from assms(1,2) obtain ds where ds: "\<forall>c \<in> set ds. read_or_timer c"
      "handshake_then os d elapsed (serve os cfg) h = serve os cfg req (h @ ds)"
    by (rule handshake_serves)
  with assms(4) have run: "serve os cfg req (h @ ds) = (r, h @ cs)" by simp
  from serve_unauthorised [OF assms(3)] run obtain es where
      "h @ cs = (h @ ds) @ es" "\<forall>c \<in> set es. peer_call c"
    by (rule issuesD)
  moreover have "\<forall>c \<in> set ds. peer_call c" using ds(1) read_or_timer_peer_call by blast
  ultimately show ?thesis by auto
qed

end

subsection \<open>An example\<close>

definition example_os :: "request \<Rightarrow> os" where
  "example_os req = willing_os (stream_of (request_bytes req) Stalls) []"

lemma example_os_static:
  "static_world (example_os req) (\<lambda>c. Done ()) (\<lambda>host p. Done [SA4 0xC0000201 p])"
  by (simp add: static_world_def example_os_def willing_os_def)

lemma example_os_inbox: "os_inbox (example_os req) = stream_of (request_bytes req @ []) Stalls"
  by (simp add: example_os_def willing_os_def)

lemma good_example_request: "good_request example_request"
  by code_simp

end
