(* ===== verification/Vm_Config.thy ===== *)
theory Vm_Config
  imports Access
begin

text \<open>
  \<open>crates/vm/src/config.rs\<close>: the configuration of the agent in the virtual machine, its validation,
  the policy check and the token comparison. Reading and parsing the file are the arguments
  \<open>read_to_string\<close> and \<open>from_toml\<close> (the file system and the \<open>toml\<close> crate).
\<close>

record 'net vm_config =
  vm_listen :: socket_addr
  vm_token :: bytes
  vm_allow :: "'net list"
  vm_deny :: "'net list"
  vm_bind_ip :: "ip_addr option"
  vm_connect_timeout_ms :: u64
  vm_udp_timeout_secs :: u64
  vm_tcp_nodelay :: bool

definition vm_default_connect_timeout :: u64 where "vm_default_connect_timeout = 8000"
definition vm_default_udp_timeout :: u64 where "vm_default_udp_timeout = 60"
definition vm_default_true :: bool where "vm_default_true = True"

text \<open>\<open>anyhow::Error\<close>: a message, possibly wrapped in contexts.\<close>

datatype config_error =
    Bail bytes
  | ReadingConfig io_error
  | ParsingConfig bytes

text \<open>The warnings of \<open>validate\<close> are logged only; the errors decide.\<close>

datatype vm_warning = NoTokenConfigured | BindFamilyDiffers

definition vm_validate_warnings :: "'net vm_config \<Rightarrow> vm_warning list" where
  "vm_validate_warnings cfg =
     (if vm_token cfg = [] \<and> \<not> is_loopback (ip (vm_listen cfg)) then [NoTokenConfigured] else [])
     @ (case vm_bind_ip cfg of
          Some b \<Rightarrow> if ip_is_ipv4 b \<noteq> sa_is_ipv4 (vm_listen cfg) then [BindFamilyDiffers] else []
        | None \<Rightarrow> [])"

definition vm_validate :: "'net vm_config \<Rightarrow> config_error + unit" where
  "vm_validate cfg =
     (if length (vm_token cfg) > 255 then Inl (Bail (lit ''token must be at most 255 bytes''))
      else Inr ())"

definition vm_load ::
    "('path \<Rightarrow> io_error + bytes) \<Rightarrow> (bytes \<Rightarrow> bytes + 'net vm_config) \<Rightarrow> 'path \<Rightarrow>
     config_error + 'net vm_config" where
  "vm_load read_to_string from_toml path =
     (case read_to_string path of
        Inl e \<Rightarrow> Inl (ReadingConfig e)
      | Inr text \<Rightarrow> (case from_toml text of
          Inl e \<Rightarrow> Inl (ParsingConfig e)
        | Inr cfg \<Rightarrow> (case vm_validate cfg of Inl e \<Rightarrow> Inl e | Inr _ \<Rightarrow> Inr cfg)))"

definition vm_permits :: "'net ipnet \<Rightarrow> 'net vm_config \<Rightarrow> ip_addr \<Rightarrow> bool" where
  "vm_permits N cfg a =
     (if any_contains N (vm_deny cfg) a then False
      else vm_allow cfg = [] \<or> any_contains N (vm_allow cfg) a)"

definition vm_token_matches :: "bytes \<Rightarrow> bytes \<Rightarrow> bool" where
  "vm_token_matches expected got =
     (let diff = ucast ((of_nat (length expected) :: u64) XOR of_nat (length got)) :: u8;
          diff = fold (\<lambda>i diff.
              let x = safe_get expected i; y = safe_get got i in diff OR (x XOR y))
            [0..<max (length expected) (length got)] diff
      in diff = 0)"

interpretation vm_tokens: token_check vm_token_matches
  by unfold_locales
    (auto simp: vm_token_matches_def Let_def fold_or_0 length_diff_0 xor_eq_0_u8 same_padded_def)

interpretation vm_policy: access_policy "vm_permits N" vm_allow vm_deny N for N
  by unfold_locales (auto simp: vm_permits_def)

lemma vm_load_valid: "vm_load rd toml p = Inr cfg \<Longrightarrow> length (vm_token cfg) \<le> 255"
  by (auto simp: vm_load_def vm_validate_def split: sum.splits if_splits)

end
