(* ===== verification/Vm_Server.thy ===== *)
theory Vm_Server
  imports Triples Vm_Config
begin

text \<open>
  \<open>crates/vm/src/server.rs\<close>: the agent in the virtual machine. \<open>vm_handle\<close> is one session, from the
  handshake to the relay; the relay of datagrams is a race of two pumps whose steps are modelled in
  the theory Udp_Relay and of which the session sees the result. \<open>vm_run\<close> is the accept loop.
\<close>

definition VM_HANDSHAKE_TIMEOUT :: nat where
  "VM_HANDSHAKE_TIMEOUT = 10 * 1000"

text \<open>Errors that merely say that the other side went away.\<close>

definition vm_is_benign_eof :: "io_error \<Rightarrow> bool" where
  "vm_is_benign_eof err \<longleftrightarrow> err_kind err \<in>
     {UnexpectedEof, BrokenPipe, ConnectionReset, ConnectionAborted, NotConnected, TimedOut}"

definition vm_reject :: "os \<Rightarrow> status \<Rightarrow> bytes \<Rightarrow> (io_error, unit) io" where
  "vm_reject os st message = response_write_to (peer_tx os) (response_err st message)"

definition vm_resolve :: "os \<Rightarrow> address \<Rightarrow> (io_error, socket_addr list) io" where
  "vm_resolve os target = (case target of
      Ip sa \<Rightarrow> ret [sa]
    | Domain host p \<Rightarrow> sys (LookupHost host p) (\<lambda>h. os_lookup os h host p))"

definition vm_dial_tcp :: "os \<Rightarrow> 'net vm_config \<Rightarrow> socket_addr \<Rightarrow> (io_error, unit) io" where
  "vm_dial_tcp os cfg addr =
     and_then (if sa_is_ipv4 addr then do_call os NewSocketV4 else do_call os NewSocketV6) (\<lambda>_.
     and_then (case vm_bind_ip cfg of
         Some b \<Rightarrow> if ip_is_ipv4 b = sa_is_ipv4 addr
           then do_call os (BindSocket (socket_addr_new b 0)) else ret ()
       | None \<Rightarrow> ret ()) (\<lambda>_.
     do_call os (ConnectSocket addr)))"

text \<open>The loop over the candidates: whether one was connected to, and the last error.\<close>

fun vm_dial_loop ::
    "os \<Rightarrow> 'net vm_config \<Rightarrow> socket_addr list \<Rightarrow> bytes option \<Rightarrow>
     (io_error, bool \<times> bytes option) io" where
  "vm_dial_loop os cfg [] last_err = ret (False, last_err)"
| "vm_dial_loop os cfg (addr # addrs) last_err =
     and_then (with_timeout (unat (vm_connect_timeout_ms cfg)) (vm_dial_tcp os cfg addr)) (\<lambda>r.
       case r of
         Some (Inr _) \<Rightarrow> ret (True, last_err)
       | Some (Inl err) \<Rightarrow> vm_dial_loop os cfg addrs (Some (err_text err))
       | None \<Rightarrow> vm_dial_loop os cfg addrs
           (Some (lit ''connect to '' @ show_socket_addr addr @ lit '' timed out'')))"

definition vm_serve_tcp ::
    "os \<Rightarrow> 'net vm_config \<Rightarrow> socket_addr list \<Rightarrow> (io_error, unit) io" where
  "vm_serve_tcp os cfg candidates =
     and_then (vm_dial_loop os cfg candidates None) (\<lambda>(upstream, last_err).
       if \<not> upstream then
         vm_reject os Unreachable
           (case last_err of Some msg \<Rightarrow> msg | None \<Rightarrow> lit ''connect failed'')
       else
         and_then (ignore (do_call os (UpstreamNodelay (vm_tcp_nodelay cfg)))) (\<lambda>_.
         and_then (response_write_to (peer_tx os) response_ok) (\<lambda>_.
         and_then (do_call os CopyBidirectional) (\<lambda>_.
         ignore (do_call os UpstreamShutdown)))))"

definition vm_udp_bind_addr :: "'net vm_config \<Rightarrow> socket_addr \<Rightarrow> socket_addr" where
  "vm_udp_bind_addr cfg addr =
     (let unspecified = (if sa_is_ipv4 addr then SA4 0 0 else SA6 0 0 0 0) in
      case vm_bind_ip cfg of
        Some b \<Rightarrow> if ip_is_ipv4 b = sa_is_ipv4 addr then socket_addr_new b 0 else unspecified
      | None \<Rightarrow> unspecified)"

definition vm_relay_udp :: "os \<Rightarrow> nat \<Rightarrow> (io_error, unit) io" where
  "vm_relay_udp os idle =
     and_then (attempt (do_call os (RaceUdpPumps idle))) (\<lambda>r.
       case r of
         Inr _ \<Rightarrow> ret ()
       | Inl err \<Rightarrow> if vm_is_benign_eof err then ret () else raise err)"

definition vm_serve_udp :: "os \<Rightarrow> 'net vm_config \<Rightarrow> socket_addr \<Rightarrow> (io_error, unit) io" where
  "vm_serve_udp os cfg addr =
     and_then (attempt (do_call os (UdpBind (vm_udp_bind_addr cfg addr)))) (\<lambda>bound.
       case bound of
         Inl err \<Rightarrow> vm_reject os ServerError (lit ''bind failed: '' @ err_text err)
       | Inr _ \<Rightarrow>
           and_then (attempt (do_call os (UdpConnect addr))) (\<lambda>connected.
             case connected of
               Inl err \<Rightarrow> vm_reject os Unreachable (lit ''connect failed: '' @ err_text err)
             | Inr _ \<Rightarrow>
                 and_then (response_write_to (peer_tx os) response_ok) (\<lambda>_.
                 vm_relay_udp os (unat (vm_udp_timeout_secs cfg) * 1000))))"

text \<open>The part of \<open>handle\<close> after the request was read.\<close>

definition vm_handle_request ::
    "'net ipnet \<Rightarrow> os \<Rightarrow> 'net vm_config \<Rightarrow> request \<Rightarrow> (io_error, unit) io" where
  "vm_handle_request N os cfg req =
     (if \<not> vm_token_matches (vm_token cfg) (req_token req) then
        response_write_to (peer_tx os) (response_err AuthFailed (lit ''bad token''))
      else
        and_then (attempt (vm_resolve os (req_target req))) (\<lambda>resolved.
          case resolved of
            Inl err \<Rightarrow> vm_reject os Unreachable (lit ''resolve failed: '' @ err_text err)
          | Inr candidates \<Rightarrow>
              if candidates = [] then vm_reject os Unreachable (lit ''name resolved to nothing'')
              else
                case filter (\<lambda>sa. vm_permits N cfg (ip sa)) candidates of
                  [] \<Rightarrow> vm_reject os Forbidden (lit ''destination not allowed'')
                | first # rest \<Rightarrow>
                    (case req_cmd req of
                       ConnectTcp \<Rightarrow> vm_serve_tcp os cfg (first # rest)
                     | BindUdp \<Rightarrow> vm_serve_udp os cfg first)))"

definition vm_handle :: "'net ipnet \<Rightarrow> os \<Rightarrow> 'net vm_config \<Rightarrow> (io_error, unit) io" where
  "vm_handle N os cfg =
     and_then (ignore (do_call os (SetNodelay (vm_tcp_nodelay cfg)))) (\<lambda>_.
     and_then (with_timeout VM_HANDSHAKE_TIMEOUT (request_read_from (peer_rx os))) (\<lambda>r.
       case r of
         None \<Rightarrow> raise (IoError TimedOut (lit ''handshake timed out''))
       | Some (Inl err) \<Rightarrow> raise err
       | Some (Inr req) \<Rightarrow> vm_handle_request N os cfg req))"

text \<open>
  The accept loop, over the results of \<open>accept\<close>: a session is spawned for every connection; a
  failed \<open>accept\<close> is waited out and the loop goes on.
\<close>

datatype 'conn server_event = Spawned 'conn | Slept nat

fun vm_accept_loop :: "(io_error + 'conn) list \<Rightarrow> 'conn server_event list" where
  "vm_accept_loop [] = []"
| "vm_accept_loop (Inr conn # rest) = Spawned conn # vm_accept_loop rest"
| "vm_accept_loop (Inl err # rest) = Slept 100 # vm_accept_loop rest"

subsection \<open>The candidates\<close>

lemma issues_vm_dial_tcp: "issues (dial_calls addr) (vm_dial_tcp os cfg addr) (\<lambda>_. True)"
  unfolding vm_dial_tcp_def
  by (intro issues_intros) (auto simp: dial_calls_def)

lemma triple_vm_dial_tcp:
  assumes "p addr"
  shows "triple (\<lambda>_. True) (ok_after_dial os p) (vm_dial_tcp os cfg addr) (\<lambda>_. dialled os p)"
  unfolding vm_dial_tcp_def
  by (intro triple_and_then [where R = "\<lambda>_ _. True"] triple_skip triple_dial issues_intros)
    (auto simp: assms)

interpretation vm_dialling: dial_candidates vm_dial_tcp
    "\<lambda>cfg. unat (vm_connect_timeout_ms cfg)" vm_dial_loop
  by unfold_locales (simp_all add: issues_vm_dial_tcp triple_vm_dial_tcp)

subsection \<open>The session fulfils the gateway contract\<close>

lemma issues_vm_reject [issues_intros]:
  "P (WriteAll (response_bytes (response_err s m))) \<Longrightarrow> P Flush \<Longrightarrow>
    issues P (vm_reject os s m) (\<lambda>_. True)"
  unfolding vm_reject_def by (rule issues_response_write)

lemma triple_vm_reject:
  "s \<noteq> Ok \<Longrightarrow> triple I (ok_after_dial os p) (vm_reject os s m) (\<lambda>_ _. True)"
  unfolding vm_reject_def by (rule triple_error_response)

lemma issues_vm_resolve [issues_intros]:
  "(\<And>host p. P (LookupHost host p)) \<Longrightarrow> issues P (vm_resolve os target) (\<lambda>_. True)"
  unfolding vm_resolve_def by (cases target) (auto intro!: issues_intros)

lemma issues_vm_relay_udp [issues_intros]:
  "P (RaceUdpPumps idle) \<Longrightarrow> issues P (vm_relay_udp os idle) (\<lambda>_. True)"
  unfolding vm_relay_udp_def by (intro issues_intros) auto

lemma issues_vm_serve_tcp:
  assumes "\<forall>sa \<in> set candidates. p sa"
  shows "issues (dials_only p) (vm_serve_tcp os cfg candidates) (\<lambda>_. True)"
  unfolding vm_serve_tcp_def
  by (rule issues_bind [OF vm_dialling.loop_dials [OF assms]])
    (auto intro!: issues_intros issues_response_write split: prod.splits)

lemma issues_vm_serve_udp:
  "p addr \<Longrightarrow> issues (dials_only p) (vm_serve_udp os cfg addr) (\<lambda>_. True)"
  unfolding vm_serve_udp_def
  by (intro issues_intros issues_response_write) auto

lemma issues_vm_resolve_names:
  "(\<And>host p. P (LookupHost host p)) \<Longrightarrow>
    issues P (vm_resolve os target) (\<lambda>answer. \<forall>a \<in> set answer. names os target a)"
  unfolding vm_resolve_def by (cases target) (auto intro!: issues_ret issues_sys simp: names_def)

lemma issues_vm_handle_request:
  "issues (dials_only (may_dial os (vm_permits N cfg) (req_target req)))
    (vm_handle_request N os cfg req) (\<lambda>_. True)"
proof -
  let ?p = "may_dial os (vm_permits N cfg) (req_target req)"
  have chosen: "issues (dials_only ?p)
      (case filter (\<lambda>sa. vm_permits N cfg (ip sa)) candidates of
         [] \<Rightarrow> vm_reject os Forbidden (lit ''destination not allowed'')
       | first # rest \<Rightarrow>
           (case req_cmd req of
              ConnectTcp \<Rightarrow> vm_serve_tcp os cfg (first # rest)
            | BindUdp \<Rightarrow> vm_serve_udp os cfg first)) (\<lambda>_. True)"
    if "\<forall>a \<in> set candidates. names os (req_target req) a" for candidates
  proof (cases "filter (\<lambda>sa. vm_permits N cfg (ip sa)) candidates")
    case Nil
    then show ?thesis by (auto intro!: issues_intros)
  next
    case (Cons first rest)
    from filter_eqD [OF Cons] that have "\<forall>sa \<in> set (first # rest). ?p sa"
      by (simp add: may_dial_def)
    with Cons show ?thesis
      by (auto intro!: issues_vm_serve_tcp issues_vm_serve_udp split: cmd.splits)
  qed
  have "issues (dials_only ?p) (attempt (vm_resolve os (req_target req)))
      (\<lambda>r. \<forall>answer. r = Inr answer \<longrightarrow> (\<forall>a \<in> set answer. names os (req_target req) a))"
    by (rule issues_attempt [OF issues_vm_resolve_names]) auto
  then show ?thesis
    unfolding vm_handle_request_def
    by (auto intro!: issues_and_then [of "dials_only ?p" "attempt (vm_resolve os (req_target req))"]
        issues_vm_reject issues_response_write chosen split: sum.splits)
qed

lemma triple_vm_serve_tcp:
  assumes "\<forall>sa \<in> set candidates. p sa"
  shows "triple (\<lambda>_. True) (ok_after_dial os p) (vm_serve_tcp os cfg candidates) (\<lambda>_ _. True)"
  unfolding vm_serve_tcp_def
proof (rule triple_and_then [OF vm_dialling.loop_connected [OF assms]], clarify)
  fix upstream last_err
  have connected: "triple (dialled os p) (ok_after_dial os p)
      (and_then (ignore (do_call os (UpstreamNodelay (vm_tcp_nodelay cfg)))) (\<lambda>_.
       and_then (response_write_to (peer_tx os) response_ok) (\<lambda>_.
       and_then (do_call os CopyBidirectional) (\<lambda>_.
       ignore (do_call os UpstreamShutdown))))) (\<lambda>_ _. True)"
    by (intro triple_and_then [where R = "\<lambda>_. dialled os p"] triple_keep_dialled triple_ok_response
        triple_skip issues_intros) auto
  show "triple (\<lambda>h. upstream \<longrightarrow> dialled os p h) (ok_after_dial os p)
      (if \<not> upstream then
         vm_reject os Unreachable
           (case last_err of None \<Rightarrow> lit ''connect failed'' | Some msg \<Rightarrow> msg)
       else
         and_then (ignore (do_call os (UpstreamNodelay (vm_tcp_nodelay cfg)))) (\<lambda>_.
         and_then (response_write_to (peer_tx os) response_ok) (\<lambda>_.
         and_then (do_call os CopyBidirectional) (\<lambda>_.
         ignore (do_call os UpstreamShutdown))))) (\<lambda>_ _. True)"
    using connected triple_vm_reject by (cases upstream) simp_all
qed

lemma triple_vm_serve_udp:
  assumes "p addr"
  shows "triple (\<lambda>_. True) (ok_after_dial os p) (vm_serve_udp os cfg addr) (\<lambda>_ _. True)"
proof -
  have connected: "triple (dialled os p) (ok_after_dial os p)
      (and_then (response_write_to (peer_tx os) response_ok) (\<lambda>_.
       vm_relay_udp os (unat (vm_udp_timeout_secs cfg) * 1000))) (\<lambda>_ _. True)"
    by (intro triple_and_then [OF triple_ok_response] triple_skip issues_intros) auto
  have dial: "triple (\<lambda>_. True) (ok_after_dial os p) (attempt (do_call os (UdpConnect addr)))
      (\<lambda>r h. (\<exists>u. r = Inr u) \<longrightarrow> dialled os p h)"
    by (rule triple_attempt [OF triple_dial [where p = p]]) (use assms in auto)
  have dialled_case: "triple (\<lambda>h. (\<exists>u. r = Inr u) \<longrightarrow> dialled os p h) (ok_after_dial os p)
      (case r of
         Inl err \<Rightarrow> vm_reject os Unreachable (lit ''connect failed: '' @ err_text err)
       | Inr _ \<Rightarrow>
           and_then (response_write_to (peer_tx os) response_ok) (\<lambda>_.
           vm_relay_udp os (unat (vm_udp_timeout_secs cfg) * 1000))) (\<lambda>_ _. True)" for r
    using connected triple_vm_reject by (cases r) simp_all
  have bound_case: "triple (\<lambda>_. True) (ok_after_dial os p)
      (case r of
         Inl err \<Rightarrow> vm_reject os ServerError (lit ''bind failed: '' @ err_text err)
       | Inr _ \<Rightarrow> and_then (attempt (do_call os (UdpConnect addr))) (\<lambda>connected.
           case connected of
             Inl err \<Rightarrow> vm_reject os Unreachable (lit ''connect failed: '' @ err_text err)
           | Inr _ \<Rightarrow>
               and_then (response_write_to (peer_tx os) response_ok) (\<lambda>_.
               vm_relay_udp os (unat (vm_udp_timeout_secs cfg) * 1000)))) (\<lambda>_ _. True)" for r
    using triple_and_then [OF dial dialled_case] triple_vm_reject by (cases r) simp_all
  show ?thesis
    unfolding vm_serve_udp_def
    by (rule triple_and_then [OF triple_skip bound_case], intro issues_intros) auto
qed

lemma triple_vm_handle_request:
  "triple (\<lambda>_. True) (ok_after_dial os (may_dial os (vm_permits N cfg) (req_target req)))
    (vm_handle_request N os cfg req) (\<lambda>_ _. True)"
proof -
  let ?p = "may_dial os (vm_permits N cfg) (req_target req)"
  let ?names = "\<lambda>answer. \<forall>a \<in> set answer. names os (req_target req) a"
  have admitted: "triple (\<lambda>_. True) (ok_after_dial os ?p)
      (case filter (\<lambda>sa. vm_permits N cfg (ip sa)) candidates of
         [] \<Rightarrow> vm_reject os Forbidden (lit ''destination not allowed'')
       | first # rest \<Rightarrow>
           (case req_cmd req of
              ConnectTcp \<Rightarrow> vm_serve_tcp os cfg (first # rest)
            | BindUdp \<Rightarrow> vm_serve_udp os cfg first)) (\<lambda>_ _. True)"
    if "?names candidates" for candidates
  proof (cases "filter (\<lambda>sa. vm_permits N cfg (ip sa)) candidates")
    case Nil
    then show ?thesis by (simp add: triple_vm_reject)
  next
    case (Cons first rest)
    from filter_eqD [OF Cons] that have "\<forall>sa \<in> set (first # rest). ?p sa"
      by (simp add: may_dial_def)
    with Cons show ?thesis
      by (auto intro!: triple_vm_serve_tcp triple_vm_serve_udp split: cmd.splits)
  qed
  have resolved: "triple (\<lambda>_. \<forall>answer. r = Inr answer \<longrightarrow> ?names answer) (ok_after_dial os ?p)
      (case r of
         Inl err \<Rightarrow> vm_reject os Unreachable (lit ''resolve failed: '' @ err_text err)
       | Inr candidates \<Rightarrow>
           if candidates = [] then vm_reject os Unreachable (lit ''name resolved to nothing'')
           else (case filter (\<lambda>sa. vm_permits N cfg (ip sa)) candidates of
             [] \<Rightarrow> vm_reject os Forbidden (lit ''destination not allowed'')
           | first # rest \<Rightarrow>
               (case req_cmd req of
                  ConnectTcp \<Rightarrow> vm_serve_tcp os cfg (first # rest)
                | BindUdp \<Rightarrow> vm_serve_udp os cfg first))) (\<lambda>_ _. True)" for r
    by (rule triple_pure, cases r) (simp_all add: admitted triple_vm_reject)
  have lookup: "triple (\<lambda>_. True) (ok_after_dial os ?p)
      (attempt (vm_resolve os (req_target req)))
      (\<lambda>r _. \<forall>answer. r = Inr answer \<longrightarrow> ?names answer)"
    by (rule triple_of_issues [OF issues_attempt [OF issues_vm_resolve_names [of no_write]]])
      (auto intro: ok_after_dial_no_write)
  show ?thesis
    unfolding vm_handle_request_def
    using triple_and_then [OF lookup resolved] triple_error_response by simp
qed

lemma issues_vm_unauthorised:
  "\<not> vm_token_matches (vm_token cfg) (req_token req) \<Longrightarrow>
    issues peer_call (vm_handle_request N os cfg req) (\<lambda>_. True)"
  unfolding vm_handle_request_def by (simp add: issues_response_write)

interpretation vm_gateway: gateway "\<lambda>cfg. vm_token_matches (vm_token cfg)" "vm_permits N"
    "\<lambda>os. vm_handle_request N os" for N
  by unfold_locales
    (simp_all add: issues_vm_unauthorised issues_vm_handle_request triple_vm_handle_request)

subsection \<open>The whole session\<close>

lemma vm_handle_eq:
  "vm_handle N os cfg =
     and_then (ignore (do_call os (SetNodelay (vm_tcp_nodelay cfg)))) (\<lambda>_.
       handshake_then os VM_HANDSHAKE_TIMEOUT (IoError TimedOut (lit ''handshake timed out''))
         (vm_handle_request N os cfg))"
  unfolding vm_handle_def handshake_then_def by (rule refl)

text \<open>
  The session is the handshake behind one call that configures the socket, whose result is dropped.
\<close>

lemma vm_handle_trace:
  assumes "vm_handle N os cfg [] = (r, cs)"
  obtains "cs = [SetNodelay (vm_tcp_nodelay cfg)]" and "\<forall>u. r \<noteq> Done u"
  | ds where "cs = SetNodelay (vm_tcp_nodelay cfg) # ds"
    "handshake_then os VM_HANDSHAKE_TIMEOUT (IoError TimedOut (lit ''handshake timed out''))
       (vm_handle_request N os cfg) [SetNodelay (vm_tcp_nodelay cfg)]
      = (r, [SetNodelay (vm_tcp_nodelay cfg)] @ ds)"
proof -
  let ?c = "SetNodelay (vm_tcp_nodelay cfg)"
  let ?m = "handshake_then os VM_HANDSHAKE_TIMEOUT
      (IoError TimedOut (lit ''handshake timed out'')) (vm_handle_request N os cfg)"
  from assms have "(cs = [?c] \<and> (\<forall>u. r \<noteq> Done u)) \<or> ?m [?c] = (r, cs)"
    by (auto simp: vm_handle_eq ignore_def attempt_def do_call_def sys_def and_then_def ret_def
        split: outcome.splits)
  then show thesis
  proof
    assume run: "?m [?c] = (r, cs)"
    from vm_gateway.session_extends [OF this] obtain ds where "cs = [?c] @ ds" by blast
    with run that(2) show thesis by simp
  qed (use that(1) in blast)
qed

subsection \<open>The answer of the agent\<close>

lemma vm_reject_sends:
  "static_world os net dns \<Longrightarrow> sends os (vm_reject os s m) (response_bytes (response_err s m))"
  unfolding vm_reject_def by (rule sends_response [OF static_write])

lemma vm_dial_tcp_result:
  "static_world os net dns \<Longrightarrow> fst (vm_dial_tcp os cfg a h) = tcp_result net (vm_bind_ip cfg) a"
  by (auto simp: static_world_def vm_dial_tcp_def tcp_result_def and_then_def do_call_def sys_def
      ret_def split: outcome.split option.split)

lemma vm_serve_tcp_sends:
  assumes world: "static_world os net dns" and "candidates \<noteq> []"
  shows "sends os (vm_serve_tcp os cfg candidates) (response_bytes
    (let out = tcp_result net (vm_bind_ip cfg) in
     if \<exists>a \<in> set candidates. out a = Done () then response_ok
     else response_err Unreachable (dial_text out (last candidates))))"
proof -
  let ?out = "tcp_result net (vm_bind_ip cfg)"
  note loop = vm_dialling.loop_first_reachable [of os cfg ?out candidates None,
      OF vm_dial_tcp_result [OF world] static_tcp_result [OF world]]
  have ok: "sends os (and_then (ignore (do_call os (UpstreamNodelay (vm_tcp_nodelay cfg)))) (\<lambda>_.
       and_then (response_write_to (peer_tx os) response_ok) (\<lambda>_.
       and_then (do_call os CopyBidirectional) (\<lambda>_.
       ignore (do_call os UpstreamShutdown))))) (response_bytes response_ok)"
  proof (rule sends_after [where Q = "\<lambda>_. True"])
    show "fst (ignore (do_call os (UpstreamNodelay (vm_tcp_nodelay cfg))) h) = Done ()" for h
      by (rule static_ignore [OF world]) simp
  qed (intro issues_intros sends_then_nothing [OF sends_response [OF static_write [OF world]]]
      sends_nothing [where Q = "\<lambda>_. True"]; simp)+
  show ?thesis
    unfolding vm_serve_tcp_def
    by (rule sends_after [OF vm_dialling.loop_no_write loop])
      (use ok vm_reject_sends [OF world] assms(2) in \<open>auto simp: Let_def\<close>)
qed

lemma vm_serve_udp_sends:
  assumes world: "static_world os net dns"
  shows "sends os (vm_serve_udp os cfg a) (response_bytes
    (case net (UdpBind (udp_local_addr (vm_bind_ip cfg) a)) of
       Failed err \<Rightarrow> response_err ServerError (lit ''bind failed: '' @ err_text err)
     | _ \<Rightarrow> (case net (UdpConnect a) of
         Failed err \<Rightarrow> response_err Unreachable (lit ''connect failed: '' @ err_text err)
       | _ \<Rightarrow> response_ok)))"
proof -
  have bind_addr: "vm_udp_bind_addr cfg a = udp_local_addr (vm_bind_ip cfg) a"
    by (simp add: vm_udp_bind_addr_def udp_local_addr_def Let_def split: option.split)
  have relay: "sends os (vm_relay_udp os idle) []" for idle
    by (rule sends_nothing [where Q = "\<lambda>_. True"]) (intro issues_intros, simp)
  note ok = sends_then_nothing [OF sends_response [OF static_write [OF world]] relay]
  show ?thesis
    unfolding vm_serve_udp_def bind_addr
    by (rule sends_after [where Q = "\<lambda>_. True", OF _ static_attempt [OF world]],
        intro issues_intros, simp_all split: outcome.split,
        intro conjI allI impI vm_reject_sends [OF world]
          sends_after [where Q = "\<lambda>_. True", OF _ static_attempt [OF world]] issues_intros)
      (auto split: outcome.split intro!: ok vm_reject_sends [OF world])
qed


lemma vm_open_sends:
  assumes "static_world os net dns"
  shows "sends os
    (case as of
       [] \<Rightarrow> vm_reject os Forbidden (lit ''destination not allowed'')
     | first # rest \<Rightarrow>
         (case c of
            ConnectTcp \<Rightarrow> vm_serve_tcp os cfg (first # rest)
          | BindUdp \<Rightarrow> vm_serve_udp os cfg first))
    (response_bytes (open_verdict (vm_bind_ip cfg) net c as))"
proof (cases as)
  case Nil
  then show ?thesis by (simp add: open_verdict_def vm_reject_sends [OF assms])
next
  case (Cons first rest)
  with vm_serve_tcp_sends [OF assms, of as cfg] vm_serve_udp_sends [OF assms, of cfg first]
  show ?thesis by (cases c) (auto simp: open_verdict_def Let_def split: if_splits)
qed

lemma vm_handle_request_sends:
  assumes world: "static_world os net dns"
    and answers: "resolution dns (req_target req) \<noteq> Pending" "resolution dns (req_target req) \<noteq> Panicked"
  shows "sends os (vm_handle_request N os cfg req) (response_bytes
    (verdict (lit ''bad token'') (vm_token_matches (vm_token cfg)) (vm_permits N cfg)
      (vm_bind_ip cfg) net dns req))"
proof (cases "vm_token_matches (vm_token cfg) (req_token req)")
  case False
  then show ?thesis
    by (simp add: vm_handle_request_def verdict_def sends_response [OF static_write [OF world]])
next
  case True
  let ?res = "resolution dns (req_target req)"
  have resolve: "fst (attempt (vm_resolve os (req_target req)) h) =
      Done (case ?res of Failed err \<Rightarrow> Inl err | Done answer \<Rightarrow> Inr answer | _ \<Rightarrow> Inr [])" for h
    using world answers
    by (auto simp: static_world_def vm_resolve_def resolution_def attempt_def ret_def sys_def
        split: address.splits outcome.splits)
  have quiet: "issues no_write (attempt (vm_resolve os (req_target req))) (\<lambda>_. True)"
    by (intro issues_intros) auto
  show ?thesis
    unfolding vm_handle_request_def verdict_def
    using True answers
    by (cases ?res) (auto intro!: sends_after [OF quiet resolve] vm_reject_sends [OF world]
        vm_open_sends [OF world])
qed

lemma vm_handle_answer:
  assumes "static_world os net dns" and "good_request req"
    and "os_inbox os = stream_of (request_bytes req @ rest) e"
    and "resolution dns (req_target req) \<noteq> Pending"
    and "resolution dns (req_target req) \<noteq> Panicked"
  shows "sent_to_peer os (snd (vm_handle N os cfg [])) = response_bytes
    (verdict (lit ''bad token'') (vm_token_matches (vm_token cfg)) (vm_permits N cfg)
      (vm_bind_ip cfg) net dns req)"
proof -
  let ?c = "SetNodelay (vm_tcp_nodelay cfg)"
  from assms(2,3) have "inbox_view (os_inbox os) [?c] = stream_of (request_bytes req @ rest) e"
    by (simp add: inbox_view_def)
  with assms(2) obtain cs where cs: "\<forall>c \<in> set cs. read_or_timer c"
      "handshake_then os VM_HANDSHAKE_TIMEOUT (IoError TimedOut (lit ''handshake timed out''))
        (vm_handle_request N os cfg) [?c] = vm_handle_request N os cfg req ([?c] @ cs)"
    by (rule handshake_serves)
  have ignored: "(ignore (do_call os ?c) :: (io_error, unit) io) [] = (Done (), [?c])"
    using static_ignore [OF assms(1), of ?c "[]"]
    by (simp add: ignore_def attempt_def do_call_def sys_def and_then_def ret_def
        split: outcome.splits)
  obtain r h where run: "vm_handle_request N os cfg req ([?c] @ cs) = (r, h)"
    by (cases "vm_handle_request N os cfg req ([?c] @ cs)")
  with cs(2) ignored have "snd (vm_handle N os cfg []) = h"
    by (simp add: vm_handle_eq and_then_def)
  moreover have "sent_to_peer os ([?c] @ cs) = []"
    using sent_to_peer_other [of "[?c] @ cs" os "[]"] cs(1) read_or_timer_harmless by auto
  ultimately show ?thesis
    using sendsD [OF vm_handle_request_sends [OF assms(1,4,5)] run] by simp
qed

subsection \<open>Properties of a session\<close>

text \<open>A session in which everything succeeds, for the examples.\<close>

definition vm_example_config :: "cidr vm_config" where
  "vm_example_config = \<lparr>vm_listen = SA4 0x7F000001 1080, vm_token = lit ''key'', vm_allow = [],
     vm_deny = [Cidr4 0x7F000000 8], vm_bind_ip = None,
     vm_connect_timeout_ms = vm_default_connect_timeout,
     vm_udp_timeout_secs = vm_default_udp_timeout, vm_tcp_nodelay = vm_default_true\<rparr>"

lemma vm_example_trace:
  "snd (vm_handle cidr_net (example_os example_request) vm_example_config []) =
     [SetNodelay True, Timer 10000, ReadExact 4, ReadExact 1, ReadExact 1, ReadExact 1, ReadExact 3,
      ReadExact 1, ReadExact 1, ReadExact 1, ReadExact 2, LookupHost (lit ''a'') 443, Timer 8000,
      NewSocketV4, ConnectSocket (SA4 0xC0000201 443), UpstreamNodelay True,
      WriteAll (response_bytes response_ok), Flush, CopyBidirectional, UpstreamShutdown]"
  by code_simp

text \<open>
  C5: whatever the peer sends and whatever the network does, a session of the agent that dials
  \<open>a\<close> has received, at the start of the stream, a well-formed request that carries
  the configured token and names \<open>a\<close>, and the policy permits the address of
  \<open>a\<close>.
\<close>

theorem vm_session_dials:
  assumes "vm_validate cfg = Inr ()"
    and "c \<in> set (snd (vm_handle N os cfg []))" and "dial_target c = Some a"
  shows "\<exists>req rest. good_request req \<and> s_bytes (os_inbox os) = request_bytes req @ rest \<and>
    req_token req = vm_token cfg \<and> names os (req_target req) a \<and> vm_permits N cfg (ip a)"
proof -
  obtain r cs where run: "vm_handle N os cfg [] = (r, cs)" by (cases "vm_handle N os cfg []")
  then show ?thesis
  proof (cases rule: vm_handle_trace)
    case (2 ds)
    with run assms(2,3) have "c \<in> set ds" by auto
    from vm_gateway.session_dials [OF 2(2) this assms(3)] assms(1) show ?thesis
      by (auto simp: may_dial_def good_request_def vm_validate_def vm_tokens.matches_exact
          inbox_view_def split: if_splits)
  qed (use run assms(2,3) in auto)
qed

theorem vm_session_dials_witness:
  "\<exists>req rest. good_request req \<and>
    s_bytes (os_inbox (example_os example_request)) = request_bytes req @ rest \<and>
    req_token req = vm_token vm_example_config \<and>
    names (example_os example_request) (req_target req) (SA4 0xC0000201 443) \<and>
    vm_permits cidr_net vm_example_config (ip (SA4 0xC0000201 443))"
  by (rule vm_session_dials [where c = "ConnectSocket (SA4 0xC0000201 443)"])
    (simp_all add: vm_example_trace, code_simp)

text \<open>
  C6: where the world answers, what the agent sends to a peer is exactly one response, and it is
  the one that request, policy and network dictate: a wrong token, a name that does not resolve, a
  forbidden target and a failed connection each have their answer, and success is reported only
  for an admitted and reachable target.
\<close>

theorem vm_session_answer:
  assumes "static_world os net dns" and "good_request req"
    and "os_inbox os = stream_of (request_bytes req @ rest) e"
    and "resolution dns (req_target req) \<noteq> Pending"
    and "resolution dns (req_target req) \<noteq> Panicked"
  shows "sent_to_peer os (snd (vm_handle N os cfg [])) = response_bytes
    (verdict (lit ''bad token'') (vm_token_matches (vm_token cfg)) (vm_permits N cfg)
      (vm_bind_ip cfg) net dns req)"
  using assms by (rule vm_handle_answer)

theorem vm_session_answer_witness:
  "sent_to_peer (example_os example_request)
     (snd (vm_handle cidr_net (example_os example_request) vm_example_config []))
   = response_bytes (verdict (lit ''bad token'') (vm_token_matches (vm_token vm_example_config))
      (vm_permits cidr_net vm_example_config) (vm_bind_ip vm_example_config) (\<lambda>c. Done ())
      (\<lambda>host p. Done [SA4 0xC0000201 p]) example_request)"
  by (rule vm_session_answer [OF example_os_static good_example_request example_os_inbox])
    (simp_all add: resolution_def split: address.split)

text \<open>
  C7: in any world, also a hostile one, the agent writes its success response only when it has
  received a well-formed request with a matching token and a dial to an address that the request
  names and the policy permits has succeeded before.
\<close>

theorem vm_ok_after_dial:
  assumes "i < length (snd (vm_handle N os cfg []))"
    and "snd (vm_handle N os cfg []) ! i = WriteAll (response_bytes response_ok)"
  shows "\<exists>req rest. good_request req \<and> vm_token_matches (vm_token cfg) (req_token req) \<and>
    s_bytes (os_inbox os) = request_bytes req @ rest \<and>
    dialled os (may_dial os (vm_permits N cfg) (req_target req)) (take i (snd (vm_handle N os cfg [])))"
proof -
  obtain r cs where run: "vm_handle N os cfg [] = (r, cs)" by (cases "vm_handle N os cfg []")
  then show ?thesis
  proof (cases rule: vm_handle_trace)
    case 1
    with run assms show ?thesis by (auto simp: response_bytes_def nth_Cons split: nat.splits)
  next
    case (2 ds)
    with run assms have i: "i \<noteq> 0" "i - 1 < length ds"
        "ds ! (i - 1) = WriteAll (response_bytes response_ok)"
      by (auto simp: nth_Cons split: nat.splits)
    from vm_gateway.session_ok [OF 2(2) i(2,3)] run 2(1) i(1) show ?thesis
      by (auto simp: inbox_view_def take_Cons split: nat.splits)
  qed
qed

theorem vm_ok_after_dial_witness:
  "\<exists>req rest. good_request req \<and>
    vm_token_matches (vm_token vm_example_config) (req_token req) \<and>
    s_bytes (os_inbox (example_os example_request)) = request_bytes req @ rest \<and>
    dialled (example_os example_request)
      (may_dial (example_os example_request) (vm_permits cidr_net vm_example_config) (req_target req))
      (take 16 (snd (vm_handle cidr_net (example_os example_request) vm_example_config [])))"
  by (rule vm_ok_after_dial) (simp_all add: vm_example_trace)

text \<open>
  C8: a peer whose request lacks the token learns nothing and causes nothing: the session issues
  only calls about the stream to that peer, no name lookup, no socket, no dial.
\<close>

theorem vm_unauthorised_inert:
  assumes "good_request req" and "os_inbox os = stream_of (request_bytes req @ rest) e"
    and "length (vm_token cfg) \<le> 255" and "req_token req \<noteq> vm_token cfg"
    and "c \<in> set (snd (vm_handle N os cfg []))"
  shows "peer_call c"
proof -
  let ?c = "SetNodelay (vm_tcp_nodelay cfg)"
  from assms(1,3,4) have token: "\<not> vm_token_matches (vm_token cfg) (req_token req)"
    by (simp add: vm_tokens.matches_exact good_request_def)
  from assms(1,2) have view: "inbox_view (os_inbox os) [?c] = stream_of (request_bytes req @ rest) e"
    by (simp add: inbox_view_def)
  obtain r cs where run: "vm_handle N os cfg [] = (r, cs)" by (cases "vm_handle N os cfg []")
  then show ?thesis
  proof (cases rule: vm_handle_trace)
    case (2 ds)
    from vm_gateway.session_unauthorised [OF assms(1) view token 2(2)] run 2(1) assms(5)
    show ?thesis by auto
  qed (use run assms(5) in auto)
qed

theorem vm_unauthorised_inert_witness:
  "peer_call (WriteAll (response_bytes (response_err AuthFailed (lit ''bad token''))))"
proof (rule vm_unauthorised_inert [OF _ example_os_inbox])
  let ?req = "example_request\<lparr>req_token := []\<rparr>"
  show "good_request ?req" by code_simp
  show "length (vm_token vm_example_config) \<le> 255" "req_token ?req \<noteq> vm_token vm_example_config"
    by code_simp+
  show "WriteAll (response_bytes (response_err AuthFailed (lit ''bad token''))) \<in>
      set (snd (vm_handle cidr_net (example_os ?req) vm_example_config []))"
    by code_simp
qed

end
