(* ===== verification/Loops.thy ===== *)
theory Loops
  imports World
begin

text \<open>
  Loops that may go on for ever. \<open>loop_until body\<close> repeats \<open>body\<close> until it returns \<open>Some\<close>; where it
  never does, the value is \<open>None\<close>, and the action \<open>loop body\<close> is one that never becomes ready.
  \<open>rounds body n\<close> is the state after \<open>n\<close> rounds that each asked for another.
\<close>

partial_function (option) loop_until ::
    "('s, 'e, 'a option) act \<Rightarrow> 's \<Rightarrow> (('e, 'a) outcome \<times> 's) option" where
  "loop_until body s = (case body s of
      (Done None, s') \<Rightarrow> loop_until body s'
    | (Done (Some a), s') \<Rightarrow> Some (Done a, s')
    | (Failed e, s') \<Rightarrow> Some (Failed e, s')
    | (Pending, s') \<Rightarrow> Some (Pending, s')
    | (Panicked, s') \<Rightarrow> Some (Panicked, s'))"

definition loop :: "('s, 'e, 'a option) act \<Rightarrow> ('s, 'e, 'a) act" where
  "loop body s = (case loop_until body s of None \<Rightarrow> (Pending, s) | Some r \<Rightarrow> r)"

lemma loop_until_again:
  "body s = (Done None, s') \<Longrightarrow> loop_until body s = loop_until body s'"
  by (simp add: loop_until.simps [of body s])

lemma loop_until_stop:
  "body s = (Done (Some a), s') \<Longrightarrow> loop_until body s = Some (Done a, s')"
  by (simp add: loop_until.simps [of body s])

text \<open>The state after \<open>n\<close> rounds that each asked for another.\<close>

fun rounds :: "('s, 'e, 'a option) act \<Rightarrow> nat \<Rightarrow> 's \<Rightarrow> 's option" where
  "rounds body 0 s = Some s"
| "rounds body (Suc n) s = (case body s of
      (Done None, s') \<Rightarrow> rounds body n s'
    | _ \<Rightarrow> None)"

lemma loop_until_rounds:
  "rounds body n s = Some s' \<Longrightarrow> loop_until body s = loop_until body s'"
proof (induction n arbitrary: s)
  case (Suc n)
  then obtain s1 where "body s = (Done None, s1)" "rounds body n s1 = Some s'"
    by (auto split: prod.splits outcome.splits option.splits)
  with Suc.IH [of s1] show ?case by (simp add: loop_until_again)
qed simp

text \<open>What the last round of a loop says of the loop's result.\<close>

fun last_round :: "('e, 'a option) outcome \<Rightarrow> ('e, 'a) outcome option" where
  "last_round (Done None) = None"
| "last_round (Done (Some a)) = Some (Done a)"
| "last_round (Failed e) = Some (Failed e)"
| "last_round Pending = Some Pending"
| "last_round Panicked = Some Panicked"

lemma loop_until_SomeD:
  fixes body :: "('s, 'e, 'a option) act"
  assumes "loop_until body s = Some (r, t)"
  obtains n s' where "rounds body n s = Some s'" "snd (body s') = t"
    "last_round (fst (body s')) = Some r"
proof -
  let ?P = "\<lambda>body s y. \<exists>n s'. rounds body n s = Some s' \<and> snd (body s') = snd y \<and>
    last_round (fst (body s')) = Some (fst y)"
  have "?P body s (r, t)"
  proof (rule loop_until.raw_induct [where P = ?P, OF _ assms])
    fix lu :: "('s, 'e, 'a option) act \<Rightarrow> 's \<Rightarrow> (('e, 'a) outcome \<times> 's) option"
    fix body s y
    assume IH: "\<And>body s y. lu body s = Some y \<Longrightarrow> ?P body s y"
      and step: "(case body s of
          (Done None, s') \<Rightarrow> lu body s'
        | (Done (Some a), s') \<Rightarrow> Some (Done a, s')
        | (Failed e, s') \<Rightarrow> Some (Failed e, s')
        | (Pending, s') \<Rightarrow> Some (Pending, s')
        | (Panicked, s') \<Rightarrow> Some (Panicked, s')) = Some y"
    obtain r1 s1 where run: "body s = (r1, s1)" by (cases "body s")
    show "?P body s y"
    proof (cases "r1 = Done None")
      case True
      with run step have "lu body s1 = Some y" by simp
      from IH [OF this] obtain n s' where "rounds body n s1 = Some s'" "snd (body s') = snd y"
          "last_round (fst (body s')) = Some (fst y)"
        by blast
      with True run show ?thesis by (intro exI [of _ "Suc n"] exI [of _ s']) simp
    next
      case False
      with run step show ?thesis
        by (intro exI [of _ 0] exI [of _ s]) (auto split: outcome.splits option.splits)
    qed
  qed
  with that show thesis by auto
qed

lemma rounds_issues:
  assumes "issues P body Q"
  shows "rounds body n h = Some h' \<Longrightarrow> \<exists>cs. h' = h @ cs \<and> (\<forall>c \<in> set cs. P c)"
proof (induction n arbitrary: h)
  case (Suc n)
  then obtain h1 where h1: "body h = (Done None, h1)" "rounds body n h1 = Some h'"
    by (auto split: prod.splits outcome.splits option.splits)
  from assms h1(1) obtain cs where "h1 = h @ cs" "\<forall>c \<in> set cs. P c" by (rule issuesD)
  with Suc.IH [OF h1(2)] show ?case by auto
qed simp

lemma issues_loop:
  assumes body: "issues P body R" and R: "\<And>a. R (Some a) \<Longrightarrow> Q a"
  shows "issues P (loop body) Q"
  unfolding issues_def
proof
  fix h
  show "\<exists>cs. snd (loop body h) = h @ cs \<and> (\<forall>c \<in> set cs. P c) \<and>
      (\<forall>a. fst (loop body h) = Done a \<longrightarrow> Q a)"
  proof (cases "loop_until body h")
    case None
    then show ?thesis by (simp add: loop_def)
  next
    case (Some y)
    obtain r t where y: "y = (r, t)" by (cases y)
    from Some [unfolded y] obtain n h1 where h1: "rounds body n h = Some h1"
        "snd (body h1) = t" and last: "last_round (fst (body h1)) = Some r"
      by (rule loop_until_SomeD)
    from rounds_issues [OF body h1(1)] obtain cs where cs: "h1 = h @ cs" "\<forall>c \<in> set cs. P c" by blast
    from body surjective_pairing obtain ds where ds: "snd (body h1) = h1 @ ds"
        "\<forall>c \<in> set ds. P c" "\<forall>a. fst (body h1) = Done a \<longrightarrow> R a"
      by (rule issuesD)
    have "\<forall>a. r = Done a \<longrightarrow> Q a"
      using last ds(3) R by (cases "fst (body h1)" rule: last_round.cases) auto
    with Some y h1(2) cs ds(1,2) show ?thesis
      by (intro exI [of _ "cs @ ds"]) (auto simp: loop_def)
  qed
qed

lemma issues_loop_any [issues_intros]:
  "issues P body (\<lambda>_. True) \<Longrightarrow> issues P (loop body) (\<lambda>_. True)"
  by (rule issues_loop) auto

end
