(* ===== verification/Config_Path.thy ===== *)
theory Config_Path
  imports Vm_Config
begin

text \<open>
  Paths and the search for a configuration file. A \<open>Path\<close> is what Rust compares: whether it is
  absolute, and its components. The four programs share the code of \<open>choose_config_path\<close> and
  \<open>resolve_config_path\<close> by copying it; each copy is translated, and \<open>config_search\<close> is the contract
  that all four fulfil.
\<close>

subsection \<open>\<open>std::path\<close>\<close>

datatype path = Path (path_absolute: bool) (path_components: "bytes list")

definition path_join :: "path \<Rightarrow> path \<Rightarrow> path" where
  "path_join base p =
     (if path_absolute p then p
      else Path (path_absolute base) (path_components base @ path_components p))"

definition path_parent :: "path \<Rightarrow> path option" where
  "path_parent p =
     (if path_components p = [] then None
      else Some (Path (path_absolute p) (butlast (path_components p))))"

definition file_path :: "bytes \<Rightarrow> path" where
  "file_path name = Path False [name]"

definition current_dir_path :: path where
  "current_dir_path = Path False [lit ''.'']"

text \<open>\<open>if p.is_absolute() { p } else { base.join(p) }\<close>, as both proxy programs resolve files.\<close>

definition path_resolve :: "path \<Rightarrow> path \<Rightarrow> path" where
  "path_resolve base p = (if path_absolute p then p else path_join base p)"

lemma path_parent_join_file [simp]: "path_parent (path_join base (file_path f)) = Some base"
  by (cases base) (simp add: path_parent_def path_join_def file_path_def)

lemma path_resolve_absolute:
  "path_absolute base \<Longrightarrow> path_absolute (path_resolve base p)"
  by (simp add: path_resolve_def path_join_def)

subsection \<open>Choosing the configuration file\<close>

datatype path_error =
    NoParentDirectory
  | ConfigNotFound bytes path path
  | CurrentDirFailed io_error
  | CurrentExeFailed io_error

type_synonym choose_fun =
  "bytes \<Rightarrow> path \<Rightarrow> path \<Rightarrow> (path \<Rightarrow> bool) \<Rightarrow> path_error + path"

definition host_choose_config_path :: choose_fun where
  "host_choose_config_path file_name current_dir executable is_file =
     (let current = path_join current_dir (file_path file_name) in
      if is_file current then Inr current
      else case path_parent executable of
        None \<Rightarrow> Inl NoParentDirectory
      | Some executable_dir \<Rightarrow>
          let adjacent = path_join executable_dir (file_path file_name) in
          if is_file adjacent then Inr adjacent
          else Inl (ConfigNotFound file_name current adjacent))"

definition vm_choose_config_path :: choose_fun where
  "vm_choose_config_path file_name current_dir executable is_file =
     (let current = path_join current_dir (file_path file_name) in
      if is_file current then Inr current
      else case path_parent executable of
        None \<Rightarrow> Inl NoParentDirectory
      | Some executable_dir \<Rightarrow>
          let adjacent = path_join executable_dir (file_path file_name) in
          if is_file adjacent then Inr adjacent
          else Inl (ConfigNotFound file_name current adjacent))"

definition client_choose_config_path :: choose_fun where
  "client_choose_config_path file_name current_dir executable is_file =
     (let current = path_join current_dir (file_path file_name) in
      if is_file current then Inr current
      else case path_parent executable of
        None \<Rightarrow> Inl NoParentDirectory
      | Some executable_dir \<Rightarrow>
          let adjacent = path_join executable_dir (file_path file_name) in
          if is_file adjacent then Inr adjacent
          else Inl (ConfigNotFound file_name current adjacent))"

definition server_choose_config_path :: choose_fun where
  "server_choose_config_path file_name current_dir executable is_file =
     (let current = path_join current_dir (file_path file_name) in
      if is_file current then Inr current
      else case path_parent executable of
        None \<Rightarrow> Inl NoParentDirectory
      | Some executable_dir \<Rightarrow>
          let adjacent = path_join executable_dir (file_path file_name) in
          if is_file adjacent then Inr adjacent
          else Inl (ConfigNotFound file_name current adjacent))"

text \<open>
  \<open>resolve_config_path\<close>: an explicit path wins without any look at the file system. \<open>cwd\<close> and
  \<open>exe\<close> are the results of \<open>std::env::current_dir\<close> and \<open>std::env::current_exe\<close>.
\<close>

type_synonym resolve_fun =
  "path option \<Rightarrow> bytes \<Rightarrow> io_error + path \<Rightarrow> io_error + path \<Rightarrow> (path \<Rightarrow> bool) \<Rightarrow>
   path_error + path"

definition host_resolve_config_path :: resolve_fun where
  "host_resolve_config_path explicit file_name cwd exe is_file =
     (case explicit of
        Some p \<Rightarrow> Inr p
      | None \<Rightarrow> (case cwd of
          Inl e \<Rightarrow> Inl (CurrentDirFailed e)
        | Inr current_dir \<Rightarrow> (case exe of
            Inl e \<Rightarrow> Inl (CurrentExeFailed e)
          | Inr executable \<Rightarrow> host_choose_config_path file_name current_dir executable is_file)))"

definition vm_resolve_config_path :: resolve_fun where
  "vm_resolve_config_path explicit file_name cwd exe is_file =
     (case explicit of
        Some p \<Rightarrow> Inr p
      | None \<Rightarrow> (case cwd of
          Inl e \<Rightarrow> Inl (CurrentDirFailed e)
        | Inr current_dir \<Rightarrow> (case exe of
            Inl e \<Rightarrow> Inl (CurrentExeFailed e)
          | Inr executable \<Rightarrow> vm_choose_config_path file_name current_dir executable is_file)))"

definition client_resolve_config_path :: resolve_fun where
  "client_resolve_config_path explicit file_name cwd exe is_file =
     (case explicit of
        Some p \<Rightarrow> Inr p
      | None \<Rightarrow> (case cwd of
          Inl e \<Rightarrow> Inl (CurrentDirFailed e)
        | Inr current_dir \<Rightarrow> (case exe of
            Inl e \<Rightarrow> Inl (CurrentExeFailed e)
          | Inr executable \<Rightarrow> client_choose_config_path file_name current_dir executable is_file)))"

definition server_resolve_config_path :: resolve_fun where
  "server_resolve_config_path explicit file_name cwd exe is_file =
     (case explicit of
        Some p \<Rightarrow> Inr p
      | None \<Rightarrow> (case cwd of
          Inl e \<Rightarrow> Inl (CurrentDirFailed e)
        | Inr current_dir \<Rightarrow> (case exe of
            Inl e \<Rightarrow> Inl (CurrentExeFailed e)
          | Inr executable \<Rightarrow> server_choose_config_path file_name current_dir executable is_file)))"

text \<open>
  The contract: the file next to the caller wins over the one next to the executable, and a failed
  search names every place it looked at. \<open>search_places\<close> are those places, in order.
\<close>

definition search_places :: "bytes \<Rightarrow> path \<Rightarrow> path \<Rightarrow> path list" where
  "search_places f cwd exe =
     path_join cwd (file_path f)
     # (case path_parent exe of None \<Rightarrow> [] | Some d \<Rightarrow> [path_join d (file_path f)])"

locale config_search =
  fixes pick :: choose_fun
  assumes pick_found: "pick f cwd exe is_file = Inr p \<longleftrightarrow>
      List.find is_file (search_places f cwd exe) = Some p"
    and pick_missing: "pick f cwd exe is_file = Inl (ConfigNotFound g a b) \<Longrightarrow>
      g = f \<and> search_places f cwd exe = [a, b]"
begin

lemma chosen_exists: "pick f cwd exe is_file = Inr p \<Longrightarrow> is_file p"
  by (auto simp: pick_found find_Some_iff)

lemma current_directory_wins:
  "is_file (path_join cwd (file_path f)) \<Longrightarrow>
    pick f cwd exe is_file = Inr (path_join cwd (file_path f))"
  by (simp add: pick_found search_places_def)

lemma missing_everywhere:
  assumes "pick f cwd exe is_file = Inl e" and "p \<in> set (search_places f cwd exe)"
  shows "\<not> is_file p"
proof
  assume "is_file p"
  with assms(2) obtain q where "List.find is_file (search_places f cwd exe) = Some q"
    by (metis find_None_iff not_None_eq)
  then have "pick f cwd exe is_file = Inr q" by (simp add: pick_found)
  with assms(1) show False by simp
qed

end

lemmas choose_defs =
  host_choose_config_path_def vm_choose_config_path_def client_choose_config_path_def
  server_choose_config_path_def

interpretation host_search: config_search host_choose_config_path
  by unfold_locales (auto simp: choose_defs search_places_def Let_def split: option.splits if_splits)

interpretation vm_search: config_search vm_choose_config_path
  by unfold_locales (auto simp: choose_defs search_places_def Let_def split: option.splits if_splits)

interpretation client_search: config_search client_choose_config_path
  by unfold_locales (auto simp: choose_defs search_places_def Let_def split: option.splits if_splits)

interpretation server_search: config_search server_choose_config_path
  by unfold_locales (auto simp: choose_defs search_places_def Let_def split: option.splits if_splits)

text \<open>
  All four programs find their configuration file the same way: the file in the current
  directory if it exists, else the one beside the executable, else an error.
\<close>

lemma config_search_order:
  "(host_choose_config_path f cwd exe is_file = Inr p \<longleftrightarrow>
      List.find is_file (search_places f cwd exe) = Some p) \<and>
   (vm_choose_config_path f cwd exe is_file = Inr p \<longleftrightarrow>
      List.find is_file (search_places f cwd exe) = Some p) \<and>
   (client_choose_config_path f cwd exe is_file = Inr p \<longleftrightarrow>
      List.find is_file (search_places f cwd exe) = Some p) \<and>
   (server_choose_config_path f cwd exe is_file = Inr p \<longleftrightarrow>
      List.find is_file (search_places f cwd exe) = Some p)"
  using host_search.pick_found vm_search.pick_found client_search.pick_found
    server_search.pick_found by blast

end
