(* ===== verification/Host_Config.thy ===== *)
theory Host_Config
  imports Config_Path
begin

text \<open>
  \<open>crates/host/src/config.rs\<close>: the configuration of the host agent, with the section of the VM
  agent's address, the TUN section with its defaults, and the optional DNS section; its validation,
  and the two questions the start-up asks of it, whether an address is captured and whether it is
  excluded.
\<close>

record host_server_config =
  hs_address :: socket_addr
  hs_token :: bytes
  hs_connect_timeout_ms :: u64
  hs_reconnect_interval_ms :: u64
  hs_tcp_nodelay :: bool

record tun_config =
  tun_name :: bytes
  tun_address :: u32
  tun_netmask :: u32
  tun_mtu :: u16
  tun_auto_route :: bool

record dns_config =
  dns_listen :: socket_addr
  dns_upstream :: "socket_addr list"
  dns_timeout_ms :: u64

record 'net host_config =
  host_server :: host_server_config
  host_tun :: tun_config
  host_routes :: "'net list"
  host_exclude :: "'net list"
  host_dns :: "dns_config option"

definition host_default_connect_timeout :: u64 where "host_default_connect_timeout = 5000"
definition host_default_reconnect_interval :: u64 where "host_default_reconnect_interval = 10000"
definition host_default_tun_name :: bytes where "host_default_tun_name = lit ''vpnbr0''"
definition host_default_tun_address :: u32 where "host_default_tun_address = ipv4 10 211 0 1"
definition host_default_tun_netmask :: u32 where "host_default_tun_netmask = ipv4 255 255 255 0"
definition host_default_mtu :: u16 where "host_default_mtu = 1500"
definition host_default_dns_timeout :: u64 where "host_default_dns_timeout = 5000"

definition host_tun_default :: tun_config where
  "host_tun_default = \<lparr>tun_name = host_default_tun_name, tun_address = host_default_tun_address,
     tun_netmask = host_default_tun_netmask, tun_mtu = host_default_mtu, tun_auto_route = True\<rparr>"

definition host_captures :: "'net ipnet \<Rightarrow> 'net host_config \<Rightarrow> ip_addr \<Rightarrow> bool" where
  "host_captures N cfg a = any_contains N (host_routes cfg) a"

definition host_excludes :: "'net ipnet \<Rightarrow> 'net host_config \<Rightarrow> ip_addr \<Rightarrow> bool" where
  "host_excludes N cfg a = any_contains N (host_exclude cfg) a"

text \<open>The warning about a captured VM address does not decide the result; the errors do.\<close>

definition host_validate_warns :: "'net ipnet \<Rightarrow> 'net host_config \<Rightarrow> bool" where
  "host_validate_warns N cfg =
     (let server_ip = ip (hs_address (host_server cfg))
      in host_captures N cfg server_ip \<and> \<not> host_excludes N cfg server_ip)"

definition host_validate :: "'net host_config \<Rightarrow> config_error + unit" where
  "host_validate cfg =
     (if host_routes cfg = []
        then Inl (Bail (lit ''`routes` is empty: there is nothing to forward to the VM''))
      else if tun_mtu (host_tun cfg) < 1280
        then Inl (Bail (lit ''tun.mtu must be at least 1280 (ipstack minimum)''))
      else if hs_reconnect_interval_ms (host_server cfg) = 0
        then Inl (Bail (lit ''server.reconnect_interval_ms must be greater than zero''))
      else if is_broadcast (tun_address (host_tun cfg)) \<or> is_unspecified (tun_address (host_tun cfg))
        then Inl (Bail (lit ''tun.address '' @ show_ipv4 (tun_address (host_tun cfg))
          @ lit '' is not a usable interface address''))
      else Inr ())"

definition host_load ::
    "(path \<Rightarrow> io_error + bytes) \<Rightarrow> (bytes \<Rightarrow> bytes + 'net host_config) \<Rightarrow> path \<Rightarrow>
     config_error + 'net host_config" where
  "host_load read_to_string from_toml p =
     (case read_to_string p of
        Inl e \<Rightarrow> Inl (ReadingConfig e)
      | Inr text \<Rightarrow> (case from_toml text of
          Inl e \<Rightarrow> Inl (ParsingConfig e)
        | Inr cfg \<Rightarrow> (case host_validate cfg of Inl e \<Rightarrow> Inl e | Inr _ \<Rightarrow> Inr cfg)))"

definition host_valid :: "'net host_config \<Rightarrow> bool" where
  "host_valid cfg \<longleftrightarrow> host_routes cfg \<noteq> [] \<and> 1280 \<le> tun_mtu (host_tun cfg) \<and>
     hs_reconnect_interval_ms (host_server cfg) \<noteq> 0 \<and>
     \<not> is_broadcast (tun_address (host_tun cfg)) \<and> \<not> is_unspecified (tun_address (host_tun cfg))"

lemma host_validate_iff: "host_validate cfg = Inr () \<longleftrightarrow> host_valid cfg"
  by (auto simp: host_validate_def host_valid_def not_less)

lemma host_load_valid: "host_load rd toml p = Inr cfg \<Longrightarrow> host_valid cfg"
  by (auto simp: host_load_def host_validate_iff [symmetric] split: sum.splits)

text \<open>A configuration with the defaults of the crate, for the examples.\<close>

definition host_sample_config :: "cidr host_config" where
  "host_sample_config =
     \<lparr>host_server = \<lparr>hs_address = SA4 0xC0A80002 4789, hs_token = lit ''key'',
        hs_connect_timeout_ms = host_default_connect_timeout,
        hs_reconnect_interval_ms = host_default_reconnect_interval, hs_tcp_nodelay = True\<rparr>,
      host_tun = host_tun_default, host_routes = [Cidr4 0x0A000000 8], host_exclude = [],
      host_dns = None\<rparr>"

end
