(* ===== verification/Host_Tunnel.thy ===== *)
theory Host_Tunnel
  imports Loops Host_Config
begin

text \<open>
  \<open>crates/host/src/tunnel.rs\<close>: opening a flow to the agent. \<open>host_open\<close> is \<open>Client::open\<close>: the agent
  is dialled until it answers, then the handshake is made under a deadline. The datagram relay that
  follows is \<open>local_step host_on_eof\<close> of the theory Udp_Relay.
\<close>

text \<open>The errors of \<open>open\<close>, as \<open>anyhow\<close> reports them: the context, and the cause where there is one.\<close>

datatype open_error =
    HandshakeTimedOut bytes
  | HandshakeFailed bytes io_error
  | Refused bytes

definition host_handshake :: "os \<Rightarrow> request \<Rightarrow> (io_error, response) io" where
  "host_handshake os req =
     and_then (request_write_to (peer_tx os) req) (\<lambda>_. response_read_from (peer_rx os))"

text \<open>The loop that dials the agent; \<open>sleep\<close> cannot fail.\<close>

definition host_dial_once :: "os \<Rightarrow> host_server_config \<Rightarrow> (open_error, unit option) io" where
  "host_dial_once os cfg =
     and_then (with_timeout (unat (hs_connect_timeout_ms cfg)) (do_call os (TcpDial (hs_address cfg))))
       (\<lambda>result. case result of
          Some (Inr _) \<Rightarrow> ret (Some ())
        | _ \<Rightarrow> and_then (sys (Sleep (unat (hs_reconnect_interval_ms cfg))) (\<lambda>_. Done ()))
                 (\<lambda>_. ret None))"

definition host_dial :: "os \<Rightarrow> host_server_config \<Rightarrow> (open_error, unit) io" where
  "host_dial os cfg = loop (host_dial_once os cfg)"

definition host_refusal :: "address \<Rightarrow> response \<Rightarrow> bytes" where
  "host_refusal target resp =
     (let detail = (if rsp_message resp = [] then show_status (rsp_status resp)
        else show_status (rsp_status resp) @ lit '': '' @ rsp_message resp)
      in lit ''VM agent refused '' @ show_address target @ lit '': '' @ detail)"

definition host_request :: "host_server_config \<Rightarrow> cmd \<Rightarrow> address \<Rightarrow> request" where
  "host_request cfg c target = \<lparr>req_cmd = c, req_token = hs_token cfg, req_target = target\<rparr>"

definition host_set_nodelay :: "os \<Rightarrow> host_server_config \<Rightarrow> (open_error, unit) io" where
  "host_set_nodelay os cfg =
     (if hs_tcp_nodelay cfg then ignore (do_call os (SetNodelay True)) else ret ())"

text \<open>What the result of the handshake makes of the flow.\<close>

definition host_conclude ::
    "address \<Rightarrow> (io_error + response) option \<Rightarrow> (open_error, unit) io" where
  "host_conclude target r = (case r of
      None \<Rightarrow> raise (HandshakeTimedOut
        (lit ''timed out during handshake for '' @ show_address target))
    | Some (Inl err) \<Rightarrow> raise (HandshakeFailed (lit ''handshake for '' @ show_address target) err)
    | Some (Inr resp) \<Rightarrow>
        if rsp_status resp \<noteq> Ok then raise (Refused (host_refusal target resp)) else ret ())"

definition host_open ::
    "os \<Rightarrow> host_server_config \<Rightarrow> cmd \<Rightarrow> address \<Rightarrow> (open_error, unit) io" where
  "host_open os cfg c target =
     and_then (host_dial os cfg) (\<lambda>_.
     and_then (host_set_nodelay os cfg) (\<lambda>_.
     and_then (with_timeout (unat (hs_connect_timeout_ms cfg))
         (host_handshake os (host_request cfg c target)))
       (host_conclude target)))"

definition host_is_benign_eof :: "io_error \<Rightarrow> bool" where
  "host_is_benign_eof err \<longleftrightarrow> err_kind err \<in>
     {UnexpectedEof, BrokenPipe, ConnectionReset, ConnectionAborted, NotConnected, TimedOut}"

definition host_relay_tcp :: "os \<Rightarrow> (io_error, unit) io" where
  "host_relay_tcp os =
     and_then (do_call os CopyBidirectional) (\<lambda>_. ignore (do_call os Shutdown))"

definition host_relay_udp :: "os \<Rightarrow> (io_error, unit) io" where
  "host_relay_udp os =
     and_then (attempt (do_call os (RaceUdpPumps 0))) (\<lambda>r.
       case r of
         Inr _ \<Rightarrow> ret ()
       | Inl err \<Rightarrow> if host_is_benign_eof err then ret () else raise err)"

subsection \<open>Dialling\<close>

definition host_round :: "host_server_config \<Rightarrow> call list" where
  "host_round cfg = [Timer (unat (hs_connect_timeout_ms cfg)), TcpDial (hs_address cfg),
     Sleep (unat (hs_reconnect_interval_ms cfg))]"

text \<open>The history after \<open>n\<close> failed attempts, and whether the next one connects.\<close>

definition after_attempts :: "host_server_config \<Rightarrow> call list \<Rightarrow> nat \<Rightarrow> call list" where
  "after_attempts cfg h n = h @ concat (replicate n (host_round cfg))"

definition dial_outcome :: "os \<Rightarrow> host_server_config \<Rightarrow> call list \<Rightarrow> nat \<Rightarrow> (io_error, unit) outcome" where
  "dial_outcome os cfg h n = os_unit os
     (after_attempts cfg h n @ [Timer (unat (hs_connect_timeout_ms cfg))]) (TcpDial (hs_address cfg))"

lemma after_attempts_Suc: "after_attempts cfg h n @ host_round cfg = after_attempts cfg h (Suc n)"
  by (induction n) (auto simp: after_attempts_def)

lemma host_dial_once_eq:
  "host_dial_once os cfg g =
     (case os_unit os (g @ [Timer (unat (hs_connect_timeout_ms cfg))]) (TcpDial (hs_address cfg)) of
        Done _ \<Rightarrow> (Done (Some ()), g @ take 2 (host_round cfg))
      | Panicked \<Rightarrow> (Panicked, g @ take 2 (host_round cfg))
      | _ \<Rightarrow> (Done None, g @ host_round cfg))"
  by (simp add: host_dial_once_def with_timeout_def do_call_def sys_def and_then_def timeout_def
      host_round_def ret_def split: outcome.split)

lemma host_dial_once_run:
  "host_dial_once os cfg (after_attempts cfg h n) = (case dial_outcome os cfg h n of
      Done _ \<Rightarrow> (Done (Some ()), after_attempts cfg h n @ take 2 (host_round cfg))
    | Panicked \<Rightarrow> (Panicked, after_attempts cfg h n @ take 2 (host_round cfg))
    | _ \<Rightarrow> (Done None, after_attempts cfg h (Suc n)))"
  by (simp add: host_dial_once_eq dial_outcome_def after_attempts_Suc split: outcome.split)

lemma host_dial_rounds:
  assumes "\<forall>m < n. \<forall>u. dial_outcome os cfg h m \<noteq> Done u \<and> dial_outcome os cfg h m \<noteq> Panicked"
    and "k \<le> n"
  shows "rounds (host_dial_once os cfg) (n - k) (after_attempts cfg h k) = Some (after_attempts cfg h n)"
  using assms(2)
proof (induction k rule: inc_induct)
  case base
  then show ?case by simp
next
  case (step k)
  then have "n - k = Suc (n - Suc k)" by simp
  with step assms(1) show ?case
    by (auto simp: host_dial_once_run split: outcome.splits)
qed

lemma rounds_unique_dial:
  "rounds (host_dial_once os cfg) n (after_attempts cfg h k) = Some h' \<Longrightarrow>
    h' = after_attempts cfg h (k + n) \<and>
    (\<forall>m < n. \<forall>u. dial_outcome os cfg h (k + m) \<noteq> Done u \<and> dial_outcome os cfg h (k + m) \<noteq> Panicked)"
proof (induction n arbitrary: k)
  case (Suc n)
  then have again: "\<forall>u. dial_outcome os cfg h k \<noteq> Done u \<and> dial_outcome os cfg h k \<noteq> Panicked"
    and "rounds (host_dial_once os cfg) n (after_attempts cfg h (Suc k)) = Some h'"
    by (auto simp: host_dial_once_run split: outcome.splits)
  with Suc.IH [of "Suc k"] have IH: "h' = after_attempts cfg h (Suc k + n)"
      "\<forall>m < n. \<forall>u. dial_outcome os cfg h (Suc k + m) \<noteq> Done u \<and>
        dial_outcome os cfg h (Suc k + m) \<noteq> Panicked"
    by auto
  have "dial_outcome os cfg h (k + m) \<noteq> Done u \<and> dial_outcome os cfg h (k + m) \<noteq> Panicked"
    if "m < Suc n" for m u
    using that again IH(2) by (cases m) auto
  with IH(1) show ?case by simp
qed simp

text \<open>Dialling ends at the first attempt that connects, and only there.\<close>

lemma host_dial_first_success:
  assumes "\<forall>m < n. \<forall>u. dial_outcome os cfg h m \<noteq> Done u \<and> dial_outcome os cfg h m \<noteq> Panicked"
    and "dial_outcome os cfg h n = Done ()"
  shows "host_dial os cfg h = (Done (), after_attempts cfg h n @ take 2 (host_round cfg))"
proof -
  have "rounds (host_dial_once os cfg) n h = Some (after_attempts cfg h n)"
    using host_dial_rounds [OF assms(1), of 0] by (simp add: after_attempts_def)
  moreover have "host_dial_once os cfg (after_attempts cfg h n)
      = (Done (Some ()), after_attempts cfg h n @ take 2 (host_round cfg))"
    by (simp add: host_dial_once_run assms(2))
  ultimately show ?thesis
    by (simp add: host_dial_def loop_def loop_until_rounds loop_until_stop)
qed

lemma host_dial_DoneD:
  assumes "host_dial os cfg h = (Done (), h')"
  shows "\<exists>n. dial_outcome os cfg h n = Done () \<and>
    (\<forall>m < n. \<forall>u. dial_outcome os cfg h m \<noteq> Done u) \<and>
    h' = after_attempts cfg h n @ take 2 (host_round cfg)"
proof -
  from assms have "loop_until (host_dial_once os cfg) h = Some (Done (), h')"
    by (auto simp: host_dial_def loop_def split: option.splits)
  then obtain n s where s: "rounds (host_dial_once os cfg) n h = Some s"
      "snd (host_dial_once os cfg s) = h'"
    and last: "last_round (fst (host_dial_once os cfg s)) = Some (Done ())"
    by (rule loop_until_SomeD)
  from rounds_unique_dial [of os cfg n h 0 s] s(1)
  have "s = after_attempts cfg h n" "\<forall>m < n. \<forall>u. dial_outcome os cfg h m \<noteq> Done u"
    by (auto simp: after_attempts_def)
  with s(2) last show ?thesis
    by (auto simp: host_dial_once_run split: outcome.splits)
qed

text \<open>So it ends exactly if some attempt connects; an agent that never answers is waited for.\<close>

lemma host_dial_ends_iff:
  assumes "\<forall>m. dial_outcome os cfg h m \<noteq> Panicked"
  shows "(\<exists>h'. host_dial os cfg h = (Done (), h')) \<longleftrightarrow> (\<exists>n. dial_outcome os cfg h n = Done ())"
proof
  assume "\<exists>n. dial_outcome os cfg h n = Done ()"
  then obtain n where n: "dial_outcome os cfg h n = Done ()"
      "\<forall>m < n. dial_outcome os cfg h m \<noteq> Done ()"
    using exists_least_iff [of "\<lambda>n. dial_outcome os cfg h n = Done ()"] by auto
  with assms host_dial_first_success [of n os cfg h] show "\<exists>h'. host_dial os cfg h = (Done (), h')"
    by auto
qed (use host_dial_DoneD in blast)

subsection \<open>The handshake\<close>

text \<open>A flow that opens has sent the request, all of it and nothing else, before it is used.\<close>

lemma host_dial_silent:
  assumes "host_dial os cfg h = (Done u, h')"
  obtains cs where "h' = h @ cs" "\<forall>c \<in> set cs. silent c"
proof -
  from host_dial_DoneD [of os cfg h h'] assms obtain n where
      "h' = h @ concat (replicate n (host_round cfg)) @ take 2 (host_round cfg)"
    by (auto simp: after_attempts_def)
  with that show thesis by (auto simp: host_round_def)
qed

lemma host_handshake_DoneD:
  assumes "host_handshake os req h = (Done resp, h')"
  shows "sent_to_peer os h' = sent_to_peer os h @ request_bytes req \<and>
    response_read_from stream_rx (inbox_view (os_inbox os) h)
      = (Done resp, inbox_view (os_inbox os) h')"
proof -
  from assms obtain h1 where h1: "request_write_to (peer_tx os) req h = (Done (), h1)"
      "response_read_from (peer_rx os) h1 = (Done resp, h')"
    by (auto simp: host_handshake_def elim: and_then_DoneD)
  from request_write_sends [OF h1(1)] response_read_peer [OF h1(2)] show ?thesis by simp
qed

lemma issues_host_set_nodelay: "issues silent (host_set_nodelay os cfg) (\<lambda>_. True)"
  unfolding host_set_nodelay_def by (intro issues_intros) auto

lemma host_open_DoneD:
  assumes "host_open os cfg c target h = (Done (), h')"
  obtains resp where
    "sent_to_peer os h' = sent_to_peer os h @ request_bytes (host_request cfg c target)"
    "response_read_from stream_rx (inbox_view (os_inbox os) h)
       = (Done resp, inbox_view (os_inbox os) h')"
    "rsp_status resp = Ok"
proof -
  from assms obtain u v h1 h2 h3 r where h1: "host_dial os cfg h = (Done u, h1)"
    and h2: "host_set_nodelay os cfg h1 = (Done v, h2)"
    and shake: "with_timeout (unat (hs_connect_timeout_ms cfg))
        (host_handshake os (host_request cfg c target)) h2
          = (Done r :: (open_error, _) outcome, h3)"
    and r: "host_conclude target r h3 = (Done (), h')"
    unfolding host_open_def
    by (elim and_then_DoneD) blast
  from r obtain resp where resp: "r = Some (Inr resp)" "h3 = h'" and ok: "rsp_status resp = Ok"
    by (auto simp: host_conclude_def ret_Done_iff split: option.splits sum.splits if_splits)
  from h1 obtain cs where cs: "h1 = h @ cs" "\<forall>c \<in> set cs. silent c" by (rule host_dial_silent)
  from issues_host_set_nodelay h2 obtain ds where "h2 = h1 @ ds" "\<forall>c \<in> set ds. silent c"
    by (rule issuesD)
  with cs have "h2 @ [Timer d] = h @ (cs @ ds @ [Timer d])"
      "\<forall>c \<in> set (cs @ ds @ [Timer d]). silent c" for d
    by auto
  with silent_keeps [of "cs @ ds @ [Timer (unat (hs_connect_timeout_ms cfg))]" os h "os_inbox os"]
    host_handshake_DoneD [OF with_timeout_SomeD [OF shake [unfolded resp]]] ok that
  show thesis by auto
qed

text \<open>
  Conversely, where the dial succeeds at once and the writes do, an agent that answers with a
  response decides the outcome: the flow is open if the status is \<open>Ok\<close>, and otherwise the error
  names the status and the agent's message.
\<close>

definition writes_succeed :: "os \<Rightarrow> bool" where
  "writes_succeed os \<longleftrightarrow> (\<forall>h bs. os_write os h bs = Done ()) \<and> (\<forall>h c. os_unit os h c = Done ())"

lemma host_dial_writable:
  assumes "writes_succeed os"
  shows "host_dial os cfg h = (Done (), h @ take 2 (host_round cfg))"
  using host_dial_first_success [of 0 os cfg h] assms
  by (simp add: dial_outcome_def writes_succeed_def after_attempts_def)

lemma host_handshake_writable:
  assumes "writes_succeed os" and "length (req_token req) \<le> 255"
    and "response_read_from stream_rx (inbox_view (os_inbox os) h) = (Done resp, s')"
  shows "\<exists>h'. host_handshake os req h = (Done resp, h')"
proof -
  have w: "request_write_to (peer_tx os) req h = (Done (), h @ [WriteAll (request_bytes req), Flush])"
    using assms(1,2)
    by (simp add: request_write_to_def and_then_def sys_def do_call_def writes_succeed_def)
  have "inbox_view (os_inbox os) (h @ [WriteAll (request_bytes req), Flush])
      = inbox_view (os_inbox os) h"
    using request_write_sends [OF w] by simp
  then obtain h' where
      "response_read_from (peer_rx os) (h @ [WriteAll (request_bytes req), Flush]) = (Done resp, h')"
    using reads_asD [OF peer.response_reads_as, of os "h @ [WriteAll (request_bytes req), Flush]"]
      assms(3)
    by (metis fst_conv prod.collapse)
  with w show ?thesis
    by (simp add: host_handshake_def and_then_Done)
qed

lemma host_open_answered:
  assumes w: "writes_succeed os" and short: "length (hs_token cfg) \<le> 255"
    and inbox: "os_inbox os = stream_of (response_bytes rsp @ rest) e"
  shows "fst (host_open os cfg c target []) = (if rsp_status rsp = Ok then Done ()
     else Failed (Refused (host_refusal target (received_response rsp))))"
proof -
  let ?req = "host_request cfg c target"
  let ?h = "take 2 (host_round cfg) @ (if hs_tcp_nodelay cfg then [SetNodelay True] else [])
    @ [Timer (unat (hs_connect_timeout_ms cfg))]"
  have "\<forall>c \<in> set ?h. silent c" by (auto simp: host_round_def)
  from silent_keeps [OF this, of os "[]" "os_inbox os"] inbox
  have "response_read_from stream_rx (inbox_view (os_inbox os) ?h)
      = (Done (received_response rsp), stream_of rest e)"
    by (simp add: response_read_write)
  from host_handshake_writable [OF w _ this, of ?req] short obtain h' where
      "host_handshake os ?req ?h = (Done (received_response rsp), h')"
    by (auto simp: host_request_def)
  with w show ?thesis
    by (cases "hs_tcp_nodelay cfg")
      (simp_all add: host_open_def host_conclude_def host_set_nodelay_def host_dial_writable [OF w] and_then_Done ignore_def do_call_def
        sys_def attempt_def with_timeout_def timeout_def writes_succeed_def and_then_def ret_def
        raise_def received_response_def)
qed

subsection \<open>Properties of a flow\<close>

lemma host_open_token:
  assumes "host_open os cfg c target h = (Done (), h')"
  shows "length (hs_token cfg) \<le> 255"
proof -
  from assms obtain u v h1 h2 h3 r where "host_dial os cfg h = (Done u, h1)"
    and "host_set_nodelay os cfg h1 = (Done v, h2)"
    and shake: "with_timeout (unat (hs_connect_timeout_ms cfg))
        (host_handshake os (host_request cfg c target)) h2
          = (Done r :: (open_error, _) outcome, h3)"
    and r: "host_conclude target r h3 = (Done (), h')"
    unfolding host_open_def
    by (elim and_then_DoneD) blast
  from r obtain resp where "r = Some (Inr resp)"
    by (auto simp: host_conclude_def split: option.splits sum.splits if_splits)
  from with_timeout_SomeD [OF shake [unfolded this]] obtain h4 where
      "request_write_to (peer_tx os) (host_request cfg c target)
        (h2 @ [Timer (unat (hs_connect_timeout_ms cfg))]) = (Done (), h4)"
    by (auto simp: host_handshake_def elim: and_then_DoneD)
  from request_write_sends [OF this] show ?thesis by (simp add: host_request_def)
qed

lemma host_open_sends:
  assumes "writes_succeed os" and "length (hs_token cfg) \<le> 255"
  shows "sent_to_peer os (snd (host_open os cfg c target [])) = request_bytes (host_request cfg c target)"
proof -
  let ?req = "host_request cfg c target"
  let ?h = "take 2 (host_round cfg) @ (if hs_tcp_nodelay cfg then [SetNodelay True] else [])
    @ [Timer (unat (hs_connect_timeout_ms cfg))]"
  let ?sent = "?h @ [WriteAll (request_bytes ?req), Flush]"
  have w: "request_write_to (peer_tx os) ?req ?h = (Done (), ?sent)"
    using assms
    by (simp add: request_write_to_def and_then_def sys_def do_call_def writes_succeed_def
        host_request_def)
  obtain r h' where read: "response_read_from (peer_rx os) ?sent = (r, h')"
    by (cases "response_read_from (peer_rx os) ?sent")
  have quiet: "\<forall>c \<in> set ?h. silent c" by (auto simp: host_round_def)
  have "snd (host_open os cfg c target []) = h'"
    using assms(1) w read
    by (cases r; cases "hs_tcp_nodelay cfg")
      (simp_all add: host_open_def host_conclude_def host_set_nodelay_def
        host_dial_writable [OF assms(1)] and_then_Done ignore_def do_call_def sys_def attempt_def
        with_timeout_def timeout_def writes_succeed_def and_then_def ret_def raise_def
        host_handshake_def)
  with response_read_peer(2) [OF read] request_write_sends [OF w] silent_keeps [OF quiet, of os "[]"]
  show ?thesis by simp
qed

lemma willing_writes_succeed: "writes_succeed (willing_os inbox out)"
  by (simp add: writes_succeed_def willing_os_def)

lemma host_sample_open:
  "fst (host_open (willing_os (stream_of (response_bytes response_ok) Stalls) [])
     (host_server host_sample_config) ConnectTcp (Ip (SA4 0x0A000001 80)) []) = Done ()"
  using host_open_answered [OF willing_writes_succeed, of "host_server host_sample_config"
      "stream_of (response_bytes response_ok) Stalls" "[]" response_ok "[]" Stalls]
  by (simp add: host_sample_config_def lit_def willing_os_def response_ok_def)

text \<open>
  C24: a flow that the host hands out as open is one for which the agent was sent exactly one
  request, the configured token and the flow's target in it, and answered it with success.
\<close>

theorem host_open_faithful:
  assumes "fst (host_open os cfg c target []) = Done ()"
  shows "sent_to_peer os (snd (host_open os cfg c target [])) =
      request_bytes \<lparr>req_cmd = c, req_token = hs_token cfg, req_target = target\<rparr> \<and>
    (\<exists>rsp s'. response_read_from stream_rx (os_inbox os) = (Done rsp, s') \<and> rsp_status rsp = Ok)"
proof -
  from assms obtain h' where run: "host_open os cfg c target [] = (Done (), h')"
    by (metis prod.collapse)
  then obtain rsp where "sent_to_peer os h' = request_bytes (host_request cfg c target)"
      "response_read_from stream_rx (os_inbox os) = (Done rsp, inbox_view (os_inbox os) h')"
      "rsp_status rsp = Ok"
    using host_open_DoneD [OF run] by auto
  with run show ?thesis by (auto simp: host_request_def)
qed

theorem host_open_faithful_witness:
  "let os = willing_os (stream_of (response_bytes response_ok) Stalls) [];
       cfg = host_server host_sample_config; target = Ip (SA4 0x0A000001 80) in
   sent_to_peer os (snd (host_open os cfg ConnectTcp target [])) =
      request_bytes \<lparr>req_cmd = ConnectTcp, req_token = hs_token cfg, req_target = target\<rparr> \<and>
    (\<exists>rsp s'. response_read_from stream_rx (os_inbox os) = (Done rsp, s') \<and> rsp_status rsp = Ok)"
  unfolding Let_def by (rule host_open_faithful [OF host_sample_open])

text \<open>
  C25: the host waits for its agent: dialling ends exactly if some attempt connects, with the
  first that does, after a pause behind every failed one; an agent that never answers is dialled
  for ever.
\<close>

theorem host_dial_persists:
  assumes "\<forall>m. dial_outcome os cfg h m \<noteq> Panicked"
  shows "((\<exists>h'. host_dial os cfg h = (Done (), h')) \<longleftrightarrow> (\<exists>n. dial_outcome os cfg h n = Done ())) \<and>
    (host_dial os cfg h = (Done (), h') \<longrightarrow>
      (\<exists>n. dial_outcome os cfg h n = Done () \<and> (\<forall>m < n. dial_outcome os cfg h m \<noteq> Done ()) \<and>
        h' = after_attempts cfg h n @ take 2 (host_round cfg)))"
  using host_dial_ends_iff [OF assms] host_dial_DoneD [of os cfg h h'] by blast

theorem host_dial_persists_witness:
  "let cfg = host_server host_sample_config in
    \<exists>n. host_dial (willing_os (stream_of [] Stalls) []) cfg []
      = (Done (), after_attempts cfg [] n @ take 2 (host_round cfg))"
proof -
  let ?cfg = "host_server host_sample_config" and ?os = "willing_os (stream_of [] Stalls) []"
  have good: "\<forall>m. dial_outcome ?os ?cfg [] m \<noteq> Panicked" "dial_outcome ?os ?cfg [] 0 = Done ()"
    by (simp_all add: dial_outcome_def willing_os_def)
  with host_dial_persists [OF good(1)] obtain h' where run: "host_dial ?os ?cfg [] = (Done (), h')"
    by blast
  with host_dial_persists [OF good(1), of h'] show ?thesis unfolding Let_def by metis
qed

text \<open>
  The host does not check its token against the 255 bytes of the wire: a configuration with a
  longer one is as valid as with any other, and then no flow ever opens.
\<close>

lemma host_token_unchecked:
  "host_validate (cfg\<lparr>host_server := (host_server cfg)\<lparr>hs_token := t\<rparr>\<rparr>) = host_validate cfg \<and>
   (255 < length t \<longrightarrow> fst (host_open os ((host_server cfg)\<lparr>hs_token := t\<rparr>) c target h) \<noteq> Done ())"
proof -
  have "fst (host_open os ((host_server cfg)\<lparr>hs_token := t\<rparr>) c target h) \<noteq> Done ()"
    if "255 < length t"
    using host_open_token [of os "(host_server cfg)\<lparr>hs_token := t\<rparr>" c target h] that
    by (cases "host_open os ((host_server cfg)\<lparr>hs_token := t\<rparr>) c target h") auto
  then show ?thesis by (simp add: host_validate_def)
qed

lemma host_token_unchecked_witness:
  "host_validate (host_sample_config\<lparr>host_server :=
       (host_server host_sample_config)\<lparr>hs_token := replicate 256 0x61\<rparr>\<rparr>) = Inr () \<and>
   fst (host_open (willing_os (stream_of (response_bytes response_ok) Stalls) [])
     ((host_server host_sample_config)\<lparr>hs_token := replicate 256 0x61\<rparr>) ConnectTcp
     (Ip (SA4 0x0A000001 80)) []) \<noteq> Done ()"
proof -
  have "host_validate host_sample_config = Inr ()" by code_simp
  with host_token_unchecked [where cfg = host_sample_config and t = "replicate 256 0x61"]
  show ?thesis by simp
qed

end
