(* ===== verification/Host_Dns.thy ===== *)
theory Host_Dns
  imports Host_Tunnel "HOL-Library.Sublist"
begin

text \<open>
  \<open>crates/host/src/dns.rs\<close>: the DNS forwarder. A query is tried against the upstream resolvers in
  turn, each over a flow of its own through the agent; since every attempt opens its own connection,
  the environment of attempt \<open>i\<close> is an \<open>os\<close> of its own, \<open>sess i\<close>.
\<close>

datatype dns_error =
    NoUpstream
  | OpenFailed open_error
  | DnsIo io_error
  | DnsTimedOut bytes
  | BindingFailed bytes io_error

definition DNS_BUF :: nat where
  "DNS_BUF = 4096"

definition dns_query_one ::
    "os \<Rightarrow> host_server_config \<Rightarrow> socket_addr \<Rightarrow> bytes \<Rightarrow> nat \<Rightarrow> (dns_error, bytes) io" where
  "dns_query_one os cfg upstream query deadline =
     and_then (map_err OpenFailed (host_open os cfg BindUdp (Ip upstream))) (\<lambda>_.
     and_then (map_err DnsIo (write_datagram (peer_tx os) query)) (\<lambda>_.
     and_then (with_timeout deadline (read_datagram (peer_rx os))) (\<lambda>r.
       case r of
         None \<Rightarrow> raise (DnsTimedOut (lit ''timed out waiting for '' @ show_socket_addr upstream))
       | Some (Inl err) \<Rightarrow> raise (DnsIo err)
       | Some (Inr buf) \<Rightarrow> ret buf)))"

fun dns_resolve ::
    "(nat \<Rightarrow> os) \<Rightarrow> host_server_config \<Rightarrow> nat \<Rightarrow> bytes \<Rightarrow> nat \<Rightarrow> socket_addr list \<Rightarrow> dns_error option \<Rightarrow>
     (dns_error, bytes) outcome" where
  "dns_resolve sess cfg deadline query i [] last_err =
     Failed (case last_err of Some err \<Rightarrow> err | None \<Rightarrow> NoUpstream)"
| "dns_resolve sess cfg deadline query i (upstream # rest) last_err =
     (case fst (dns_query_one (sess i) cfg upstream query deadline []) of
        Done answer \<Rightarrow> Done answer
      | Failed err \<Rightarrow> dns_resolve sess cfg deadline query (Suc i) rest (Some err)
      | Pending \<Rightarrow> Pending
      | Panicked \<Rightarrow> Panicked)"

text \<open>
  The server, over what \<open>recv_from\<close> returns: an error is skipped, a query (cut to the buffer) is
  answered to its sender if it resolves. \<open>sess q\<close> is the environment of query number \<open>q\<close>.
\<close>

fun dns_answers ::
    "(nat \<Rightarrow> nat \<Rightarrow> os) \<Rightarrow> host_server_config \<Rightarrow> dns_config \<Rightarrow> nat \<Rightarrow>
     (io_error + bytes \<times> socket_addr) list \<Rightarrow> (bytes \<times> socket_addr) list" where
  "dns_answers sess cfg dns q [] = []"
| "dns_answers sess cfg dns q (Inl err # rest) = dns_answers sess cfg dns q rest"
| "dns_answers sess cfg dns q (Inr (datagram, from) # rest) =
     (case dns_resolve (sess q) cfg (unat (dns_timeout_ms dns)) (take DNS_BUF datagram) 0
         (dns_upstream dns) None of
        Done answer \<Rightarrow> [(answer, from)]
      | _ \<Rightarrow> []) @ dns_answers sess cfg dns (Suc q) rest"

definition dns_serve ::
    "(nat \<Rightarrow> nat \<Rightarrow> os) \<Rightarrow> host_server_config \<Rightarrow> dns_config \<Rightarrow> io_error + unit \<Rightarrow>
     (io_error + bytes \<times> socket_addr) list \<Rightarrow> dns_error + (bytes \<times> socket_addr) list" where
  "dns_serve sess cfg dns bound received =
     (if dns_upstream dns = [] then Inl NoUpstream
      else case bound of
        Inl err \<Rightarrow> Inl (BindingFailed
          (lit ''binding DNS forwarder on '' @ show_socket_addr (dns_listen dns)) err)
      | Inr _ \<Rightarrow> Inr (dns_answers sess cfg dns 0 received))"

subsection \<open>One upstream\<close>

text \<open>Over a flow that opens, the answer is the first datagram that comes back.\<close>

lemma dns_query_one_answered:
  assumes w: "writes_succeed os" and short: "length (hs_token cfg) \<le> 255"
    and inbox: "os_inbox os = stream_of (response_bytes response_ok @ datagram_bytes answer @ rest) e"
    and good: "good_datagram answer" "good_datagram query"
  shows "fst (dns_query_one os cfg upstream query deadline []) = Done answer"
proof -
  obtain h1 where opened: "host_open os cfg BindUdp (Ip upstream) [] = (Done (), h1)"
    using host_open_answered [OF w short inbox, of BindUdp "Ip upstream"]
    by (cases "host_open os cfg BindUdp (Ip upstream) []") (simp add: response_ok_def)
  let ?h2 = "h1 @ [WriteAll (datagram_bytes query)]"
  obtain rsp where "response_read_from stream_rx (inbox_view (os_inbox os) [])
      = (Done rsp, inbox_view (os_inbox os) h1)"
    using host_open_DoneD [OF opened] by blast
  then have "inbox_view (os_inbox os) (?h2 @ [Timer deadline])
      = stream_of (datagram_bytes answer @ rest) e"
    using inbox_view_snoc [of "os_inbox os" ?h2 "Timer deadline"]
      inbox_view_snoc [of "os_inbox os" h1 "WriteAll (datagram_bytes query)"]
    by (simp add: inbox response_read_write)
  then have "fst (read_datagram (peer_rx os) (?h2 @ [Timer deadline])) = Done answer"
    using reads_asD [OF peer.datagram_reads_as, of os "?h2 @ [Timer deadline]"]
      datagram_dec_enc [OF good(1), of rest e]
    by (metis fst_conv)
  then obtain h3 where "read_datagram (peer_rx os) (?h2 @ [Timer deadline]) = (Done answer, h3)"
    by (metis prod.collapse)
  moreover have "write_datagram (peer_tx os) query h1 = (Done (), ?h2)"
    using w good(2) by (simp add: write_datagram_def good_datagram_def sys_def writes_succeed_def)
  ultimately show ?thesis
    using opened
    by (simp add: dns_query_one_def and_then_def map_err_def with_timeout_def timeout_def sys_def
        ret_def)
qed

subsection \<open>Fail-over\<close>

text \<open>
  The answer is that of the first upstream that gives one, all before it having failed; and it
  fails only when all did, with the error of the last.
\<close>

lemma dns_resolve_Done:
  assumes "dns_resolve sess cfg d q i ups l = Done answer"
  shows "\<exists>k < length ups. fst (dns_query_one (sess (i + k)) cfg (ups ! k) q d []) = Done answer \<and>
    (\<forall>j < k. \<exists>err. fst (dns_query_one (sess (i + j)) cfg (ups ! j) q d []) = Failed err)"
  using assms
proof (induction ups arbitrary: i l)
  case Nil
  then show ?case by simp
next
  case (Cons up ups)
  show ?case
  proof (cases "fst (dns_query_one (sess i) cfg up q d [])")
    case (Done a)
    with Cons.prems show ?thesis by (intro exI [of _ 0]) auto
  next
    case (Failed err)
    with Cons.prems Cons.IH [of "Suc i" "Some err"] obtain k where
      "k < length ups" "fst (dns_query_one (sess (Suc i + k)) cfg (ups ! k) q d []) = Done answer"
      "\<forall>j < k. \<exists>err. fst (dns_query_one (sess (Suc i + j)) cfg (ups ! j) q d []) = Failed err"
      by auto
    with Failed show ?thesis
      by (intro exI [of _ "Suc k"]) (auto simp: less_Suc_eq_0_disj)
  qed (use Cons.prems in auto)
qed

lemma dns_resolve_Failed:
  assumes "dns_resolve sess cfg d q i ups l = Failed err"
  shows "(\<forall>j < length ups. \<exists>e. fst (dns_query_one (sess (i + j)) cfg (ups ! j) q d []) = Failed e) \<and>
    (ups \<noteq> [] \<longrightarrow>
      fst (dns_query_one (sess (i + (length ups - 1))) cfg (last ups) q d []) = Failed err)"
  using assms
proof (induction ups arbitrary: i l)
  case Nil
  then show ?case by simp
next
  case (Cons up ups)
  show ?case
  proof (cases "fst (dns_query_one (sess i) cfg up q d [])")
    case (Failed e)
    with Cons.prems have "dns_resolve sess cfg d q (Suc i) ups (Some e) = Failed err" by simp
    with Cons.IH [of "Suc i" "Some e"] Failed show ?thesis
      by (cases ups) (auto simp: less_Suc_eq_0_disj)
  qed (use Cons.prems in auto)
qed

text \<open>
  The deadline covers the wait for the answer only: an agent that cannot be dialled is waited for,
  so the query stays pending and no other upstream is asked.
\<close>

lemma map_err_Pending: "m h = (Pending, h') \<Longrightarrow> map_err g m h = (Pending, h')"
  by (simp add: map_err_def)

lemma dns_agent_down:
  assumes down: "\<forall>n. dial_outcome (sess i) cfg [] n \<noteq> Done () \<and> dial_outcome (sess i) cfg [] n \<noteq> Panicked"
  shows "dns_resolve sess cfg d q i (up # ups) l = Pending"
proof -
  have "host_dial (sess i) cfg [] = (Pending, [])"
  proof (cases "loop_until (host_dial_once (sess i) cfg) []")
    case None
    then show ?thesis by (simp add: host_dial_def loop_def)
  next
    case (Some y)
    obtain r t where "y = (r, t)" by (cases y)
    with Some obtain n s where s: "rounds (host_dial_once (sess i) cfg) n [] = Some s"
        "last_round (fst (host_dial_once (sess i) cfg s)) = Some r"
      using loop_until_SomeD by metis
    with rounds_unique_dial [of "sess i" cfg n "[]" 0 s] have "s = after_attempts cfg [] n"
      by (simp add: after_attempts_def)
    with s(2) down show ?thesis
      by (auto simp: host_dial_once_run split: outcome.splits)
  qed
  then have "fst (dns_query_one (sess i) cfg up q d []) = Pending"
    by (simp add: dns_query_one_def host_open_def and_then_Pending map_err_Pending)
  then show ?thesis by simp
qed

text \<open>Answers go to clients that asked, each query answered at most once and in order.\<close>

lemma dns_answers_senders:
  "subseq (map snd (dns_answers sess cfg dns q received))
     (concat (map (\<lambda>r. case r of Inl _ \<Rightarrow> [] | Inr (_, from) \<Rightarrow> [from]) received))"
proof (induction sess cfg dns q received rule: dns_answers.induct)
  case (3 sess cfg dns q datagram "from" rest)
  then show ?case by (auto split: outcome.split)
qed auto

subsection \<open>Properties of the forwarder\<close>

definition example_session :: "nat \<Rightarrow> os" where
  "example_session i = willing_os
     (stream_of (if i = 0 then response_bytes (response_err Unreachable [])
        else response_bytes response_ok @ datagram_bytes [1, 2]) Stalls) []"

lemma example_writes_succeed: "writes_succeed (example_session i)"
  unfolding example_session_def by (rule willing_writes_succeed)

lemma example_failover:
  "dns_resolve example_session (host_server host_sample_config) 5000 [5] 0
     [SA4 0x08080808 53, SA4 0x01010101 53] None = Done [1, 2]"
proof -
  let ?cfg = "host_server host_sample_config"
  have "fst (host_open (example_session 0) ?cfg BindUdp (Ip (SA4 0x08080808 53)) [])
      = Failed (Refused (host_refusal (Ip (SA4 0x08080808 53))
          (received_response (response_err Unreachable []))))"
    by (subst host_open_answered [OF example_writes_succeed, where e = Stalls and rest = "[]"
          and rsp = "response_err Unreachable []"])
      (simp_all add: host_sample_config_def lit_def example_session_def willing_os_def,
       simp add: response_err_def)
  then have "\<exists>err. fst (dns_query_one (example_session 0) ?cfg (SA4 0x08080808 53) [5] 5000 [])
      = Failed err"
    by (cases "host_open (example_session 0) ?cfg BindUdp (Ip (SA4 0x08080808 53)) []")
      (simp add: dns_query_one_def and_then_def map_err_def)
  moreover have "fst (dns_query_one (example_session 1) ?cfg (SA4 0x01010101 53) [5] 5000 []) = Done [1, 2]"
    by (rule dns_query_one_answered [OF example_writes_succeed, where e = Stalls and rest = "[]"])
      (simp_all add: host_sample_config_def lit_def example_session_def willing_os_def
        good_datagram_def MAX_DATAGRAM_def)
  ultimately show ?thesis by auto
qed



text \<open>
  The DNS deadline covers the wait for an answer only. While the agent cannot be dialled, a
  query stays pending, whatever the deadline, and the other upstreams are not asked.
\<close>

lemma dns_waits_for_agent:
  assumes "\<forall>n. dial_outcome (sess i) cfg [] n \<noteq> Done () \<and> dial_outcome (sess i) cfg [] n \<noteq> Panicked"
  shows "dns_resolve sess cfg d q i (up # ups) l = Pending"
  using assms by (rule dns_agent_down)

lemma dns_waits_for_agent_witness:
  "dns_resolve (\<lambda>i. (willing_os (stream_of [] Stalls) [])\<lparr>os_unit := (\<lambda>h c. Pending)\<rparr>)
     (host_server host_sample_config) 5000 [5] 0 [SA4 0x08080808 53] None = Pending"
  by (rule dns_waits_for_agent) (simp add: dial_outcome_def)

text \<open>
  The forwarder answers only clients that asked, each query at most once and in the order of the
  queries, whatever the upstreams do.
\<close>

lemma dns_replies_to_senders:
  "subseq (map snd (dns_answers sess cfg dns q received))
     (concat (map (\<lambda>r. case r of Inl _ \<Rightarrow> [] | Inr (_, from) \<Rightarrow> [from]) received))"
  by (rule dns_answers_senders)

end
