(* ===== verification/Text_Parse.thy ===== *)
theory Text_Parse
  imports Net
begin

text \<open>
  The standard library's text operations that \<open>lookup\<close> of \<open>crates/host/src/route.rs\<close> takes the
  output of \<open>ip route get\<close> apart with: \<open>lines().next()\<close>, \<open>split_whitespace\<close>, and
  \<open>str::parse::<IpAddr>\<close>. Text is UTF-8, so a character is what \<open>utf8_step\<close> takes.
\<close>

subsection \<open>Lines and tokens\<close>

text \<open>The first line, without its line feed and a carriage return before it.\<close>

definition first_line :: "bytes \<Rightarrow> bytes option" where
  "first_line bs =
     (if bs = [] then None
      else let l = takeWhile (\<lambda>b. b \<noteq> 10) bs in
        Some (if length l < length bs \<and> l \<noteq> [] \<and> last l = 13 then butlast l else l))"

text \<open>\<open>word\<close> is the token being collected; it ends at a white-space character.\<close>

function split_ws :: "bytes \<Rightarrow> bytes \<Rightarrow> bytes list" where
  "split_ws bs word =
     (if bs = [] then (if word = [] then [] else [word])
      else let n = fst (utf8_step bs); c = take n bs; rest = drop n bs in
        if c \<in> set whitespace_seqs
        then (if word = [] then split_ws rest [] else word # split_ws rest [])
        else split_ws rest (word @ c))"
  by pat_completeness auto
termination
  by (relation "measure (\<lambda>(bs, word). length bs)") (auto simp: utf8_step_progress)

declare split_ws.simps [simp del]

definition split_whitespace :: "bytes \<Rightarrow> bytes list" where
  "split_whitespace bs = split_ws bs []"

text \<open>\<open>trim\<close>: white space off both ends.\<close>

function trim_start :: "bytes \<Rightarrow> bytes" where
  "trim_start bs =
     (if bs = [] then []
      else let n = fst (utf8_step bs) in
        if take n bs \<in> set whitespace_seqs then trim_start (drop n bs) else bs)"
  by pat_completeness auto
termination
  by (relation "measure length") (auto simp: utf8_step_progress)

function trim_end :: "bytes \<Rightarrow> bytes" where
  "trim_end bs =
     (if trim_is_empty bs then []
      else let n = fst (utf8_step bs) in take n bs @ trim_end (drop n bs))"
  by pat_completeness auto
termination
proof (relation "measure length")
  fix bs n
  assume "\<not> trim_is_empty bs" "n = fst (utf8_step bs)"
  then show "(drop n bs, bs) \<in> measure length"
    by (cases "bs = []") (auto simp: utf8_step_progress)
qed simp

declare trim_start.simps [simp del] trim_end.simps [simp del]

definition trim :: "bytes \<Rightarrow> bytes" where
  "trim bs = trim_end (trim_start bs)"

text \<open>Printable ASCII without the space, of which the tokens of \<open>ip route get\<close> consist.\<close>

definition plain :: "bytes \<Rightarrow> bool" where
  "plain w \<longleftrightarrow> (\<forall>b \<in> set w. 0x21 \<le> b \<and> b < 0x80)"

definition token :: "bytes \<Rightarrow> bool" where
  "token w \<longleftrightarrow> w \<noteq> [] \<and> plain w"

lemma ascii_step: "b < 0x80 \<Longrightarrow> utf8_step (b # bs) = (1, True)"
  by (simp add: utf8_step_def safe_get_def utf8_char_width_def)

lemma plain_not_space: "0x21 \<le> b \<Longrightarrow> [b] \<notin> set whitespace_seqs"
  by (auto simp: whitespace_seqs_def)

lemma split_ws_plain:
  assumes "plain w"
  shows "split_ws (w @ rest) acc = split_ws rest (acc @ w)"
  using assms
proof (induction w arbitrary: acc)
  case (Cons b w)
  then have b: "0x21 \<le> b" "b < 0x80" and "plain w" by (auto simp: plain_def)
  have "split_ws ((b # w) @ rest) acc = split_ws (w @ rest) (acc @ [b])"
    using ascii_step [OF b(2), of "w @ rest"] plain_not_space [OF b(1)]
    by (subst split_ws.simps) (simp add: Let_def)
  with Cons.IH [OF \<open>plain w\<close>, of "acc @ [b]"] show ?case by simp
qed simp

lemma split_ws_space: "acc \<noteq> [] \<Longrightarrow> split_ws (0x20 # rest) acc = acc # split_ws rest []"
  by (subst split_ws.simps) (simp add: Let_def ascii_step whitespace_seqs_def)

lemma split_ws_Nil: "split_ws [] acc = (if acc = [] then [] else [acc])"
  by (simp add: split_ws.simps)

lemma lit_space: "lit '' '' = [0x20]"
  by (simp add: lit_def)

lemma split_whitespace_join:
  assumes "\<forall>w \<in> set ws. token w"
  shows "split_whitespace (join (lit '' '') ws) = ws"
proof -
  have "split_ws (join (lit '' '') ws) [] = ws"
    using assms
  proof (induction "lit '' ''" ws rule: join.induct)
    case 1
    then show ?case by (simp add: split_ws_Nil)
  next
    case (2 w)
    then show ?case
      using split_ws_plain [of w "[]" "[]"] by (simp add: split_ws_Nil token_def)
  next
    case (3 w v ws)
    then have "w \<noteq> []" "plain w" by (auto simp: token_def)
    then have "split_ws (w @ 0x20 # join (lit '' '') (v # ws)) []
        = w # split_ws (join (lit '' '') (v # ws)) []"
      using split_ws_plain [of w "0x20 # join (lit '' '') (v # ws)" "[]"]
      by (simp add: split_ws_space)
    with 3 show ?case by (simp add: lit_space)
  qed
  then show ?thesis by (simp add: split_whitespace_def)
qed

subsection \<open>Parsing addresses\<close>

text \<open>A parser takes what it recognises off the front of its input.\<close>

type_synonym 'a parser = "bytes \<Rightarrow> ('a \<times> bytes) option"

definition given_char :: "u8 \<Rightarrow> unit parser" where
  "given_char c bs = (case bs of b # rest \<Rightarrow> if b = c then Some ((), rest) else None | [] \<Rightarrow> None)"

definition digit_value :: "nat \<Rightarrow> u8 \<Rightarrow> nat option" where
  "digit_value radix b =
     (let v = (if 48 \<le> b \<and> b \<le> 57 then unat b - 48
        else if 97 \<le> b \<and> b \<le> 122 then unat b - 87
        else if 65 \<le> b \<and> b \<le> 90 then unat b - 55 else 36)
      in if v < radix then Some v else None)"

fun read_digits :: "nat \<Rightarrow> bytes \<Rightarrow> nat list \<times> bytes" where
  "read_digits radix [] = ([], [])"
| "read_digits radix (b # bs) = (case digit_value radix b of
      None \<Rightarrow> ([], b # bs)
    | Some d \<Rightarrow> let (ds, rest) = read_digits radix bs in (d # ds, rest))"

definition digits_value :: "nat \<Rightarrow> nat list \<Rightarrow> nat" where
  "digits_value radix ds = foldl (\<lambda>v d. v * radix + d) 0 ds"

text \<open>\<open>read_number\<close>: some digits, not too many, no leading zero unless allowed, below a bound.\<close>

definition read_number :: "nat \<Rightarrow> nat \<Rightarrow> bool \<Rightarrow> nat \<Rightarrow> nat parser" where
  "read_number radix max_digits allow_zero_prefix bound bs =
     (let (ds, rest) = read_digits radix bs in
      if ds = [] \<or> length ds > max_digits \<or>
         (\<not> allow_zero_prefix \<and> hd ds = 0 \<and> length ds > 1) \<or> bound \<le> digits_value radix ds
      then None else Some (digits_value radix ds, rest))"

definition read_separator :: "u8 \<Rightarrow> nat \<Rightarrow> 'a parser \<Rightarrow> 'a parser" where
  "read_separator sep index inner bs =
     (if index > 0 then (case given_char sep bs of None \<Rightarrow> None | Some (_, rest) \<Rightarrow> inner rest)
      else inner bs)"

fun read_octets :: "nat \<Rightarrow> nat \<Rightarrow> u8 list parser" where
  "read_octets i 0 bs = Some ([], bs)"
| "read_octets i (Suc n) bs =
     (case read_separator 0x2E i (read_number 10 3 False 256) bs of
        None \<Rightarrow> None
      | Some (v, rest) \<Rightarrow> (case read_octets (Suc i) n rest of
          None \<Rightarrow> None
        | Some (vs, rest') \<Rightarrow> Some (of_nat v # vs, rest')))"

definition read_ipv4 :: "u32 parser" where
  "read_ipv4 bs = (case read_octets 0 4 bs of
      None \<Rightarrow> None
    | Some (os, rest) \<Rightarrow> Some (from_be os, rest))"

text \<open>
  \<open>read_groups\<close>: the groups read, and whether the last two of them came from an embedded IPv4
  address. \<open>i\<close> is the index of the next group, \<open>room\<close> how many slots are left.
\<close>

fun read_groups :: "nat \<Rightarrow> nat \<Rightarrow> bytes \<Rightarrow> u16 list \<times> bool \<times> bytes" where
  "read_groups i 0 bs = ([], False, bs)"
| "read_groups i (Suc room) bs =
     (case (if room > 0 then read_separator 0x3A i read_ipv4 bs else None) of
        Some (v4, rest) \<Rightarrow> ([ucast (drop_bit 16 v4), ucast v4], True, rest)
      | None \<Rightarrow> (case read_separator 0x3A i (read_number 16 4 True 65536) bs of
          None \<Rightarrow> ([], False, bs)
        | Some (g, rest) \<Rightarrow>
            let (gs, v4, rest') = read_groups (Suc i) room rest in (of_nat g # gs, v4, rest')))"

definition from_segments :: "u16 list \<Rightarrow> u128" where
  "from_segments gs = from_be (concat (map (be_octets 2) gs))"

definition read_ipv6 :: "u128 parser" where
  "read_ipv6 bs =
     (let (head, head_ipv4, rest) = read_groups 0 8 bs in
      if length head = 8 then Some (from_segments head, rest)
      else if head_ipv4 then None
      else case given_char 0x3A rest of
        None \<Rightarrow> None
      | Some (_, rest) \<Rightarrow> (case given_char 0x3A rest of
          None \<Rightarrow> None
        | Some (_, rest) \<Rightarrow>
            let (tail, _, rest) = read_groups 0 (8 - (length head + 1)) rest in
            Some (from_segments (head @ replicate (8 - length head - length tail) 0 @ tail), rest)))"

definition read_ip :: "ip_addr parser" where
  "read_ip bs = (case read_ipv4 bs of
      Some (a, rest) \<Rightarrow> Some (V4 a, rest)
    | None \<Rightarrow> (case read_ipv6 bs of Some (a, rest) \<Rightarrow> Some (V6 a, rest) | None \<Rightarrow> None))"

text \<open>\<open>parse::<IpAddr>()\<close>: all of the text has to be recognised.\<close>

definition parse_ip :: "bytes \<Rightarrow> ip_addr option" where
  "parse_ip bs = (case read_ip bs of Some (a, []) \<Rightarrow> Some a | _ \<Rightarrow> None)"

text \<open>What is displayed is read back, for IPv4.\<close>

lemma digit_value_digit: "d < 10 \<Longrightarrow> digit_value 10 (digit d) = Some d"
proof -
  have "\<forall>d \<in> set [0..<10]. digit_value 10 (digit d) = Some d" by code_simp
  then show "d < 10 \<Longrightarrow> digit_value 10 (digit d) = Some d" by simp
qed

definition octet_digits :: "nat \<Rightarrow> nat list" where
  "octet_digits n =
     (if n < 10 then [n] else if n < 100 then [n div 10, n mod 10]
      else [n div 100, n div 10 mod 10, n mod 10])"

lemma div_100: "n div 100 = n div 10 div (10 :: nat)"
  by (simp add: div_mult2_eq [symmetric])

lemma show_base_10:
  "n < 10 \<Longrightarrow> show_base 10 n = [digit n]"
  "10 \<le> n \<Longrightarrow> show_base 10 n = show_base 10 (n div 10) @ [digit (n mod 10)]"
  by (subst show_base.simps, simp)+

lemma show_octet:
  assumes "n < 1000"
  shows "show_dec n = map digit (octet_digits n)"
proof -
  consider "n < 10" | "10 \<le> n" "n < 100" | "100 \<le> n" by linarith
  then show ?thesis
  proof cases
    case 3
    then have "10 \<le> n div 10" "n div 10 div 10 < 10" using assms by auto
    then have "show_base 10 (n div 10) = [digit (n div 100), digit (n div 10 mod 10)]"
      by (simp add: show_base_10 div_100)
    with 3 show ?thesis by (simp add: show_dec_def octet_digits_def show_base_10(2))
  qed (simp_all add: show_dec_def octet_digits_def show_base_10)
qed

lemma octet_digits_facts:
  assumes "n < 1000"
  shows "\<forall>d \<in> set (octet_digits n). d < 10" "digits_value 10 (octet_digits n) = n"
    "octet_digits n \<noteq> []" "length (octet_digits n) \<le> 3"
    "hd (octet_digits n) = 0 \<Longrightarrow> length (octet_digits n) = 1"
proof -
  have "(n div 100 * 10 + n div 10 mod 10) * 10 + n mod 10 = n"
    by (simp only: div_100 div_mult_mod_eq)
  then show "digits_value 10 (octet_digits n) = n"
    by (auto simp: octet_digits_def digits_value_def)
qed (use assms in \<open>auto simp: octet_digits_def split: if_splits\<close>)

definition no_digit :: "bytes \<Rightarrow> bool" where
  "no_digit bs \<longleftrightarrow> (case bs of [] \<Rightarrow> True | b # _ \<Rightarrow> digit_value 10 b = None)"

lemma read_digits_digits:
  "\<forall>d \<in> set ds. d < 10 \<Longrightarrow> no_digit rest \<Longrightarrow> read_digits 10 (map digit ds @ rest) = (ds, rest)"
proof (induction ds)
  case Nil
  then show ?case by (cases rest) (auto simp: no_digit_def)
next
  case (Cons d ds)
  then show ?case by (simp add: digit_value_digit)
qed

lemma read_octet_show:
  assumes "n < 256" and "no_digit rest"
  shows "read_number 10 3 False 256 (show_dec n @ rest) = Some (n, rest)"
  using assms octet_digits_facts [of n]
  by (auto simp: read_number_def show_octet read_digits_digits)

lemma be_octets_4:
  fixes a :: u32
  obtains b0 b1 b2 b3 where "be_octets 4 a = [b0, b1, b2, b3]"
proof -
  have "length (be_octets 4 a) = 4" by simp
  then show thesis using that by (auto simp: numeral_eq_Suc length_Suc_conv)
qed

lemma read_ipv4_show: "no_digit rest \<Longrightarrow> read_ipv4 (show_ipv4 a @ rest) = Some (a, rest)"
proof -
  assume rest: "no_digit rest"
  obtain b0 b1 b2 b3 where oct: "be_octets 4 a = [b0, b1, b2, b3]" by (rule be_octets_4)
  have a: "from_be [b0, b1, b2, b3] = a"
    using from_be_octets [of 4 a] oct by simp
  have dot: "no_digit (0x2E # x)" for x by (simp add: no_digit_def digit_value_def)
  have four: "read_octets 0 4 bs = read_octets 0 (Suc (Suc (Suc (Suc 0)))) bs" for bs
    by (simp add: numeral_eq_Suc)
  have byte: "unat (b :: u8) < 256" for b using unsigned_less [of b] by simp
  have shown: "show_ipv4 a @ rest = show_dec (unat b0) @ 0x2E # show_dec (unat b1) @ 0x2E
      # show_dec (unat b2) @ 0x2E # show_dec (unat b3) @ rest"
    by (simp add: show_ipv4_def oct lit_def)
  show ?thesis
    unfolding read_ipv4_def shown
    by (simp add: four read_separator_def given_char_def read_octet_show byte dot rest a)
qed

lemma parse_ip_show_ipv4: "parse_ip (show_ip (V4 a)) = Some (V4 a)"
  using read_ipv4_show [of "[]" a] by (simp add: parse_ip_def read_ip_def no_digit_def)

subsection \<open>Properties\<close>

text \<open>
  Every IPv4 address survives printing and parsing: what the host writes on the command line of
  \<open>ip\<close> and reads from its output is the same address.
\<close>

lemma ipv4_text_roundtrip: "parse_ip (show_ip (V4 a)) = Some (V4 a)"
  by (rule parse_ip_show_ipv4)

end
