(* ===== verification/Routes.thy ===== *)
theory Routes
  imports Triples Text_Parse
begin

text \<open>
  What the route managers of the host agent and of the proxy client have in common. Both change the
  kernel's routing table by running a program and remember what they installed; both undo it when
  they are cleaned up. The contract \<open>route_manager\<close> is about the trace of programs run: the calls
  that undo something are, at the end, those of the successful installations, in reverse.
\<close>

datatype route_error =
    RunningProgram bytes io_error
  | ProgramFailed bytes bytes bytes
  | EmptyOutput bytes
  | NoDevice bytes bytes

definition run_program :: "os \<Rightarrow> bytes \<Rightarrow> bytes list \<Rightarrow> (io_error, run_output) io" where
  "run_program os p args = sys (RunProgram p args) (\<lambda>h. case os_run os h p args of
      Inl e \<Rightarrow> Failed e | Inr out \<Rightarrow> Done out)"

definition command_line :: "bytes \<Rightarrow> bytes list \<Rightarrow> bytes" where
  "command_line p args = p @ lit '' '' @ join (lit '' '') args"

text \<open>Running a program, and the standard output of one that succeeded.\<close>

definition run_checked :: "os \<Rightarrow> bytes \<Rightarrow> bytes list \<Rightarrow> (route_error, bytes) io" where
  "run_checked os p args =
     and_then (map_err (RunningProgram (command_line p args)) (run_program os p args)) (\<lambda>out.
       if \<not> out_success out then raise (ProgramFailed (command_line p args) (out_status out)
         (trim (from_utf8_lossy (out_stderr out))))
       else ret (from_utf8_lossy (out_stdout out)))"

definition run_ok :: "os \<Rightarrow> call list \<Rightarrow> call \<Rightarrow> bool" where
  "run_ok os h c = (case c of
      RunProgram p args \<Rightarrow>
        (case os_run os h p args of Inl e \<Rightarrow> False | Inr out \<Rightarrow> out_success out)
    | _ \<Rightarrow> False)"

lemma run_checked_run:
  "run_checked os p args h =
     (case os_run os h p args of
        Inl e \<Rightarrow> Failed (RunningProgram (command_line p args) e)
      | Inr out \<Rightarrow>
          if out_success out then Done (from_utf8_lossy (out_stdout out))
          else Failed (ProgramFailed (command_line p args) (out_status out)
            (trim (from_utf8_lossy (out_stderr out)))),
      h @ [RunProgram p args])"
  by (auto simp: run_checked_def run_program_def and_then_def map_err_def sys_def ret_def raise_def
      split: sum.splits)

subsection \<open>Actions that return no error\<close>

text \<open>
  The methods of a route manager return their error beside the manager, so the action itself does
  not fail; a clean-up that follows is reached.
\<close>

definition never_fails :: "('s, 'e, 'a) act \<Rightarrow> bool" where
  "never_fails m \<longleftrightarrow> (\<forall>s e. fst (m s) \<noteq> Failed e)"

named_theorems never_fails_intros "actions that return no error"

lemma never_fails_ret [never_fails_intros]: "never_fails (ret a)"
  by (simp add: never_fails_def ret_def)

lemma never_fails_panic [never_fails_intros]: "never_fails panic"
  by (simp add: never_fails_def panic_def)

lemma never_fails_and_then [never_fails_intros]:
  "never_fails m \<Longrightarrow> (\<And>a. never_fails (f a)) \<Longrightarrow> never_fails (and_then m f)"
  by (auto simp: never_fails_def and_then_def split: prod.split outcome.split) (metis fst_conv)+

lemma never_fails_attempt [never_fails_intros]: "never_fails (attempt m)"
  by (auto simp: never_fails_def attempt_def split: prod.split outcome.split)

lemma never_fails_cases [never_fails_intros]:
  "(b \<Longrightarrow> never_fails m) \<Longrightarrow> (\<not> b \<Longrightarrow> never_fails m') \<Longrightarrow> never_fails (if b then m else m')"
  "never_fails n \<Longrightarrow> (\<And>a. never_fails (f a)) \<Longrightarrow>
    never_fails (case x of None \<Rightarrow> n | Some a \<Rightarrow> f a)"
  "(\<And>e. never_fails (g e)) \<Longrightarrow> (\<And>a. never_fails (k a)) \<Longrightarrow>
    never_fails (case y of Inl e \<Rightarrow> g e | Inr a \<Rightarrow> k a)"
  "(\<And>a b. never_fails (p a b)) \<Longrightarrow> never_fails (case z of (a, b) \<Rightarrow> p a b)"
  by (simp, cases x, auto, cases y, auto, cases z, auto)

text \<open>\<open>ends I m Q\<close>: however \<open>m\<close> returns, with a value or an error, \<open>Q\<close> holds of the trace.\<close>

definition ends :: "('s \<Rightarrow> bool) \<Rightarrow> ('s, 'e, 'a) act \<Rightarrow> ('s \<Rightarrow> bool) \<Rightarrow> bool" where
  "ends I m Q \<longleftrightarrow> (\<forall>s. I s \<longrightarrow> (case fst (m s) of
      Done a \<Rightarrow> Q (snd (m s)) | Failed e \<Rightarrow> Q (snd (m s)) | _ \<Rightarrow> True))"

lemma ends_triple:
  "triple I P m (\<lambda>_. Q) \<Longrightarrow> never_fails m \<Longrightarrow> ends I m Q"
  by (fastforce simp: ends_def triple_def never_fails_def split: outcome.split)

lemma ends_lift_result: "ends I m Q \<Longrightarrow> ends I (and_then m lift_result) Q"
  by (auto simp: ends_def and_then_def lift_result_def split: prod.splits outcome.splits sum.splits)

lemma ends_after:
  assumes "triple I P m (\<lambda>_. J)" and "\<And>h e. I h \<Longrightarrow> fst (m h) = Failed e \<Longrightarrow> Q (snd (m h))"
    and "\<And>a. ends J (f a) Q"
  shows "ends I (and_then m f) Q"
  unfolding ends_def
proof (intro allI impI)
  fix h
  assume "I h"
  obtain r h' where m: "m h = (r, h')" by (cases "m h")
  show "case fst (and_then m f h) of
      Done a \<Rightarrow> Q (snd (and_then m f h)) | Failed e \<Rightarrow> Q (snd (and_then m f h)) | _ \<Rightarrow> True"
  proof (cases r)
    case (Done a)
    from assms(1) \<open>I h\<close> m Done have "J h'" by (auto elim: tripleD)
    with assms(3) [of a] Done m show ?thesis
      by (auto simp: ends_def and_then_def split: outcome.splits)
  qed (use m assms(2) [OF \<open>I h\<close>] in \<open>auto simp: and_then_def\<close>)
qed

text \<open>An invariant of the history that every call of an action keeps.\<close>

lemma triple_invariant:
  assumes "issues P' m Q'" and "\<And>h c. I h \<Longrightarrow> P' c \<Longrightarrow> P h c \<and> I (h @ [c])"
  shows "triple I P m (\<lambda>_. I)"
  unfolding triple_def
proof (intro allI impI)
  fix h
  assume h: "I h"
  obtain r h' where m: "m h = (r, h')" by (cases "m h")
  from assms(1) m obtain cs where cs: "h' = h @ cs" "\<forall>c \<in> set cs. P' c" by (rule issuesD)
  have "(\<forall>i < length cs. P (h @ take i cs) (cs ! i)) \<and> I (h @ cs)"
    using cs(2)
  proof (induction cs rule: rev_induct)
    case (snoc c cs)
    with assms(2) [of "h @ cs" c] show ?case by (auto simp: nth_append less_Suc_eq)
  qed (simp add: h)
  with m cs(1) show "\<exists>cs. snd (m h) = h @ cs \<and> (\<forall>i<length cs. P (h @ take i cs) (cs ! i)) \<and>
      (\<forall>a. fst (m h) = Done a \<longrightarrow> I (h @ cs))"
    by auto
qed

subsection \<open>Collecting over a trace\<close>

definition collected :: "('c list \<Rightarrow> 'c \<Rightarrow> 'k list) \<Rightarrow> 'c list \<Rightarrow> 'k list" where
  "collected f h = concat (map (\<lambda>i. f (take i h) (h ! i)) [0..<length h])"

lemma collected_Nil [simp]: "collected f [] = []"
  by (simp add: collected_def)

lemma collected_snoc [simp]: "collected f (h @ [c]) = collected f h @ f h c"
  unfolding collected_def
  by (simp, intro arg_cong [where f = concat] map_cong) (auto simp: nth_append)

subsection \<open>The contract\<close>

text \<open>
  \<open>undo c\<close> is the call that takes back what the call \<open>c\<close> installs; \<open>is_undo\<close> recognises such calls.
\<close>

definition installed :: "(call \<Rightarrow> call option) \<Rightarrow> os \<Rightarrow> call list \<Rightarrow> call list" where
  "installed undo os h =
     collected (\<lambda>h c. if run_ok os h c then (case undo c of Some u \<Rightarrow> [u] | None \<Rightarrow> []) else []) h"

definition undone :: "(call \<Rightarrow> bool) \<Rightarrow> call list \<Rightarrow> call list" where
  "undone is_undo h = filter is_undo h"

lemma installed_snoc [simp]:
  "installed undo os (h @ [c]) =
     installed undo os h @ (if run_ok os h c then (case undo c of Some u \<Rightarrow> [u] | None \<Rightarrow> []) else [])"
  by (simp add: installed_def)

lemma installed_Nil [simp]: "installed undo os [] = []"
  by (simp add: installed_def)

lemma undone_snoc [simp]:
  "undone is_undo (h @ [c]) = undone is_undo h @ (if is_undo c then [c] else [])"
  by (simp add: undone_def)

lemma undone_Nil [simp]: "undone is_undo [] = []"
  by (simp add: undone_def)

text \<open>Calls that neither install nor undo anything.\<close>

definition route_neutral :: "(call \<Rightarrow> call option) \<Rightarrow> (call \<Rightarrow> bool) \<Rightarrow> call \<Rightarrow> bool" where
  "route_neutral undo is_undo c \<longleftrightarrow> undo c = None \<and> \<not> is_undo c"

lemma neutral_keeps:
  assumes "\<forall>c \<in> set cs. route_neutral undo is_undo c"
  shows "installed undo os (h @ cs) = installed undo os h \<and>
    undone is_undo (h @ cs) = undone is_undo h"
  using assms
proof (induction cs rule: rev_induct)
  case (snoc c cs)
  then show ?case
    using installed_snoc [of undo os "h @ cs" c] undone_snoc [of is_undo "h @ cs" c]
    by (auto simp: route_neutral_def)
qed simp

text \<open>\<open>added\<close> is what the manager remembers; \<open>undo_of\<close> is how it will take back a network.\<close>

definition tracks ::
    "(call \<Rightarrow> call option) \<Rightarrow> (call \<Rightarrow> bool) \<Rightarrow> ('net \<Rightarrow> call) \<Rightarrow> os \<Rightarrow> 'net list \<Rightarrow> call list \<Rightarrow> bool" where
  "tracks undo is_undo undo_of os added h \<longleftrightarrow>
     installed undo os h = map undo_of added \<and> undone is_undo h = []"

definition any_call :: "call list \<Rightarrow> call \<Rightarrow> bool" where
  "any_call h c \<longleftrightarrow> True"

lemma any_call [simp]: "any_call h c"
  by (simp add: any_call_def)

locale route_manager =
  fixes undo :: "call \<Rightarrow> call option"
    and is_undo :: "call \<Rightarrow> bool"
    and undo_of :: "'net \<Rightarrow> call"
    and add :: "os \<Rightarrow> 'how \<Rightarrow> 'net \<Rightarrow> 'net list \<Rightarrow> ('e, (route_error + unit) \<times> 'net list) io"
    and cleanup :: "os \<Rightarrow> 'net list \<Rightarrow> ('e, 'net list) io"
  assumes add_tracks: "triple (tracks undo is_undo undo_of os added) any_call
      (add os how net added) (\<lambda>(r, added'). tracks undo is_undo undo_of os added')"
    and cleanup_run: "cleanup os added h = (Done [], h @ map undo_of (rev added))"
    and undo_of_undo: "is_undo (undo_of net)" "undo (undo_of net) = None"
begin

lemma neutral_tracks:
  assumes "issues (route_neutral undo is_undo) m (\<lambda>_. True)"
  shows "triple (tracks undo is_undo undo_of os added) any_call m
    (\<lambda>_. tracks undo is_undo undo_of os added)"
  unfolding triple_def
proof (intro allI impI)
  fix h
  assume h: "tracks undo is_undo undo_of os added h"
  obtain r h' where m: "m h = (r, h')" by (cases "m h")
  from assms m obtain cs where cs: "h' = h @ cs" "\<forall>c \<in> set cs. route_neutral undo is_undo c"
    by (rule issuesD)
  with neutral_keeps [OF cs(2), of os h] h m
  show "\<exists>cs. snd (m h) = h @ cs \<and> (\<forall>i<length cs. any_call (h @ take i cs) (cs ! i)) \<and>
      (\<forall>a. fst (m h) = Done a \<longrightarrow> tracks undo is_undo undo_of os added (h @ cs))"
    by (auto simp: tracks_def)
qed

text \<open>So a phase that leaves the routes alone may come before, and fail.\<close>

lemma ends_after_neutral:
  assumes "issues (route_neutral undo is_undo) m (\<lambda>_. True)"
    and "\<And>h. tracks undo is_undo undo_of os [] h \<Longrightarrow> Q h"
    and "\<And>a. ends (tracks undo is_undo undo_of os []) (f a) Q"
  shows "ends (tracks undo is_undo undo_of os []) (and_then m f) Q"
proof (rule ends_after [OF neutral_tracks [OF assms(1)] _ assms(3)])
  fix h e
  assume h: "tracks undo is_undo undo_of os [] h"
  obtain r h' where m: "m h = (r, h')" by (cases "m h")
  from assms(1) m obtain cs where "h' = h @ cs" "\<forall>c \<in> set cs. route_neutral undo is_undo c"
    by (rule issuesD)
  with neutral_keeps [of cs undo is_undo os h] h m assms(2) show "Q (snd (m h))"
    by (simp add: tracks_def)
qed

lemma installed_undos:
  "installed undo os (h @ map undo_of nets) = installed undo os h"
proof (induction nets rule: rev_induct)
  case (snoc net nets)
  then show ?case
    using installed_snoc [of undo os "h @ map undo_of nets" "undo_of net"] by (simp add: undo_of_undo)
qed simp

lemma undone_undos: "undone is_undo (h @ map undo_of nets) = undone is_undo h @ map undo_of nets"
  by (induction nets) (auto simp: undone_def undo_of_undo)

text \<open>After a clean-up everything that was installed is undone, in reverse.\<close>

lemma cleanup_undoes:
  assumes "tracks undo is_undo undo_of os added h"
  shows "undone is_undo (snd (cleanup os added h)) = rev (installed undo os (snd (cleanup os added h)))"
  using assms by (simp add: cleanup_run tracks_def installed_undos undone_undos rev_map)

lemma cleanup_twice: "cleanup os [] h = (Done [], h)"
  by (simp add: cleanup_run)

text \<open>
  A program that installs routes, runs, and cleans up whatever happened, as scope exit (\<open>Drop\<close>)
  makes it: at the end everything installed is undone.
\<close>

lemma bracket_undoes:
  assumes body: "triple (tracks undo is_undo undo_of os []) any_call body
      (\<lambda>(res, added). tracks undo is_undo undo_of os added)"
    and serve: "\<And>res. issues (route_neutral undo is_undo) (serve res) (\<lambda>_. True)"
  shows "triple (tracks undo is_undo undo_of os []) any_call
      (and_then body (\<lambda>(res, added). and_then (attempt (serve res)) (\<lambda>r.
         and_then (cleanup os added) (\<lambda>_. ret r))))
      (\<lambda>_ h. undone is_undo h = rev (installed undo os h))"
proof (rule triple_and_then [OF body], clarify)
  fix res added
  have clean: "triple (tracks undo is_undo undo_of os added) any_call
      (and_then (cleanup os added) (\<lambda>_. ret r))
      (\<lambda>_ h. undone is_undo h = rev (installed undo os h))" for r
    unfolding triple_def
  proof (intro allI impI)
    fix h
    assume "tracks undo is_undo undo_of os added h"
    from cleanup_undoes [OF this] show "\<exists>cs. snd (and_then (cleanup os added) (\<lambda>_. ret r) h) = h @ cs \<and>
        (\<forall>i<length cs. any_call (h @ take i cs) (cs ! i)) \<and>
        (\<forall>a. fst (and_then (cleanup os added) (\<lambda>_. ret r) h) = Done a \<longrightarrow>
          undone is_undo (h @ cs) = rev (installed undo os (h @ cs)))"
      by (auto simp: and_then_def cleanup_run ret_def)
  qed
  have "issues (route_neutral undo is_undo) (attempt (serve res)) (\<lambda>_. True)"
    by (intro issues_intros serve)
  from triple_and_then [OF neutral_tracks [OF this] clean]
  show "triple (tracks undo is_undo undo_of os added) any_call
      (and_then (attempt (serve res)) (\<lambda>r. and_then (cleanup os added) (\<lambda>_. ret r)))
      (\<lambda>_ h. undone is_undo h = rev (installed undo os h))" .
qed

end

end
