(* ===== verification/Host_Route.thy ===== *)
theory Host_Route
  imports Routes
begin

text \<open>
  \<open>crates/host/src/route.rs\<close>: the host agent's use of \<open>ip\<close>. A \<open>RouteManager\<close> is the list of networks
  it added; its methods take the list and return it with their result.
\<close>

record next_hop =
  hop_dev :: bytes
  hop_gateway :: "ip_addr option"
  hop_src :: "ip_addr option"

definition host_run :: "os \<Rightarrow> bytes list \<Rightarrow> (route_error, bytes) io" where
  "host_run os args = run_checked os (lit ''ip'') args"

definition family :: "'net ipnet \<Rightarrow> 'net \<Rightarrow> bytes" where
  "family N net = (if net_is_v4 N net then lit ''-4'' else lit ''-6'')"

fun family_ip :: "ip_addr \<Rightarrow> bytes" where
  "family_ip (V4 a) = lit ''-4''"
| "family_ip (V6 a) = lit ''-6''"

text \<open>The loop over the tokens of the route: a keyword takes the token after it as its value.\<close>

function scan_hop :: "bytes list \<Rightarrow> next_hop \<Rightarrow> next_hop" where
  "scan_hop [] hop = hop"
| "scan_hop (t # ts) hop =
     (if t = lit ''via'' then
        scan_hop (tl ts) (hop\<lparr>hop_gateway := (case ts of [] \<Rightarrow> None | v # _ \<Rightarrow> parse_ip v)\<rparr>)
      else if t = lit ''dev'' then
        scan_hop (tl ts) (hop\<lparr>hop_dev := (case ts of [] \<Rightarrow> [] | v # _ \<Rightarrow> v)\<rparr>)
      else if t = lit ''src'' then
        scan_hop (tl ts) (hop\<lparr>hop_src := (case ts of [] \<Rightarrow> None | v # _ \<Rightarrow> parse_ip v)\<rparr>)
      else scan_hop ts hop)"
  by pat_completeness auto
termination
  by (relation "measure (\<lambda>(ts, hop). length ts)") auto

definition hop_none :: next_hop where
  "hop_none = \<lparr>hop_dev = [], hop_gateway = None, hop_src = None\<rparr>"

definition host_lookup :: "os \<Rightarrow> ip_addr \<Rightarrow> (route_error, next_hop) io" where
  "host_lookup os a =
     (let target = show_ip a in
      and_then (host_run os [family_ip a, lit ''route'', lit ''get'', target]) (\<lambda>out.
        case first_line out of
          None \<Rightarrow> raise (EmptyOutput target)
        | Some first \<Rightarrow>
            let hop = scan_hop (split_whitespace first) hop_none in
            if hop_dev hop = [] then raise (NoDevice target first) else ret hop))"

definition host_exists :: "'net ipnet \<Rightarrow> os \<Rightarrow> 'net \<Rightarrow> ('e, bool) io" where
  "host_exists N os net =
     and_then (attempt (host_run os
         [family N net, lit ''route'', lit ''show'', lit ''exact'', net_show N net])) (\<lambda>r.
       ret (case r of Inr out \<Rightarrow> \<not> trim_is_empty out | Inl _ \<Rightarrow> False))"

definition host_replace_args :: "'net ipnet \<Rightarrow> 'net \<Rightarrow> bytes \<Rightarrow> bytes list" where
  "host_replace_args N net dev =
     [family N net, lit ''route'', lit ''replace'', net_show N net, lit ''dev'', dev]"

definition host_pin_args :: "'net ipnet \<Rightarrow> 'net \<Rightarrow> next_hop \<Rightarrow> bytes list" where
  "host_pin_args N net hop =
     [family N net, lit ''route'', lit ''add'', net_show N net]
     @ (case hop_gateway hop of Some g \<Rightarrow> [lit ''via'', show_ip g] | None \<Rightarrow> [])
     @ [lit ''dev'', hop_dev hop]"

definition host_del_args :: "'net ipnet \<Rightarrow> 'net \<Rightarrow> bytes list" where
  "host_del_args N net = [family N net, lit ''route'', lit ''del'', net_show N net]"

text \<open>Run, and remember the network if that succeeded.\<close>

definition host_install ::
    "os \<Rightarrow> bytes list \<Rightarrow> 'net \<Rightarrow> 'net list \<Rightarrow> ('e, (route_error + unit) \<times> 'net list) io" where
  "host_install os args net added =
     and_then (attempt (host_run os args)) (\<lambda>r. case r of
       Inl e \<Rightarrow> ret (Inl e, added)
     | Inr _ \<Rightarrow> ret (Inr (), added @ [net]))"

definition host_add_to_dev ::
    "'net ipnet \<Rightarrow> os \<Rightarrow> 'net \<Rightarrow> bytes \<Rightarrow> 'net list \<Rightarrow>
     ('e, (route_error + unit) \<times> 'net list) io" where
  "host_add_to_dev N os net dev added = host_install os (host_replace_args N net dev) net added"

definition host_pin_direct ::
    "'net ipnet \<Rightarrow> os \<Rightarrow> 'net \<Rightarrow> next_hop \<Rightarrow> 'net list \<Rightarrow>
     ('e, (route_error + unit) \<times> 'net list) io" where
  "host_pin_direct N os net hop added =
     and_then (host_exists N os net) (\<lambda>present.
       if present then ret (Inr (), added)
       else host_install os (host_pin_args N net hop) net added)"

fun host_delete_all :: "'net ipnet \<Rightarrow> os \<Rightarrow> 'net list \<Rightarrow> ('e, unit) io" where
  "host_delete_all N os [] = ret ()"
| "host_delete_all N os (net # nets) =
     and_then (attempt (host_run os (host_del_args N net))) (\<lambda>_. host_delete_all N os nets)"

definition host_cleanup :: "'net ipnet \<Rightarrow> os \<Rightarrow> 'net list \<Rightarrow> ('e, 'net list) io" where
  "host_cleanup N os added = and_then (host_delete_all N os (rev added)) (\<lambda>_. ret [])"

definition host_net :: "'net ipnet \<Rightarrow> ip_addr \<Rightarrow> ('s, 'e, 'net) act" where
  "host_net N a =
     (case net_new N a (case a of V4 _ \<Rightarrow> 32 | V6 _ \<Rightarrow> 128) of
        Some net \<Rightarrow> ret net | None \<Rightarrow> panic)"

subsection \<open>Reading a route\<close>

definition keyword :: "bytes \<Rightarrow> bool" where
  "keyword t \<longleftrightarrow> t = lit ''via'' \<or> t = lit ''dev'' \<or> t = lit ''src''"

lemma scan_hop_junk:
  "\<forall>t \<in> set junk. \<not> keyword t \<Longrightarrow> scan_hop (junk @ ts) hop = scan_hop ts hop"
  by (induction junk) (auto simp: keyword_def)

lemma lit_keywords:
  "lit ''dev'' \<noteq> lit ''via''" "lit ''src'' \<noteq> lit ''via''" "lit ''src'' \<noteq> lit ''dev''"
  by (simp_all add: lit_def)

lemma scan_hop_keywords:
  "scan_hop (lit ''via'' # v # ts) hop = scan_hop ts (hop\<lparr>hop_gateway := parse_ip v\<rparr>)"
  "scan_hop (lit ''dev'' # v # ts) hop = scan_hop ts (hop\<lparr>hop_dev := v\<rparr>)"
  "scan_hop (lit ''src'' # v # ts) hop = scan_hop ts (hop\<lparr>hop_src := parse_ip v\<rparr>)"
  by (simp_all add: lit_keywords)

declare scan_hop.simps(2) [simp del]

text \<open>
  The shape of the output of \<open>ip route get\<close>: the destination, the gateway if there is one, the
  device, the source, and options the code does not care about.
\<close>

definition route_tokens ::
    "bytes list \<Rightarrow> bytes option \<Rightarrow> bytes \<Rightarrow> bytes option \<Rightarrow> bytes list \<Rightarrow> bytes list" where
  "route_tokens dst via dev src opts =
     dst @ (case via of Some g \<Rightarrow> [lit ''via'', g] | None \<Rightarrow> []) @ [lit ''dev'', dev]
     @ (case src of Some s \<Rightarrow> [lit ''src'', s] | None \<Rightarrow> []) @ opts"

lemma scan_route_tokens:
  assumes "\<forall>t \<in> set dst. \<not> keyword t" and "\<forall>t \<in> set opts. \<not> keyword t"
  shows "scan_hop (route_tokens dst via dev src opts) hop_none =
    \<lparr>hop_dev = dev, hop_gateway = Option.bind via parse_ip, hop_src = Option.bind src parse_ip\<rparr>"
proof -
  have opts: "scan_hop opts hop = hop" for hop
    using scan_hop_junk [OF assms(2), of "[]"] by simp
  show ?thesis
    by (simp add: route_tokens_def scan_hop_junk [OF assms(1)] scan_hop_keywords opts hop_none_def
        split: option.split)
qed

text \<open>From the text: what the kernel reports on the first line is what \<open>lookup\<close> returns.\<close>

lemma plain_no_newline: "plain w \<Longrightarrow> \<forall>b \<in> set w. b \<noteq> 10 \<and> b \<noteq> 13 \<and> b < 0x80"
  by (auto simp: plain_def)

lemma set_join_subset: "set (join sep ws) \<subseteq> set sep \<union> \<Union> (set ` set ws)"
  by (induction sep ws rule: join.induct) auto

lemma first_line_of:
  assumes "l \<noteq> []" and "\<forall>b \<in> set l. b \<noteq> 10 \<and> b \<noteq> 13"
  shows "first_line (l @ 10 # rest) = Some l"
proof -
  have "takeWhile (\<lambda>b. b \<noteq> 10) (l @ 10 # rest) = l"
    using assms(2) by (subst takeWhile_append2) auto
  moreover have "last l \<noteq> 13" using assms last_in_set by blast
  ultimately show ?thesis by (simp add: first_line_def Let_def)
qed

lemma utf8_valid_line: "plain l \<Longrightarrow> utf8_valid rest \<Longrightarrow> utf8_valid (l @ 10 # rest)"
  using utf8_valid_append [OF utf8_valid_ascii [of "l @ [10]"], of rest]
  by (auto dest: plain_no_newline)

lemma host_lookup_reports:
  fixes a :: ip_addr
  defines "args \<equiv> [family_ip a, lit ''route'', lit ''get'', show_ip a]"
  assumes out: "os_run os h (lit ''ip'') args = Inr out" "out_success out"
    and line: "out_stdout out = join (lit '' '') (route_tokens dst via dev src opts) @ 10 # rest"
    and tokens: "\<forall>t \<in> set (route_tokens dst via dev src opts). token t" "utf8_valid rest"
    and dst: "\<forall>t \<in> set dst. \<not> keyword t" and opts: "\<forall>t \<in> set opts. \<not> keyword t"
  shows "host_lookup os a h =
    (Done \<lparr>hop_dev = dev, hop_gateway = Option.bind via parse_ip,
       hop_src = Option.bind src parse_ip\<rparr>, h @ [RunProgram (lit ''ip'') args])"
proof -
  let ?ts = "route_tokens dst via dev src opts" and ?l = "join (lit '' '') (route_tokens dst via dev src opts)"
  have ascii: "\<forall>b \<in> set ?l. b \<noteq> 10 \<and> b \<noteq> 13 \<and> b < 0x80"
  proof
    fix b
    assume "b \<in> set ?l"
    then have "b = 0x20 \<or> (\<exists>t \<in> set ?ts. b \<in> set t)"
      using subsetD [OF set_join_subset] unfolding lit_space by fastforce
    with tokens(1) plain_no_newline show "b \<noteq> 10 \<and> b \<noteq> 13 \<and> b < 0x80"
      by (auto simp: token_def)
  qed
  have "dev \<in> set ?ts" by (simp add: route_tokens_def)
  with tokens(1) have "dev \<noteq> []" by (auto simp: token_def)
  have "?l \<noteq> []"
    using tokens(1) \<open>dev \<in> set ?ts\<close> split_whitespace_join [OF tokens(1)]
    by (auto simp: split_whitespace_def split_ws_Nil)
  with ascii have first: "first_line (?l @ 10 # rest) = Some ?l" by (intro first_line_of) auto
  have "utf8_valid (?l @ 10 # rest)"
    using utf8_valid_append [OF utf8_valid_ascii [of "?l @ [10]"] tokens(2)] ascii by auto
  then have "from_utf8_lossy (out_stdout out) = ?l @ 10 # rest"
    by (simp add: line from_utf8_lossy_id)
  then show ?thesis
    using out first \<open>dev \<noteq> []\<close>
    by (simp add: host_lookup_def Let_def host_run_def and_then_def run_checked_run args_def
        split_whitespace_join [OF tokens(1)] scan_route_tokens [OF dst opts] ret_def)
qed

subsection \<open>The route manager fulfils its contract\<close>

definition host_undo :: "call \<Rightarrow> call option" where
  "host_undo c = (case c of
      RunProgram p (fam # obj # verb # spec # _) \<Rightarrow>
        if p = lit ''ip'' \<and> obj = lit ''route'' \<and> (verb = lit ''add'' \<or> verb = lit ''replace'')
        then Some (RunProgram p [fam, obj, lit ''del'', spec]) else None
    | _ \<Rightarrow> None)"

definition host_is_undo :: "call \<Rightarrow> bool" where
  "host_is_undo c = (case c of
      RunProgram p (_ # obj # verb # _) \<Rightarrow>
        p = lit ''ip'' \<and> obj = lit ''route'' \<and> verb = lit ''del''
    | _ \<Rightarrow> False)"

definition host_undo_of :: "'net ipnet \<Rightarrow> 'net \<Rightarrow> call" where
  "host_undo_of N net = RunProgram (lit ''ip'') (host_del_args N net)"

text \<open>The two ways of adding, told apart by what they need: a next hop or a device.\<close>

definition host_add ::
    "'net ipnet \<Rightarrow> os \<Rightarrow> next_hop + bytes \<Rightarrow> 'net \<Rightarrow> 'net list \<Rightarrow>
     ('e, (route_error + unit) \<times> 'net list) io" where
  "host_add N os how net added = (case how of
      Inl hop \<Rightarrow> host_pin_direct N os net hop added
    | Inr dev \<Rightarrow> host_add_to_dev N os net dev added)"

lemma lit_verbs:
  "lit ''del'' \<noteq> lit ''add''" "lit ''del'' \<noteq> lit ''replace''" "lit ''show'' \<noteq> lit ''del''"
  "lit ''get'' \<noteq> lit ''del''" "lit ''add'' \<noteq> lit ''del''" "lit ''replace'' \<noteq> lit ''del''"
  "lit ''show'' \<noteq> lit ''add''" "lit ''show'' \<noteq> lit ''replace''"
  "lit ''get'' \<noteq> lit ''add''" "lit ''get'' \<noteq> lit ''replace''"
  by (simp_all add: lit_def)

lemma host_undo_args:
  "host_undo (RunProgram (lit ''ip'') (host_replace_args N net dev)) = Some (host_undo_of N net)"
  "host_undo (RunProgram (lit ''ip'') (host_pin_args N net hop)) = Some (host_undo_of N net)"
  "host_undo (host_undo_of N net) = None"
  "\<not> host_is_undo (RunProgram (lit ''ip'') (host_replace_args N net dev))"
  "\<not> host_is_undo (RunProgram (lit ''ip'') (host_pin_args N net hop))"
  "host_is_undo (host_undo_of N net)"
  by (simp_all add: host_undo_def host_is_undo_def host_undo_of_def host_replace_args_def
      host_pin_args_def host_del_args_def lit_verbs)

lemma host_run_run:
  "host_run os args h = (fst (run_checked os (lit ''ip'') args h), h @ [RunProgram (lit ''ip'') args])"
  by (simp add: host_run_def run_checked_run)

lemma run_checked_ok:
  "(\<exists>out. fst (run_checked os p args h) = Done out) \<longleftrightarrow> run_ok os h (RunProgram p args)"
  "fst (run_checked os p args h) \<noteq> Pending" "fst (run_checked os p args h) \<noteq> Panicked"
  by (auto simp: run_checked_run run_ok_def split: sum.splits)

lemma host_install_run:
  "host_install os args net added h =
     (Done (if run_ok os h (RunProgram (lit ''ip'') args) then (Inr (), added @ [net])
        else (Inl (case fst (run_checked os (lit ''ip'') args h) of Failed e \<Rightarrow> e), added)),
      h @ [RunProgram (lit ''ip'') args])"
  using run_checked_ok [of os "lit ''ip''" args h]
  by (auto simp: host_install_def host_run_run and_then_def attempt_def ret_def split: outcome.splits)

lemma host_exists_run:
  "\<exists>b. host_exists N os net h = (Done b,
     h @ [RunProgram (lit ''ip'') [family N net, lit ''route'', lit ''show'', lit ''exact'', net_show N net]])"
  using run_checked_ok(2,3) [of os "lit ''ip''"
      "[family N net, lit ''route'', lit ''show'', lit ''exact'', net_show N net]" h]
  by (auto simp: host_exists_def host_run_run and_then_def attempt_def ret_def split: outcome.splits)

lemma host_install_tracks:
  assumes "host_undo (RunProgram (lit ''ip'') args) = Some (host_undo_of N net)"
    and "\<not> host_is_undo (RunProgram (lit ''ip'') args)"
  shows "triple (tracks host_undo host_is_undo (host_undo_of N) os added) any_call
    (host_install os args net added)
    (\<lambda>(r, added'). tracks host_undo host_is_undo (host_undo_of N) os added')"
  using assms
  by (auto simp: triple_def host_install_run tracks_def)

lemma host_exists_tracks:
  "triple (tracks host_undo host_is_undo (host_undo_of N) os added) any_call
    (host_exists N os net :: ('e, bool) io)
    (\<lambda>_. tracks host_undo host_is_undo (host_undo_of N) os added)"
  unfolding triple_def
proof (intro allI impI)
  fix h
  assume h: "tracks host_undo host_is_undo (host_undo_of N) os added h"
  obtain b where b: "(host_exists N os net :: ('e, bool) io) h = (Done b,
     h @ [RunProgram (lit ''ip'') [family N net, lit ''route'', lit ''show'', lit ''exact'', net_show N net]])"
    by (rule exE [OF host_exists_run])
  with h show "\<exists>cs. snd ((host_exists N os net :: ('e, bool) io) h) = h @ cs \<and>
      (\<forall>i<length cs. any_call (h @ take i cs) (cs ! i)) \<and>
      (\<forall>a. fst ((host_exists N os net :: ('e, bool) io) h) = Done a \<longrightarrow>
        tracks host_undo host_is_undo (host_undo_of N) os added (h @ cs))"
    by (auto simp: tracks_def host_undo_def host_is_undo_def lit_verbs)
qed

lemma host_add_tracks:
  "triple (tracks host_undo host_is_undo (host_undo_of N) os added) any_call
    (host_add N os how net added :: ('e, _) io)
    (\<lambda>(r, added'). tracks host_undo host_is_undo (host_undo_of N) os added')"
proof (cases how)
  case (Inl hop)
  have "triple (tracks host_undo host_is_undo (host_undo_of N) os added) any_call
      (if present then ret (Inr (), added)
       else host_install os (host_pin_args N net hop) net added :: ('e, _) io)
      (\<lambda>(r, added'). tracks host_undo host_is_undo (host_undo_of N) os added')" for present
    using host_install_tracks [OF host_undo_args(2,5)] by (auto intro: triple_ret)
  with Inl show ?thesis
    by (simp add: host_add_def host_pin_direct_def triple_and_then [OF host_exists_tracks])
next
  case (Inr dev)
  then show ?thesis
    using host_install_tracks [OF host_undo_args(1,4)] by (simp add: host_add_def host_add_to_dev_def)
qed

lemma host_delete_all_run:
  "host_delete_all N os nets h = (Done (), h @ map (host_undo_of N) nets)"
proof (induction nets arbitrary: h)
  case Nil
  then show ?case by (simp add: ret_def)
next
  case (Cons net nets)
  then show ?case
    using run_checked_ok(2,3) [of os "lit ''ip''" "host_del_args N net" h]
    by (auto simp: host_run_run and_then_def attempt_def host_undo_of_def split: outcome.splits)
qed

interpretation host_routes: route_manager host_undo host_is_undo "host_undo_of N" "host_add N"
    "host_cleanup N" for N
  by unfold_locales
    (simp_all add: host_add_tracks host_cleanup_def and_then_def host_delete_all_run ret_def
      host_undo_args)

text \<open>A network that already has a route of its own is left alone, also at the end.\<close>

lemma host_pin_present:
  assumes "(host_exists N os net :: ('e, bool) io) h = (Done True, h')"
  shows "host_pin_direct N os net hop added h
    = (Done (Inr (), added) :: ('e, (route_error + unit) \<times> 'net list) outcome, h')"
  using assms by (simp add: host_pin_direct_def and_then_Done ret_def)

subsection \<open>Properties\<close>



end
