(* ===== verification/Tun_Device.thy ===== *)
theory Tun_Device
  imports Net
begin

text \<open>
  The TUN device as the IP stack reads and writes it: \<open>TunDevice\<close> of \<open>crates/host/src/main.rs\<close> and of
  \<open>crates/proxy-client/src/device.rs\<close>, and the streams the stack hands out (ipstack's
  \<open>IpStackStream\<close>).
\<close>

datatype ip_stack_stream =
    Tcp socket_addr socket_addr            \<comment> \<open>local and peer address\<close>
  | Udp socket_addr socket_addr
  | UnknownTransport
  | UnknownNetwork

subsection \<open>The device as a byte stream\<close>

text \<open>
  A \<open>ReadBuf\<close> is what was filled and how much room is left. \<open>poll_recv\<close> of the device is given the
  room and returns a packet that fits, an error, or nothing yet (\<open>NotReady\<close>).
\<close>

datatype 'a poll = Ready 'a | NotReady

record read_buf =
  rb_filled :: bytes
  rb_remaining :: nat

definition tun_poll_read ::
    "(nat \<Rightarrow> (io_error + bytes) poll) \<Rightarrow> read_buf \<Rightarrow> (io_error + unit) poll \<times> read_buf" where
  "tun_poll_read poll_recv buf =
     (if rb_remaining buf = 0 then (Ready (Inr ()), buf)
      else case poll_recv (rb_remaining buf) of
        Ready (Inr packet) \<Rightarrow> (Ready (Inr ()),
          buf\<lparr>rb_filled := rb_filled buf @ packet, rb_remaining := rb_remaining buf - length packet\<rparr>)
      | Ready (Inl err) \<Rightarrow> (Ready (Inl err), buf)
      | NotReady \<Rightarrow> (NotReady, buf))"

definition tun_poll_write :: "(bytes \<Rightarrow> (io_error + nat) poll) \<Rightarrow> bytes \<Rightarrow> (io_error + nat) poll" where
  "tun_poll_write poll_send buf = poll_send buf"

definition tun_poll_flush :: "(io_error + unit) poll" where
  "tun_poll_flush = Ready (Inr ())"

definition tun_poll_shutdown :: "(io_error + unit) poll" where
  "tun_poll_shutdown = Ready (Inr ())"

text \<open>The proxy client's device is its own copy of the same code.\<close>

definition client_tun_poll_read ::
    "(nat \<Rightarrow> (io_error + bytes) poll) \<Rightarrow> read_buf \<Rightarrow> (io_error + unit) poll \<times> read_buf" where
  "client_tun_poll_read poll_recv buf =
     (if rb_remaining buf = 0 then (Ready (Inr ()), buf)
      else case poll_recv (rb_remaining buf) of
        Ready (Inr packet) \<Rightarrow> (Ready (Inr ()),
          buf\<lparr>rb_filled := rb_filled buf @ packet, rb_remaining := rb_remaining buf - length packet\<rparr>)
      | Ready (Inl err) \<Rightarrow> (Ready (Inl err), buf)
      | NotReady \<Rightarrow> (NotReady, buf))"

definition client_tun_poll_write :: "(bytes \<Rightarrow> (io_error + nat) poll) \<Rightarrow> bytes \<Rightarrow> (io_error + nat) poll" where
  "client_tun_poll_write poll_send buf = poll_send buf"

definition client_tun_poll_flush :: "(io_error + unit) poll" where
  "client_tun_poll_flush = Ready (Inr ())"

definition client_tun_poll_shutdown :: "(io_error + unit) poll" where
  "client_tun_poll_shutdown = Ready (Inr ())"

text \<open>
  What a reader of a TUN device relies on: a read appends one packet, whole, and an error or an
  unready device changes nothing. The device promises to fill no more than it is given.
\<close>

definition packet_device :: "(nat \<Rightarrow> (io_error + bytes) poll) \<Rightarrow> bool" where
  "packet_device poll_recv \<longleftrightarrow>
     (\<forall>room packet. poll_recv room = Ready (Inr packet) \<longrightarrow> length packet \<le> room)"

locale packet_reader =
  fixes poll_read :: "(nat \<Rightarrow> (io_error + bytes) poll) \<Rightarrow> read_buf \<Rightarrow> (io_error + unit) poll \<times> read_buf"
  assumes poll_read_law: "poll_read recv buf =
     (if rb_remaining buf = 0 then (Ready (Inr ()), buf)
      else case recv (rb_remaining buf) of
        Ready (Inr packet) \<Rightarrow> (Ready (Inr ()),
          buf\<lparr>rb_filled := rb_filled buf @ packet, rb_remaining := rb_remaining buf - length packet\<rparr>)
      | Ready (Inl err) \<Rightarrow> (Ready (Inl err), buf)
      | NotReady \<Rightarrow> (NotReady, buf))"
begin

lemma reads_one_packet:
  assumes "packet_device recv" and "poll_read recv buf = (Ready (Inr ()), buf')" "rb_remaining buf \<noteq> 0"
  shows "\<exists>packet. recv (rb_remaining buf) = Ready (Inr packet) \<and>
    rb_filled buf' = rb_filled buf @ packet \<and>
    length (rb_filled buf') + rb_remaining buf' = length (rb_filled buf) + rb_remaining buf"
  using assms
  by (auto simp: poll_read_law packet_device_def split: poll.splits sum.splits)

lemma failed_read_keeps:
  "poll_read recv buf = (r, buf') \<Longrightarrow> r \<noteq> Ready (Inr ()) \<Longrightarrow> buf' = buf"
  by (auto simp: poll_read_law split: if_splits poll.splits sum.splits)

text \<open>With no room the device is not asked, so no packet is lost.\<close>

lemma no_room_no_packet: "rb_remaining buf = 0 \<Longrightarrow> poll_read recv buf = poll_read recv' buf"
  by (simp add: poll_read_law)

end

interpretation host_device: packet_reader tun_poll_read
  by unfold_locales (simp add: tun_poll_read_def)

interpretation client_device: packet_reader client_tun_poll_read
  by unfold_locales (simp add: client_tun_poll_read_def)

text \<open>
  Both programs read one packet at a time from their device, whole and behind what the buffer
  already holds; where the device is not ready, fails, or there is no room, the buffer is unchanged.
\<close>

lemma tun_reads_whole_packets:
  assumes "packet_device recv"
  shows "(case tun_poll_read recv buf of
      (Ready (Inr ()), buf') \<Rightarrow> (rb_remaining buf = 0 \<and> buf' = buf) \<or>
        (\<exists>packet. recv (rb_remaining buf) = Ready (Inr packet) \<and>
          rb_filled buf' = rb_filled buf @ packet \<and>
          length (rb_filled buf') + rb_remaining buf' = length (rb_filled buf) + rb_remaining buf)
    | (_, buf') \<Rightarrow> buf' = buf) \<and> client_tun_poll_read recv buf = tun_poll_read recv buf"
proof (intro conjI)
  show "case tun_poll_read recv buf of
      (Ready (Inr ()), buf') \<Rightarrow> (rb_remaining buf = 0 \<and> buf' = buf) \<or>
        (\<exists>packet. recv (rb_remaining buf) = Ready (Inr packet) \<and>
          rb_filled buf' = rb_filled buf @ packet \<and>
          length (rb_filled buf') + rb_remaining buf' = length (rb_filled buf) + rb_remaining buf)
    | (_, buf') \<Rightarrow> buf' = buf"
  proof (cases "rb_remaining buf = 0")
    case True
    then show ?thesis by (simp add: host_device.poll_read_law split: unit.split)
  next
    case False
    show ?thesis
    proof (cases "recv (rb_remaining buf)")
      case (Ready outcome)
      show ?thesis
      proof (cases outcome)
        case (Inl failure)
        with Ready False show ?thesis by (simp add: tun_poll_read_def)
      next
        case (Inr packet)
        with Ready have read: "recv (rb_remaining buf) = Ready (Inr packet)" by simp
        with assms have "length packet \<le> rb_remaining buf" unfolding packet_device_def by blast
        with False show ?thesis by (simp add: tun_poll_read_def read split: unit.split)
      qed
    next
      case NotReady
      with False show ?thesis by (simp add: host_device.poll_read_law)
    qed
  qed
  show "client_tun_poll_read recv buf = tun_poll_read recv buf"
    by (simp add: host_device.poll_read_law client_device.poll_read_law)
qed

lemma tun_reads_whole_packets_witness:
  "let recv = (\<lambda>room. if 2 \<le> room then Ready (Inr [4, 5]) else NotReady);
       buf = \<lparr>rb_filled = [1], rb_remaining = 3\<rparr> in
   (case tun_poll_read recv buf of
      (Ready (Inr ()), buf') \<Rightarrow> (rb_remaining buf = 0 \<and> buf' = buf) \<or>
        (\<exists>packet. recv (rb_remaining buf) = Ready (Inr packet) \<and>
          rb_filled buf' = rb_filled buf @ packet \<and>
          length (rb_filled buf') + rb_remaining buf' = length (rb_filled buf) + rb_remaining buf)
    | (_, buf') \<Rightarrow> buf' = buf) \<and> client_tun_poll_read recv buf = tun_poll_read recv buf"
  unfolding Let_def by (rule tun_reads_whole_packets) (simp add: packet_device_def)

end
