(* ===== verification/Host_Main.thy ===== *)
theory Host_Main
  imports Host_Dns Host_Route Tun_Device
begin

text \<open>
  \<open>crates/host/src/main.rs\<close>: the host agent's start-up and shutdown, and the dispatch of a flow. \<open>host_run_phase\<close> is everything during which a \<open>RouteManager\<close> is alive:
  it is cleaned up on every way out, by the call at the end or by its \<open>Drop\<close>.

  Whether the IP stack accepts an MTU is third-party behaviour, the argument \<open>mtu_check\<close>.
\<close>

datatype main_error =
    RouteContext bytes route_error
  | CreatingTun bytes io_error
  | InvalidMtu bytes
  | StackStopped io_error

definition host_server_hop ::
    "'net ipnet \<Rightarrow> os \<Rightarrow> 'net host_config \<Rightarrow> (main_error, next_hop option) io" where
  "host_server_hop N os cfg =
     (let server_ip = ip (hs_address (host_server cfg)) in
      if host_captures N cfg server_ip \<and> \<not> host_excludes N cfg server_ip then
        and_then (map_err (RouteContext (lit ''looking up the current route to the VM agent at ''
            @ show_ip server_ip)) (host_lookup os server_ip)) (\<lambda>hop. ret (Some hop))
      else ret None)"

fun host_exclude_hops ::
    "'net ipnet \<Rightarrow> os \<Rightarrow> 'net list \<Rightarrow> (main_error, ('net \<times> next_hop) list) io" where
  "host_exclude_hops N os [] = ret []"
| "host_exclude_hops N os (net # nets) =
     and_then (attempt (host_lookup os (net_network N net))) (\<lambda>r.
     and_then (host_exclude_hops N os nets) (\<lambda>hops.
     ret (case r of Inr hop \<Rightarrow> (net, hop) # hops | Inl _ \<Rightarrow> hops)))"

definition host_create_tun :: "os \<Rightarrow> 'net host_config \<Rightarrow> (main_error, unit) io" where
  "host_create_tun os cfg =
     (let tun = host_tun cfg in
      map_err (CreatingTun (lit ''creating TUN device '' @ tun_name tun
          @ lit '' (needs root or CAP_NET_ADMIN)''))
        (do_call os (CreateTun (tun_name tun) (tun_address tun) (tun_netmask tun) (tun_mtu tun))))"

text \<open>
  Installing the routes, as a function of what the manager has added so far; the result says
  whether start-up goes on.
\<close>

definition host_pin_server ::
    "'net ipnet \<Rightarrow> os \<Rightarrow> 'net host_config \<Rightarrow> next_hop option \<Rightarrow>
     (main_error, (main_error + unit) \<times> 'net list) io" where
  "host_pin_server N os cfg server_hop = (case server_hop of
      None \<Rightarrow> ret (Inr (), [])
    | Some hop \<Rightarrow>
        and_then (host_net N (ip (hs_address (host_server cfg)))) (\<lambda>net.
        and_then (host_add N os (Inl hop) net []) (\<lambda>(r, added).
        ret (case r of
            Inl e \<Rightarrow> Inl (RouteContext (lit ''pinning a direct route to the VM agent'') e)
          | Inr _ \<Rightarrow> Inr (), added))))"

fun host_pin_excluded ::
    "'net ipnet \<Rightarrow> os \<Rightarrow> ('net \<times> next_hop) list \<Rightarrow> 'net list \<Rightarrow> (main_error, 'net list) io" where
  "host_pin_excluded N os [] added = ret added"
| "host_pin_excluded N os ((net, hop) # hops) added =
     and_then (host_add N os (Inl hop) net added) (\<lambda>(_, added). host_pin_excluded N os hops added)"

fun host_add_routes ::
    "'net ipnet \<Rightarrow> os \<Rightarrow> bytes \<Rightarrow> 'net list \<Rightarrow> 'net list \<Rightarrow>
     (main_error, (main_error + unit) \<times> 'net list) io" where
  "host_add_routes N os dev [] added = ret (Inr (), added)"
| "host_add_routes N os dev (net # nets) added =
     and_then (host_add N os (Inr dev) net added) (\<lambda>(r, added). case r of
       Inl e \<Rightarrow> ret (Inl (RouteContext
         (lit ''installing route '' @ net_show N net @ lit '' via '' @ dev) e), added)
     | Inr _ \<Rightarrow> host_add_routes N os dev nets added)"

definition host_install_routes ::
    "'net ipnet \<Rightarrow> os \<Rightarrow> 'net host_config \<Rightarrow> next_hop option \<Rightarrow> ('net \<times> next_hop) list \<Rightarrow>
     (main_error, (main_error + unit) \<times> 'net list) io" where
  "host_install_routes N os cfg server_hop exclude_hops =
     (if tun_auto_route (host_tun cfg) then
        and_then (host_pin_server N os cfg server_hop) (\<lambda>(r, added). case r of
          Inl e \<Rightarrow> ret (Inl e, added)
        | Inr _ \<Rightarrow>
            and_then (host_pin_excluded N os exclude_hops added) (\<lambda>added.
            host_add_routes N os (tun_name (host_tun cfg)) (host_routes cfg) added))
      else ret (Inr (), []))"

text \<open>From the DNS forwarder to the end of the accept loop.\<close>

definition host_serve ::
    "os \<Rightarrow> (u16 \<Rightarrow> bytes option) \<Rightarrow> 'net host_config \<Rightarrow> main_error + unit \<Rightarrow> (main_error, unit) io" where
  "host_serve os mtu_check cfg ready = (case ready of
      Inl e \<Rightarrow> raise e
    | Inr _ \<Rightarrow>
        and_then (case host_dns cfg of
            Some _ \<Rightarrow> sys SpawnDns (\<lambda>_. Done ()) | None \<Rightarrow> ret ()) (\<lambda>_.
        case mtu_check (tun_mtu (host_tun cfg)) of
          Some err \<Rightarrow> raise (InvalidMtu (lit ''invalid tun.mtu ''
            @ show_dec (unat (tun_mtu (host_tun cfg))) @ lit '': '' @ err))
        | None \<Rightarrow> map_err StackStopped (do_call os AcceptLoop)))"

definition host_run_phase ::
    "'net ipnet \<Rightarrow> (u16 \<Rightarrow> bytes option) \<Rightarrow> os \<Rightarrow> 'net host_config \<Rightarrow> next_hop option \<Rightarrow>
     ('net \<times> next_hop) list \<Rightarrow> (main_error, main_error + unit) io" where
  "host_run_phase N mtu_check os cfg server_hop exclude_hops =
     and_then (host_install_routes N os cfg server_hop exclude_hops) (\<lambda>(ready, added).
     and_then (attempt (host_serve os mtu_check cfg ready)) (\<lambda>r.
     and_then (host_cleanup N os added) (\<lambda>_.
     ret r)))"

definition host_main ::
    "'net ipnet \<Rightarrow> (u16 \<Rightarrow> bytes option) \<Rightarrow> os \<Rightarrow> bool \<Rightarrow> 'net host_config \<Rightarrow>
     (main_error, unit) io" where
  "host_main N mtu_check os check cfg =
     (if check then ret ()
      else
        and_then (host_server_hop N os cfg) (\<lambda>server_hop.
        and_then (host_exclude_hops N os (host_exclude cfg)) (\<lambda>exclude_hops.
        and_then (host_create_tun os cfg) (\<lambda>_.
        and_then (host_run_phase N mtu_check os cfg server_hop exclude_hops) lift_result))))"

subsection \<open>Dispatch\<close>

text \<open>The task spawned for a flow; \<open>LocalShutdown\<close> is the FIN towards the local application.\<close>

definition host_dispatch :: "os \<Rightarrow> host_server_config \<Rightarrow> ip_stack_stream \<Rightarrow> (open_error, unit) io" where
  "host_dispatch os cfg stream = (case stream of
      Tcp src dst \<Rightarrow>
        and_then (attempt (host_open os cfg ConnectTcp (Ip dst))) (\<lambda>r. case r of
          Inl err \<Rightarrow> ignore (do_call os LocalShutdown)
        | Inr _ \<Rightarrow> ignore (host_relay_tcp os))
    | Udp src dst \<Rightarrow>
        and_then (attempt (host_open os cfg BindUdp (Ip dst))) (\<lambda>r. case r of
          Inl err \<Rightarrow> ret ()
        | Inr _ \<Rightarrow> ignore (host_relay_udp os))
    | UnknownTransport \<Rightarrow> ret ()
    | UnknownNetwork \<Rightarrow> ret ())"

definition host_join :: "'net ipnet \<Rightarrow> 'net list \<Rightarrow> bytes" where
  "host_join N nets = (if nets = [] then lit ''(none)'' else join (lit '', '') (map (net_show N) nets))"

subsection \<open>Everything installed is undone\<close>

abbreviation "host_tracks N \<equiv> tracks host_undo host_is_undo (host_undo_of N)"

lemma host_pin_excluded_tracks:
  "triple (host_tracks N os added) any_call (host_pin_excluded N os hops added)
    (\<lambda>added'. host_tracks N os added')"
proof (induction hops arbitrary: added)
  case Nil
  then show ?case by (simp add: triple_ret)
next
  case (Cons p hops)
  obtain net hop where p: "p = (net, hop)" by (cases p)
  show ?case
    unfolding p host_pin_excluded.simps
    by (rule triple_and_then [OF host_routes.add_tracks]) (auto intro: Cons.IH)
qed

lemma host_add_routes_tracks:
  "triple (host_tracks N os added) any_call (host_add_routes N os dev nets added)
    (\<lambda>(r, added'). host_tracks N os added')"
proof (induction nets arbitrary: added)
  case Nil
  then show ?case by (simp add: triple_ret)
next
  case (Cons net nets)
  show ?case
    unfolding host_add_routes.simps
    by (rule triple_and_then [OF host_routes.add_tracks])
      (auto intro: Cons.IH triple_ret split: sum.split)
qed

lemma host_pin_server_tracks:
  "triple (host_tracks N os []) any_call (host_pin_server N os cfg server_hop)
    (\<lambda>(r, added). host_tracks N os added)"
proof (cases server_hop)
  case None
  then show ?thesis by (simp add: host_pin_server_def triple_ret)
next
  case (Some hop)
  have "triple (host_tracks N os []) any_call
      (host_net N (ip (hs_address (host_server cfg))) :: (main_error, _) io) (\<lambda>_. host_tracks N os [])"
    by (auto simp: host_net_def triple_def ret_def panic_def split: option.split)
  with Some show ?thesis
    unfolding host_pin_server_def
    by (auto intro!: triple_and_then [OF _ triple_and_then [OF host_routes.add_tracks]] triple_ret
        split: prod.split)
qed

lemma host_install_routes_tracks:
  "triple (host_tracks N os []) any_call (host_install_routes N os cfg server_hop exclude_hops)
    (\<lambda>(r, added). host_tracks N os added)"
proof (cases "tun_auto_route (host_tun cfg)")
  case True
  then show ?thesis
    unfolding host_install_routes_def
    by (auto intro!: triple_and_then [OF host_pin_server_tracks] triple_ret
        triple_and_then [OF host_pin_excluded_tracks] host_add_routes_tracks split: sum.split)
next
  case False
  then show ?thesis by (simp add: host_install_routes_def triple_ret)
qed

lemma host_serve_neutral:
  "issues (route_neutral host_undo host_is_undo) (host_serve os mtu_check cfg ready) (\<lambda>_. True)"
  unfolding host_serve_def
  by (intro issues_intros) (auto simp: route_neutral_def host_undo_def host_is_undo_def)

lemma host_run_phase_undoes:
  "triple (host_tracks N os []) any_call (host_run_phase N mtu_check os cfg server_hop exclude_hops)
    (\<lambda>_ h. undone host_is_undo h = rev (installed host_undo os h))"
  unfolding host_run_phase_def
  by (rule host_routes.bracket_undoes [OF host_install_routes_tracks host_serve_neutral])

text \<open>For the whole program: nothing is left behind on any way out, except where it never returns.\<close>

abbreviation "host_neutral \<equiv> route_neutral host_undo host_is_undo"

lemma host_run_neutral [issues_intros]:
  assumes "\<And>f rest. args \<noteq> f # lit ''route'' # lit ''add'' # rest \<and>
      args \<noteq> f # lit ''route'' # lit ''replace'' # rest \<and> args \<noteq> f # lit ''route'' # lit ''del'' # rest"
  shows "issues host_neutral (host_run os args) (\<lambda>_. True)"
  using assms
  by (auto simp: issues_def host_run_run route_neutral_def host_undo_def host_is_undo_def
      split: list.splits)

lemma host_lookup_neutral [issues_intros]: "issues host_neutral (host_lookup os a) (\<lambda>_. True)"
  unfolding host_lookup_def Let_def
  by (intro issues_intros) (auto simp: lit_verbs)

lemma host_server_hop_neutral: "issues host_neutral (host_server_hop N os cfg) (\<lambda>_. True)"
  unfolding host_server_hop_def Let_def by (intro issues_intros) auto

lemma host_exclude_hops_neutral: "issues host_neutral (host_exclude_hops N os nets) (\<lambda>_. True)"
  by (induction nets) (auto intro!: issues_intros)

lemma host_create_tun_neutral: "issues host_neutral (host_create_tun os cfg) (\<lambda>_. True)"
  unfolding host_create_tun_def Let_def
  by (intro issues_intros) (auto simp: route_neutral_def host_undo_def host_is_undo_def)

lemma host_add_never_fails [never_fails_intros]: "never_fails (host_add N os how net added)"
  unfolding host_add_def host_pin_direct_def host_add_to_dev_def host_install_def host_exists_def
  by (intro never_fails_intros)

lemma host_pin_excluded_never_fails [never_fails_intros]:
  "never_fails (host_pin_excluded N os hops added)"
  by (induction N os hops added rule: host_pin_excluded.induct) (auto intro!: never_fails_intros)

lemma host_add_routes_never_fails [never_fails_intros]:
  "never_fails (host_add_routes N os dev nets added)"
  by (induction N os dev nets added rule: host_add_routes.induct) (auto intro!: never_fails_intros)

lemma host_cleanup_never_fails [never_fails_intros]: "never_fails (host_cleanup N os added)"
  by (simp add: never_fails_def host_routes.cleanup_run)

lemma host_run_phase_never_fails:
  "never_fails (host_run_phase N mtu_check os cfg server_hop exclude_hops)"
  unfolding host_run_phase_def host_install_routes_def host_pin_server_def host_net_def
  by (intro never_fails_intros)

lemma host_main_undoes:
  "ends (host_tracks N os []) (host_main N mtu_check os check cfg)
    (\<lambda>h. undone host_is_undo h = rev (installed host_undo os h))"
proof (cases check)
  case True
  then show ?thesis by (simp add: host_main_def ends_def ret_def tracks_def)
next
  case False
  have clean: "undone host_is_undo h = rev (installed host_undo os h)" if "host_tracks N os [] h" for h
    using that by (simp add: tracks_def)
  have run: "ends (host_tracks N os [])
      (and_then (host_run_phase N mtu_check os cfg server_hop exclude_hops) lift_result)
      (\<lambda>h. undone host_is_undo h = rev (installed host_undo os h))" for server_hop exclude_hops
    by (rule ends_lift_result, rule ends_triple)
      (rule host_run_phase_undoes host_run_phase_never_fails)+
  from False show ?thesis
    unfolding host_main_def
    by (simp add: host_routes.ends_after_neutral [OF host_server_hop_neutral clean]
        host_routes.ends_after_neutral [OF host_exclude_hops_neutral clean]
        host_routes.ends_after_neutral [OF host_create_tun_neutral clean] run)
qed

subsection \<open>The order of the start-up\<close>

text \<open>
  Next hops are looked up before the device exists, and direct routes are pinned before the first
  tunnel route; else the answers would be the tunnel itself.
\<close>

definition ip_verb :: "bytes \<Rightarrow> call \<Rightarrow> bool" where
  "ip_verb verb c \<longleftrightarrow> (\<exists>f rest. c = RunProgram (lit ''ip'') (f # lit ''route'' # verb # rest))"

definition is_create_tun :: "call \<Rightarrow> bool" where
  "is_create_tun c \<longleftrightarrow> (\<exists>name a m mtu. c = CreateTun name a m mtu)"

definition start_order :: "call list \<Rightarrow> call \<Rightarrow> bool" where
  "start_order h c \<longleftrightarrow>
     (ip_verb (lit ''get'') c \<longrightarrow> \<not> list_ex is_create_tun h) \<and>
     (ip_verb (lit ''add'') c \<longrightarrow> \<not> list_ex (ip_verb (lit ''replace'')) h)"

definition no_tun :: "call list \<Rightarrow> bool" where
  "no_tun h \<longleftrightarrow> \<not> list_ex is_create_tun h \<and> \<not> list_ex (ip_verb (lit ''replace'')) h"

definition no_tunnel_route :: "call list \<Rightarrow> bool" where
  "no_tunnel_route h \<longleftrightarrow> \<not> list_ex (ip_verb (lit ''replace'')) h"

lemma ip_verb_simp [simp]:
  "ip_verb verb (RunProgram p (f # obj # v # rest)) \<longleftrightarrow>
     p = lit ''ip'' \<and> obj = lit ''route'' \<and> v = verb"
  by (auto simp: ip_verb_def)

lemma lit_get: "lit ''get'' \<noteq> lit ''add''" "lit ''get'' \<noteq> lit ''replace''"
  "lit ''add'' \<noteq> lit ''replace''" "lit ''show'' \<noteq> lit ''get''" "lit ''replace'' \<noteq> lit ''get''"
  "lit ''add'' \<noteq> lit ''get''" "lit ''del'' \<noteq> lit ''get''"
  by (simp_all add: lit_def)

lemma issues_host_lookup: "issues (ip_verb (lit ''get'')) (host_lookup os a) (\<lambda>_. True)"
proof -
  have "issues (ip_verb (lit ''get'')) (host_run os [family_ip a, lit ''route'', lit ''get'', t]) (\<lambda>_. True)" for t
    by (simp add: issues_def host_run_run)
  then show ?thesis
    unfolding host_lookup_def Let_def by (intro issues_intros TrueI)
qed

lemma lookups_ordered:
  assumes "issues (ip_verb (lit ''get'')) m Q"
  shows "triple no_tun start_order m (\<lambda>_. no_tun)"
  by (rule triple_invariant [OF assms])
    (auto simp: no_tun_def start_order_def ip_verb_def is_create_tun_def lit_get)

lemma issues_host_server_hop: "issues (ip_verb (lit ''get'')) (host_server_hop N os cfg) (\<lambda>_. True)"
  unfolding host_server_hop_def Let_def by (intro issues_intros issues_host_lookup TrueI)

lemma issues_host_exclude_hops: "issues (ip_verb (lit ''get'')) (host_exclude_hops N os nets) (\<lambda>_. True)"
  by (induction nets) (auto intro!: issues_intros issues_host_lookup)

lemma create_tun_ordered: "triple no_tun start_order (host_create_tun os cfg) (\<lambda>_. no_tunnel_route)"
proof -
  have "issues is_create_tun (host_create_tun os cfg) (\<lambda>_. True)"
    unfolding host_create_tun_def Let_def by (intro issues_intros) (auto simp: is_create_tun_def)
  then have "triple no_tunnel_route start_order (host_create_tun os cfg) (\<lambda>_. no_tunnel_route)"
    by (rule triple_invariant)
      (auto simp: no_tunnel_route_def start_order_def is_create_tun_def ip_verb_def)
  then show ?thesis
    by (rule triple_conseq) (auto simp: no_tun_def no_tunnel_route_def)
qed

text \<open>Pinning looks for a route and adds one; it neither looks up nor replaces.\<close>

definition pin_call :: "call \<Rightarrow> bool" where
  "pin_call c \<longleftrightarrow> ip_verb (lit ''show'') c \<or> ip_verb (lit ''add'') c"

lemma pins_ordered:
  assumes "issues pin_call m Q"
  shows "triple no_tunnel_route start_order m (\<lambda>_. no_tunnel_route)"
  by (rule triple_invariant [OF assms])
    (auto simp: no_tunnel_route_def start_order_def pin_call_def ip_verb_def lit_get lit_verbs)

lemma issues_host_pin: "issues pin_call (host_add N os (Inl hop) net added) (\<lambda>_. True)"
proof -
  have "issues pin_call (host_run os (host_pin_args N net hop)) (\<lambda>_. True)"
    and "issues pin_call (host_run os
      [family N net, lit ''route'', lit ''show'', lit ''exact'', net_show N net]) (\<lambda>_. True)"
    by (simp_all add: issues_def host_run_run pin_call_def host_pin_args_def)
  then show ?thesis
    unfolding host_add_def host_pin_direct_def host_install_def host_exists_def sum.case
    by (intro issues_intros TrueI)
qed

lemma issues_host_pin_server: "issues pin_call (host_pin_server N os cfg hop) (\<lambda>_. True)"
  unfolding host_pin_server_def host_net_def
  by (auto intro!: issues_intros issues_host_pin split: option.split prod.split)

lemma issues_host_pin_excluded: "issues pin_call (host_pin_excluded N os hops added) (\<lambda>_. True)"
proof (induction N os hops added rule: host_pin_excluded.induct)
  case (2 N os net hop hops added)
  then show ?case by (auto intro!: issues_intros issues_host_pin split: prod.split)
qed (simp add: issues_ret)

text \<open>What comes after the pins looks nothing up and pins nothing.\<close>

definition late_call :: "call \<Rightarrow> bool" where
  "late_call c \<longleftrightarrow> \<not> ip_verb (lit ''get'') c \<and> \<not> ip_verb (lit ''add'') c"

lemma late_ordered:
  assumes "issues late_call m (\<lambda>_. True)"
  shows "triple I start_order m (\<lambda>_ _. True)"
  by (rule triple_of_issues [OF assms]) (auto simp: late_call_def start_order_def)

lemma issues_host_add_routes: "issues late_call (host_add_routes N os dev nets added) (\<lambda>_. True)"
proof (induction N os dev nets added rule: host_add_routes.induct)
  case (2 N os dev net nets added)
  have "issues late_call (host_run os (host_replace_args N net dev)) (\<lambda>_. True)"
    by (simp add: issues_def host_run_run late_call_def host_replace_args_def lit_get lit_verbs
        not_sym [OF lit_get(3)])
  then have "issues late_call (host_add N os (Inr dev) net added) (\<lambda>_. True)"
    unfolding host_add_def host_add_to_dev_def host_install_def sum.case by (intro issues_intros TrueI)
  with 2 show ?case by (auto intro!: issues_intros split: prod.split sum.split)
qed (simp add: issues_ret)

lemma issues_host_serve: "issues late_call (host_serve os mtu_check cfg ready) (\<lambda>_. True)"
  unfolding host_serve_def by (intro issues_intros) (auto simp: late_call_def ip_verb_def)

lemma issues_host_cleanup: "issues late_call (host_cleanup N os added) (\<lambda>_. True)"
  by (auto simp: issues_def host_routes.cleanup_run late_call_def host_undo_of_def host_del_args_def
      lit_get lit_verbs)

lemma install_ordered:
  "triple no_tunnel_route start_order (host_install_routes N os cfg server_hop exclude_hops) (\<lambda>_ _. True)"
proof -
  have routes: "triple no_tunnel_route start_order
      (and_then (host_pin_excluded N os exclude_hops added)
        (\<lambda>added. host_add_routes N os (tun_name (host_tun cfg)) (host_routes cfg) added)) (\<lambda>_ _. True)"
    for added
    by (rule triple_and_then [OF pins_ordered [OF issues_host_pin_excluded]
          late_ordered [OF issues_host_add_routes]])
  then have "triple no_tunnel_route start_order
      (case a of (r, added) \<Rightarrow> case r of
          Inl e \<Rightarrow> ret (Inl e, added)
        | Inr _ \<Rightarrow> and_then (host_pin_excluded N os exclude_hops added)
            (\<lambda>added. host_add_routes N os (tun_name (host_tun cfg)) (host_routes cfg) added))
      (\<lambda>_ _. True)" for a :: "(main_error + unit) \<times> 'a list"
    by (auto intro: triple_ret split: prod.split sum.split)
  then show ?thesis
    unfolding host_install_routes_def
    by (auto intro!: triple_and_then [OF pins_ordered [OF issues_host_pin_server]] triple_ret)
qed

lemma host_main_ordered:
  "triple no_tun start_order (host_main N mtu_check os check cfg) (\<lambda>_ _. True)"
proof -
  have late: "issues late_call (and_then (attempt (host_serve os mtu_check cfg ready)) (\<lambda>r.
      and_then (host_cleanup N os added) (\<lambda>_. ret r))) (\<lambda>_. True)" for ready added
    by (intro issues_intros issues_host_serve issues_host_cleanup TrueI)
  have "triple no_tunnel_route start_order
      (host_run_phase N mtu_check os cfg server_hop exclude_hops) (\<lambda>_ _. True)"
    for server_hop exclude_hops
    unfolding host_run_phase_def
    by (rule triple_and_then [OF install_ordered]) (auto intro!: late_ordered late split: prod.split)
  moreover have "triple (\<lambda>_. True) start_order (lift_result r) (\<lambda>_ _. True)"
    for r :: "main_error + unit"
    by (auto simp: triple_def lift_result_def split: sum.split)
  ultimately have run: "triple no_tunnel_route start_order
      (and_then (host_run_phase N mtu_check os cfg server_hop exclude_hops) lift_result) (\<lambda>_ _. True)"
    for server_hop exclude_hops
    by (rule triple_and_then)
  show ?thesis
    unfolding host_main_def
    by (auto intro!: triple_and_then [OF lookups_ordered [OF issues_host_server_hop]]
        triple_and_then [OF lookups_ordered [OF issues_host_exclude_hops]]
        triple_and_then [OF create_tun_ordered] run triple_ret)
qed

subsection \<open>Properties\<close>

text \<open>
  C26: on every way out of the host agent that is not a panic, the routes it deleted are exactly
  those it added or replaced before, the last one first.
\<close>

theorem host_leaves_no_route:
  assumes "host_main N mtu_check os check cfg [] = (r, h)" and "r \<noteq> Pending" "r \<noteq> Panicked"
  shows "undone host_is_undo h = rev (installed host_undo os h)"
proof -
  have "host_tracks N os [] []" by (simp add: tracks_def undone_def)
  with host_main_undoes [of N os mtu_check check cfg] assms show ?thesis
    by (cases r) (auto simp: ends_def dest!: spec [of _ "[]"])
qed

text \<open>A host whose \<open>ip route get\<close> answers, and a configuration with something to pin.\<close>

definition example_host_os :: os where
  "example_host_os = (willing_os (stream_of [] Stalls) [])\<lparr>os_run := (\<lambda>h prog args.
     Inr \<lparr>out_success = True, out_status = [],
       out_stdout = (if lit ''get'' \<in> set args then lit ''a dev e'' else []),
       out_stderr = []\<rparr>)\<rparr>"

definition example_host_config :: "cidr host_config" where
  "example_host_config = host_sample_config\<lparr>host_routes := [Cidr4 0 0]\<rparr>"

definition example_host_run :: "(main_error, unit) outcome \<times> call list" where
  "example_host_run = host_main cidr_net (\<lambda>_. None) example_host_os False example_host_config []"

lemma example_host_run_eq:
  "host_main cidr_net (\<lambda>_. None) example_host_os False example_host_config []
    = (fst example_host_run, snd example_host_run)"
  by (simp add: example_host_run_def)

lemma example_host_run_done: "example_host_run = (Done (),
   [RunProgram (lit ''ip'') [lit ''-4'', lit ''route'', lit ''get'', lit ''192.168.0.2''],
    CreateTun host_default_tun_name host_default_tun_address host_default_tun_netmask host_default_mtu,
    RunProgram (lit ''ip'') [lit ''-4'', lit ''route'', lit ''show'', lit ''exact'', lit ''192.168.0.2/32''],
    RunProgram (lit ''ip'') [lit ''-4'', lit ''route'', lit ''add'', lit ''192.168.0.2/32'', lit ''dev'', lit ''e''],
    RunProgram (lit ''ip'') [lit ''-4'', lit ''route'', lit ''replace'', lit ''0.0.0.0/0'', lit ''dev'',
      host_default_tun_name],
    AcceptLoop,
    RunProgram (lit ''ip'') [lit ''-4'', lit ''route'', lit ''del'', lit ''0.0.0.0/0''],
    RunProgram (lit ''ip'') [lit ''-4'', lit ''route'', lit ''del'', lit ''192.168.0.2/32'']])"
  by code_simp

theorem host_leaves_no_route_witness:
  "undone host_is_undo (snd example_host_run)
    = rev (installed host_undo example_host_os (snd example_host_run))"
  by (rule host_leaves_no_route [OF example_host_run_eq]) (simp_all add: example_host_run_done)

text \<open>
  C28: in every run of the host agent the routing table is looked up before the TUN device exists,
  and every direct route is pinned before the first route into the tunnel.
\<close>

theorem host_start_order:
  assumes "host_main N mtu_check os check cfg [] = (r, h)" and "i < j" "j < length h"
  shows "(is_create_tun (h ! i) \<longrightarrow> \<not> ip_verb (lit ''get'') (h ! j)) \<and>
    (ip_verb (lit ''replace'') (h ! i) \<longrightarrow> \<not> ip_verb (lit ''add'') (h ! j))"
proof -
  have "no_tun []" by (simp add: no_tun_def)
  with host_main_ordered [of N mtu_check os check cfg] assms(1)
  have "\<forall>i < length h. start_order (take i h) (h ! i)"
    by (auto simp: triple_def dest!: spec [of _ "[]"])
  with assms(3) have "start_order (take j h) (h ! j)" by blast
  moreover from assms(2,3) have "h ! i \<in> set (take j h)" by (auto simp: in_set_conv_nth)
  ultimately show ?thesis by (auto simp: start_order_def list_ex_iff)
qed

theorem host_start_order_witness:
  "\<not> ip_verb (lit ''get'') (snd example_host_run ! 2) \<and>
    \<not> ip_verb (lit ''add'') (snd example_host_run ! 6)"
proof -
  have "is_create_tun (snd example_host_run ! 1)" "ip_verb (lit ''replace'') (snd example_host_run ! 4)"
    by (auto simp: example_host_run_done is_create_tun_def ip_verb_def)
  moreover have "6 < length (snd example_host_run)" by (simp add: example_host_run_done)
  ultimately show ?thesis
    using host_start_order [OF example_host_run_eq, of 1 2] host_start_order [OF example_host_run_eq, of 4 6]
    by simp
qed

end
