(* ===== verification/Grpc_Pump.thy ===== *)
theory Grpc_Pump
  imports Streams
begin

text \<open>
  The two tasks that carry a byte stream over a gRPC stream of frames, spawned by \<open>open\<close> of
  \<open>crates/proxy-client/src/grpc.rs\<close> and by \<open>open\<close> of \<open>crates/proxy-server/src/grpc.rs\<close>: one cuts what
  it reads from a pipe into frames, the other writes the payloads of the frames it gets into one.
\<close>

definition FRAME_SIZE :: nat where
  "FRAME_SIZE = 16 * 1024"

subsection \<open>Bytes into frames\<close>

datatype frame_out_pc =
    OutReading                 \<comment> \<open>in \<open>outbound.read(&mut buffer)\<close>\<close>
  | OutSending bytes           \<comment> \<open>in \<open>tx.send(frame)\<close>\<close>
  | OutEnded                   \<comment> \<open>the pipe ended\<close>
  | OutBroken                  \<comment> \<open>the pipe or the channel failed\<close>

record frame_out =
  fo_src :: bytes
  fo_frames :: "bytes list"
  fo_status :: "bytes option"
  fo_pc :: frame_out_pc

definition fo_start :: "bytes \<Rightarrow> frame_out" where
  "fo_start src = \<lparr>fo_src = src, fo_frames = [], fo_status = None, fo_pc = OutReading\<rparr>"

text \<open>What a failed read leads to: the client just stops, the server reports a status first.\<close>

definition client_out_error :: "io_error \<Rightarrow> bytes option" where
  "client_out_error err = None"

definition srv_out_error :: "io_error \<Rightarrow> bytes option" where
  "srv_out_error err = Some (lit ''reading proxy response: '' @ err_text err)"

inductive frame_out_step :: "(io_error \<Rightarrow> bytes option) \<Rightarrow> frame_out \<Rightarrow> frame_out \<Rightarrow> bool"
  for on_error where
  OutRead: "\<lbrakk>fo_pc s = OutReading; 0 < n; n \<le> FRAME_SIZE; n \<le> length (fo_src s)\<rbrakk> \<Longrightarrow>
   frame_out_step on_error s
     (s\<lparr>fo_src := drop n (fo_src s), fo_pc := OutSending (take n (fo_src s))\<rparr>)"
| OutEof: "\<lbrakk>fo_pc s = OutReading; fo_src s = []\<rbrakk> \<Longrightarrow>
   frame_out_step on_error s (s\<lparr>fo_pc := OutEnded\<rparr>)"
| OutReadFails: "fo_pc s = OutReading \<Longrightarrow>
   frame_out_step on_error s (s\<lparr>fo_status := on_error err, fo_pc := OutBroken\<rparr>)"
| OutSent: "fo_pc s = OutSending payload \<Longrightarrow>
   frame_out_step on_error s (s\<lparr>fo_frames := fo_frames s @ [payload], fo_pc := OutReading\<rparr>)"
| OutSendFails: "fo_pc s = OutSending payload \<Longrightarrow>
   frame_out_step on_error s (s\<lparr>fo_pc := OutBroken\<rparr>)"

text \<open>The states of the two outbound tasks whose pipe delivers \<open>src\<close>.\<close>

definition client_outbound :: "bytes \<Rightarrow> frame_out \<Rightarrow> bool" where
  "client_outbound src s \<longleftrightarrow> (frame_out_step client_out_error)\<^sup>*\<^sup>* (fo_start src) s"

definition srv_outbound :: "bytes \<Rightarrow> frame_out \<Rightarrow> bool" where
  "srv_outbound src s \<longleftrightarrow> (frame_out_step srv_out_error)\<^sup>*\<^sup>* (fo_start src) s"

fun out_pending :: "frame_out_pc \<Rightarrow> bytes" where
  "out_pending (OutSending payload) = payload"
| "out_pending _ = []"

text \<open>The frames cut the stream without loss, and none is empty or too large.\<close>

definition frame_out_inv :: "bytes \<Rightarrow> frame_out \<Rightarrow> bool" where
  "frame_out_inv src s \<longleftrightarrow>
     (\<forall>f \<in> set (fo_frames s). f \<noteq> [] \<and> length f \<le> FRAME_SIZE) \<and>
     (\<forall>p. fo_pc s = OutSending p \<longrightarrow> p \<noteq> [] \<and> length p \<le> FRAME_SIZE) \<and>
     (\<exists>rest. concat (fo_frames s) @ rest = src) \<and>
     (fo_pc s \<noteq> OutBroken \<longrightarrow> concat (fo_frames s) @ out_pending (fo_pc s) @ fo_src s = src) \<and>
     (fo_pc s = OutEnded \<longrightarrow> fo_src s = [])"

lemma frame_out_inv_start: "frame_out_inv src (fo_start src)"
  by (simp add: frame_out_inv_def fo_start_def)

lemma frame_out_inv_step:
  "frame_out_step on_error s s' \<Longrightarrow> frame_out_inv src s \<Longrightarrow> frame_out_inv src s'"
  by (induction rule: frame_out_step.induct) (auto simp: frame_out_inv_def)

lemma frame_out_reachable:
  "(frame_out_step on_error)\<^sup>*\<^sup>* (fo_start src) s \<Longrightarrow> frame_out_inv src s"
  by (induction rule: rtranclp_induct) (auto simp: frame_out_inv_start intro: frame_out_inv_step)

subsection \<open>Frames into bytes\<close>

text \<open>What \<open>inbound.message()\<close> gives after the frames: the end of the stream, an error, or nothing.\<close>

datatype frames_end = FramesEnd | FramesError | FramesStall

record frame_in =
  fi_frames :: "bytes list"
  fi_end :: frames_end
  fi_written :: bytes
  fi_fin :: bool
  fi_running :: bool

definition fi_start :: "bytes list \<Rightarrow> frames_end \<Rightarrow> frame_in" where
  "fi_start frames e =
     \<lparr>fi_frames = frames, fi_end = e, fi_written = [], fi_fin = False, fi_running = True\<rparr>"

text \<open>
  Both shut the pipe down at the end of the stream; \<open>fin_on_error\<close> says whether also on an error, as
  the client does. The server only stops there: its pipe stays open on this side.
\<close>

definition client_fin_on_error :: bool where "client_fin_on_error = True"
definition srv_fin_on_error :: bool where "srv_fin_on_error = False"

inductive frame_in_step :: "bool \<Rightarrow> frame_in \<Rightarrow> frame_in \<Rightarrow> bool" for fin_on_error where
  InWrite: "\<lbrakk>fi_running s; fi_frames s = payload # rest\<rbrakk> \<Longrightarrow>
   frame_in_step fin_on_error s (s\<lparr>fi_frames := rest, fi_written := fi_written s @ payload\<rparr>)"
| InWriteFails: "\<lbrakk>fi_running s; fi_frames s = payload # rest\<rbrakk> \<Longrightarrow>
   frame_in_step fin_on_error s
     (s\<lparr>fi_frames := rest, fi_written := fi_written s @ take k payload, fi_running := False\<rparr>)"
| InEnd: "\<lbrakk>fi_running s; fi_frames s = []; fi_end s = FramesEnd\<rbrakk> \<Longrightarrow>
   frame_in_step fin_on_error s (s\<lparr>fi_fin := True, fi_running := False\<rparr>)"
| InError: "\<lbrakk>fi_running s; fi_frames s = []; fi_end s = FramesError\<rbrakk> \<Longrightarrow>
   frame_in_step fin_on_error s (s\<lparr>fi_fin := fin_on_error, fi_running := False\<rparr>)"

text \<open>The states of the two inbound tasks that receive \<open>frames\<close>.\<close>

definition client_inbound :: "bytes list \<Rightarrow> frames_end \<Rightarrow> frame_in \<Rightarrow> bool" where
  "client_inbound frames e s \<longleftrightarrow> (frame_in_step client_fin_on_error)\<^sup>*\<^sup>* (fi_start frames e) s"

definition srv_inbound :: "bytes list \<Rightarrow> frames_end \<Rightarrow> frame_in \<Rightarrow> bool" where
  "srv_inbound frames e s \<longleftrightarrow> (frame_in_step srv_fin_on_error)\<^sup>*\<^sup>* (fi_start frames e) s"

definition frame_in_inv :: "bytes list \<Rightarrow> frame_in \<Rightarrow> bool" where
  "frame_in_inv frames s \<longleftrightarrow>
     (\<exists>rest. fi_written s @ rest = concat frames) \<and>
     (fi_running s \<or> fi_fin s \<longrightarrow> fi_written s @ concat (fi_frames s) = concat frames) \<and>
     (fi_fin s \<longrightarrow> fi_frames s = [])"

lemma frame_in_inv_start: "frame_in_inv frames (fi_start frames e)"
  by (simp add: frame_in_inv_def fi_start_def)

lemma frame_in_inv_step:
  "frame_in_step fin s s' \<Longrightarrow> frame_in_inv frames s \<and> (fi_running s \<longrightarrow> \<not> fi_fin s) \<Longrightarrow>
    frame_in_inv frames s' \<and> (fi_running s' \<longrightarrow> \<not> fi_fin s')"
proof (induction rule: frame_in_step.induct)
  case (InWriteFails s payload rest k)
  then have "fi_written s @ payload @ concat rest = concat frames" by (simp add: frame_in_inv_def)
  then have "(fi_written s @ take k payload) @ (drop k payload @ concat rest) = concat frames"
    by (metis append.assoc append_take_drop_id)
  with InWriteFails show ?case unfolding frame_in_inv_def by auto
qed (auto simp: frame_in_inv_def)

lemma frame_in_reachable:
  assumes "(frame_in_step fin)\<^sup>*\<^sup>* (fi_start frames e) s"
  shows "frame_in_inv frames s \<and> (fi_running s \<longrightarrow> \<not> fi_fin s)"
  using assms
proof (induction rule: rtranclp_induct)
  case base
  then show ?case by (simp add: frame_in_inv_start) (simp add: fi_start_def)
next
  case (step s s')
  then show ?case using frame_in_inv_step by blast
qed

subsection \<open>From pipe to pipe\<close>

text \<open>
  gRPC delivers the frames in order, all of them or a beginning. What comes out of the far pipe is
  a beginning of what went into the near one, and all of it when both ends saw the end.
\<close>

lemma grpc_stream_prefix:
  assumes "(frame_out_step on_error)\<^sup>*\<^sup>* (fo_start src) a"
    and "(frame_in_step fin)\<^sup>*\<^sup>* (fi_start (take n (fo_frames a)) e) b"
  shows "\<exists>rest. fi_written b @ rest = src"
proof -
  from frame_out_reachable [OF assms(1)] obtain r1 where r1: "concat (fo_frames a) @ r1 = src"
    by (auto simp: frame_out_inv_def)
  from frame_in_reachable [OF assms(2)] obtain r2 where
      r2: "fi_written b @ r2 = concat (take n (fo_frames a))"
    by (auto simp: frame_in_inv_def)
  have "concat (fo_frames a) = concat (take n (fo_frames a)) @ concat (drop n (fo_frames a))"
    by (metis append_take_drop_id concat_append)
  with r1 r2 have "fi_written b @ (r2 @ concat (drop n (fo_frames a)) @ r1) = src"
    by (metis append.assoc)
  then show ?thesis ..
qed

lemma grpc_stream_complete:
  assumes "(frame_out_step on_error)\<^sup>*\<^sup>* (fo_start src) a" and "fo_pc a = OutEnded"
    and "(frame_in_step fin)\<^sup>*\<^sup>* (fi_start (fo_frames a) e) b" and "fi_fin b"
  shows "fi_written b = src"
  using frame_out_reachable [OF assms(1)] frame_in_reachable [OF assms(3)] assms(2,4)
  by (auto simp: frame_out_inv_def frame_in_inv_def)

subsection \<open>Properties\<close>

text \<open>
  A byte stream that crosses gRPC arrives unchanged, in both directions: what leaves the far
  pipe is a beginning of what entered the near one, however many frames were delivered; and it is
  all of it when the near pipe ended and the far one was shut down.
\<close>

lemma grpc_carries_stream:
  assumes "client_outbound src a" and "srv_inbound (take n (fo_frames a)) e b"
    and "srv_outbound src' a'" and "client_inbound (take n' (fo_frames a')) e' b'"
  shows "(\<exists>rest. fi_written b @ rest = src) \<and> (\<exists>rest. fi_written b' @ rest = src') \<and>
    (fo_pc a = OutEnded \<and> length (fo_frames a) \<le> n \<and> fi_fin b \<longrightarrow> fi_written b = src)"
proof -
  note defs = client_outbound_def srv_outbound_def client_inbound_def srv_inbound_def
  have "fi_written b = src" if "fo_pc a = OutEnded" "length (fo_frames a) \<le> n" "fi_fin b"
    using grpc_stream_complete [of client_out_error src a srv_fin_on_error e b] that assms(1,2)
    by (simp add: defs)
  with grpc_stream_prefix [OF assms(1,2) [unfolded defs]]
    grpc_stream_prefix [OF assms(3,4) [unfolded defs]]
  show ?thesis by blast
qed

text \<open>A stream that fits a frame and arrives in one.\<close>

definition one_frame_sent :: "bytes \<Rightarrow> frame_out" where
  "one_frame_sent bs = \<lparr>fo_src = [], fo_frames = [bs], fo_status = None, fo_pc = OutEnded\<rparr>"

definition one_frame_got :: "bytes \<Rightarrow> frame_in" where
  "one_frame_got bs =
     \<lparr>fi_frames = [], fi_end = FramesEnd, fi_written = bs, fi_fin = True, fi_running = False\<rparr>"

lemma two_steps: "r a b \<Longrightarrow> r b c \<Longrightarrow> r\<^sup>*\<^sup>* a c"
  by (meson rtranclp.rtrancl_into_rtrancl rtranclp.rtrancl_refl)

lemma three_steps: "r a b \<Longrightarrow> r b c \<Longrightarrow> r c d \<Longrightarrow> r\<^sup>*\<^sup>* a d"
  by (rule rtranclp.rtrancl_into_rtrancl [OF two_steps])

lemma one_frame_out:
  assumes "bs \<noteq> []" and "length bs \<le> FRAME_SIZE"
  shows "(frame_out_step on_error)\<^sup>*\<^sup>* (fo_start bs) (one_frame_sent bs)"
proof -
  let ?s1 = "(fo_start bs)\<lparr>fo_src := [], fo_pc := OutSending bs\<rparr>"
  let ?s2 = "?s1\<lparr>fo_frames := [bs], fo_pc := OutReading\<rparr>"
  have "frame_out_step on_error (fo_start bs) ?s1"
    using OutRead [of "fo_start bs" "length bs" on_error] assms by (simp add: fo_start_def)
  moreover have "frame_out_step on_error ?s1 ?s2"
    using OutSent [of ?s1 bs on_error] by (simp add: fo_start_def)
  moreover have "frame_out_step on_error ?s2 (?s2\<lparr>fo_pc := OutEnded\<rparr>)"
    by (rule OutEof) (simp_all add: fo_start_def)
  ultimately have "(frame_out_step on_error)\<^sup>*\<^sup>* (fo_start bs) (?s2\<lparr>fo_pc := OutEnded\<rparr>)"
    by (rule three_steps)
  then show ?thesis by (simp add: one_frame_sent_def fo_start_def)
qed

lemma one_frame_in: "(frame_in_step fin)\<^sup>*\<^sup>* (fi_start [bs] FramesEnd) (one_frame_got bs)"
proof -
  let ?s1 = "(fi_start [bs] FramesEnd)\<lparr>fi_frames := [], fi_written := bs\<rparr>"
  have "frame_in_step fin (fi_start [bs] FramesEnd) ?s1"
    using InWrite [of "fi_start [bs] FramesEnd" bs "[]" fin] by (simp add: fi_start_def)
  moreover have "frame_in_step fin ?s1 (?s1\<lparr>fi_fin := True, fi_running := False\<rparr>)"
    by (rule InEnd) (simp_all add: fi_start_def)
  ultimately have "(frame_in_step fin)\<^sup>*\<^sup>* (fi_start [bs] FramesEnd)
      (?s1\<lparr>fi_fin := True, fi_running := False\<rparr>)"
    by (rule two_steps)
  then show ?thesis by (simp add: one_frame_got_def fi_start_def)
qed

lemma grpc_carries_stream_witness:
  "(\<exists>rest. fi_written (one_frame_got [1, 2]) @ rest = [1, 2]) \<and> fi_written (one_frame_got [1, 2]) = [1, 2]"
proof -
  let ?out = "one_frame_sent [1, 2]" and ?in = "one_frame_got [1, 2]"
  have frames: "take 1 (fo_frames ?out) = [[1, 2]]" by (simp add: one_frame_sent_def)
  have out: "client_outbound [1, 2] ?out" "srv_outbound [1, 2] ?out"
    unfolding client_outbound_def srv_outbound_def by (rule one_frame_out; simp add: FRAME_SIZE_def)+
  have got: "srv_inbound (take 1 (fo_frames ?out)) FramesEnd ?in"
    "client_inbound (take 1 (fo_frames ?out)) FramesEnd ?in"
    unfolding frames srv_inbound_def client_inbound_def by (rule one_frame_in)+
  have "fo_pc ?out = OutEnded" "length (fo_frames ?out) \<le> 1" "fi_fin ?in"
    by (simp_all add: one_frame_sent_def one_frame_got_def)
  with grpc_carries_stream [OF out(1) got(1) out(2) got(2)] show ?thesis by blast
qed

end
