(* ===== verification/Client_Config.thy ===== *)
theory Client_Config
  imports Config_Path
begin

text \<open>
  \<open>crates/proxy-client/src/config.rs\<close>: the configuration of the proxy client. Validation rejects a
  configuration whose routes would capture the connection to the proxy server itself.
\<close>

record client_tun_config =
  ctun_name :: bytes
  ctun_address :: u32
  ctun_netmask :: u32
  ctun_mtu :: u16
  ctun_auto_route :: bool

record 'net client_config =
  cli_server :: socket_addr
  cli_quic_enabled :: bool
  cli_grpc_enabled :: bool
  cli_quic_server_opt :: "socket_addr option"
  cli_grpc_server_opt :: "socket_addr option"
  cli_token :: bytes
  cli_server_name :: bytes
  cli_certificate :: path
  cli_routes :: "'net list"
  cli_connect_timeout_ms :: u64
  cli_reconnect_interval_ms :: u64
  cli_tun :: client_tun_config

definition cli_default_server_name :: bytes where
  "cli_default_server_name = lit ''vpnbridge.local''"
definition cli_default_connect_timeout :: u64 where "cli_default_connect_timeout = 5000"
definition cli_default_reconnect_interval :: u64 where "cli_default_reconnect_interval = 3000"
definition cli_default_tun_name :: bytes where "cli_default_tun_name = lit ''vpnquic0''"
definition cli_default_tun_address :: u32 where "cli_default_tun_address = ipv4 10 212 0 1"
definition cli_default_tun_netmask :: u32 where "cli_default_tun_netmask = ipv4 255 255 255 0"
definition cli_default_mtu :: u16 where "cli_default_mtu = 1400"

definition cli_tun_default :: client_tun_config where
  "cli_tun_default = \<lparr>ctun_name = cli_default_tun_name, ctun_address = cli_default_tun_address,
     ctun_netmask = cli_default_tun_netmask, ctun_mtu = cli_default_mtu, ctun_auto_route = True\<rparr>"

definition cli_quic_server :: "'net client_config \<Rightarrow> socket_addr" where
  "cli_quic_server cfg = (case cli_quic_server_opt cfg of None \<Rightarrow> cli_server cfg | Some a \<Rightarrow> a)"

definition cli_grpc_server :: "'net client_config \<Rightarrow> socket_addr" where
  "cli_grpc_server cfg = (case cli_grpc_server_opt cfg of None \<Rightarrow> cli_server cfg | Some a \<Rightarrow> a)"

definition cli_enabled_servers :: "'net client_config \<Rightarrow> socket_addr list" where
  "cli_enabled_servers cfg =
     (if cli_quic_enabled cfg then [cli_quic_server cfg] else [])
     @ (if cli_grpc_enabled cfg then [cli_grpc_server cfg] else [])"

text \<open>\<open>for server in self.enabled_servers() { if captured { bail!(..) } }\<close>.\<close>

fun cli_check_servers :: "'net ipnet \<Rightarrow> 'net list \<Rightarrow> socket_addr list \<Rightarrow> config_error + unit" where
  "cli_check_servers N routes [] = Inr ()"
| "cli_check_servers N routes (server # servers) =
     (if any_contains N routes (ip server)
      then Inl (Bail (lit ''proxy server '' @ show_ip (ip server)
        @ lit '' is inside a proxy route; this would capture the tunnel itself''))
      else cli_check_servers N routes servers)"

definition cli_validate :: "'net ipnet \<Rightarrow> 'net client_config \<Rightarrow> config_error + unit" where
  "cli_validate N cfg =
     (if \<not> cli_quic_enabled cfg \<and> \<not> cli_grpc_enabled cfg
        then Inl (Bail (lit ''at least one of quic_enabled or grpc_enabled must be true''))
      else if cli_token cfg = [] then Inl (Bail (lit ''token must not be empty''))
      else if length (cli_token cfg) > 255
        then Inl (Bail (lit ''token must be at most 255 bytes''))
      else if trim_is_empty (cli_server_name cfg)
        then Inl (Bail (lit ''server_name must not be empty''))
      else if cli_routes cfg = [] then Inl (Bail (lit ''routes must not be empty''))
      else if list_ex (\<lambda>network. \<not> ip_is_ipv4 (net_addr N network)) (cli_routes cfg)
        then Inl (Bail (lit ''IPv6 routes are not supported until the TUN has an IPv6 address''))
      else case cli_check_servers N (cli_routes cfg) (cli_enabled_servers cfg) of
        Inl e \<Rightarrow> Inl e
      | Inr _ \<Rightarrow>
          if ctun_mtu (cli_tun cfg) < 1280 then Inl (Bail (lit ''tun.mtu must be at least 1280''))
          else if cli_reconnect_interval_ms cfg = 0
            then Inl (Bail (lit ''reconnect_interval_ms must be greater than zero''))
          else Inr ())"

definition cli_load ::
    "'net ipnet \<Rightarrow> (path \<Rightarrow> io_error + bytes) \<Rightarrow> (bytes \<Rightarrow> bytes + 'net client_config) \<Rightarrow> path \<Rightarrow>
     config_error + 'net client_config" where
  "cli_load N read_to_string from_toml p =
     (case read_to_string p of
        Inl e \<Rightarrow> Inl (ReadingConfig e)
      | Inr text \<Rightarrow> (case from_toml text of
          Inl e \<Rightarrow> Inl (ParsingConfig e)
        | Inr cfg \<Rightarrow>
            let cfg = (if \<not> path_absolute (cli_certificate cfg)
              then cfg\<lparr>cli_certificate := path_join
                (case path_parent p of None \<Rightarrow> current_dir_path | Some d \<Rightarrow> d) (cli_certificate cfg)\<rparr>
              else cfg)
            in (case cli_validate N cfg of Inl e \<Rightarrow> Inl e | Inr _ \<Rightarrow> Inr cfg)))"

definition cli_valid :: "'net ipnet \<Rightarrow> 'net client_config \<Rightarrow> bool" where
  "cli_valid N cfg \<longleftrightarrow> (cli_quic_enabled cfg \<or> cli_grpc_enabled cfg) \<and>
     cli_token cfg \<noteq> [] \<and> length (cli_token cfg) \<le> 255 \<and> \<not> trim_is_empty (cli_server_name cfg) \<and>
     cli_routes cfg \<noteq> [] \<and> (\<forall>net \<in> set (cli_routes cfg). ip_is_ipv4 (net_addr N net)) \<and>
     (\<forall>server \<in> set (cli_enabled_servers cfg). \<forall>net \<in> set (cli_routes cfg).
        \<not> net_contains N net (ip server)) \<and>
     1280 \<le> ctun_mtu (cli_tun cfg) \<and> cli_reconnect_interval_ms cfg \<noteq> 0"

lemma cli_check_servers_iff:
  "cli_check_servers N routes servers = Inr () \<longleftrightarrow>
    (\<forall>server \<in> set servers. \<forall>net \<in> set routes. \<not> net_contains N net (ip server))"
  by (induction servers) auto

lemma cli_validate_iff: "cli_validate N cfg = Inr () \<longleftrightarrow> cli_valid N cfg"
  unfolding cli_validate_def cli_valid_def
  using cli_check_servers_iff [of N "cli_routes cfg" "cli_enabled_servers cfg"]
  by (auto simp: list_ex_iff not_less split: sum.splits)

lemma cli_load_valid: "cli_load N rd toml p = Inr cfg \<Longrightarrow> cli_valid N cfg"
  by (auto simp: cli_load_def Let_def cli_validate_iff [symmetric] split: sum.splits)

text \<open>A configuration with the defaults of the crate, for the examples.\<close>

definition cli_sample_config :: "cidr client_config" where
  "cli_sample_config = \<lparr>cli_server = SA4 0xCB007101 443, cli_quic_enabled = True,
     cli_grpc_enabled = True, cli_quic_server_opt = None, cli_grpc_server_opt = None,
     cli_token = lit ''key'', cli_server_name = cli_default_server_name,
     cli_certificate = Path True [lit ''c.pem''], cli_routes = [Cidr4 0x0A000000 8],
     cli_connect_timeout_ms = cli_default_connect_timeout,
     cli_reconnect_interval_ms = cli_default_reconnect_interval, cli_tun = cli_tun_default\<rparr>"

text \<open>
  A configuration of the proxy client that loads cannot capture its own tunnel: no enabled
  server lies inside a route; and its token fits the wire, the MTU is the stack's minimum at
  least.
\<close>

lemma cli_load_no_self_capture:
  assumes "cli_load N rd toml p = Inr cfg"
  shows "(\<forall>server \<in> set (cli_enabled_servers cfg). \<forall>net \<in> set (cli_routes cfg).
      \<not> net_contains N net (ip server)) \<and>
    cli_enabled_servers cfg \<noteq> [] \<and> length (cli_token cfg) \<le> 255 \<and> 1280 \<le> ctun_mtu (cli_tun cfg)"
  using cli_load_valid [OF assms] by (auto simp: cli_valid_def cli_enabled_servers_def)

lemma cli_load_no_self_capture_witness:
  "list_all (\<lambda>server. list_all (\<lambda>net. \<not> net_contains cidr_net net (ip server))
      (cli_routes cli_sample_config)) (cli_enabled_servers cli_sample_config) \<and>
    cli_enabled_servers cli_sample_config \<noteq> [] \<and> length (cli_token cli_sample_config) \<le> 255 \<and>
    1280 \<le> ctun_mtu (cli_tun cli_sample_config)"
  unfolding list_all_iff
  by (rule cli_load_no_self_capture [where rd = "\<lambda>_. Inr []" and toml = "\<lambda>_. Inr cli_sample_config"
      and p = "file_path (lit ''proxy-client.toml'')"]) code_simp

end
