(* ===== verification/Client_Grpc.thy ===== *)
theory Client_Grpc
  imports Grpc_Pump Client_Config World
begin

text \<open>
  \<open>crates/proxy-client/src/grpc.rs\<close>: opening a flow over gRPC. The request goes out in the first
  frame; the response and the flow's bytes come back through the pipe the inbound pump fills, which
  is the peer's stream here. The pumps are those of the theory Grpc_Pump.
\<close>

datatype grpc_error =
    EncodingRequest io_error
  | StreamClosed
  | GrpcTimedOut bytes
  | OpeningGrpc bytes io_error
  | GrpcResponseTimedOut bytes
  | ReadingGrpcResponse bytes io_error
  | GrpcRefused bytes

definition cli_request :: "'net client_config \<Rightarrow> cmd \<Rightarrow> address \<Rightarrow> request" where
  "cli_request cfg c target = \<lparr>req_cmd = c, req_token = cli_token cfg, req_target = target\<rparr>"

text \<open>The message a refusal is reported with, by both transports.\<close>

definition cli_refusal :: "address \<Rightarrow> response \<Rightarrow> bytes" where
  "cli_refusal target resp =
     (let message = (if rsp_message resp = [] then show_status (rsp_status resp)
        else show_status (rsp_status resp) @ lit '': '' @ rsp_message resp)
      in lit ''proxy refused '' @ show_address target @ lit '': '' @ message)"

text \<open>Encoding into a \<open>Vec\<close>: the bytes, or the error of \<open>write_to\<close>.\<close>

definition grpc_encode :: "request \<Rightarrow> io_error + bytes" where
  "grpc_encode req = (case request_write_to vec_tx req [] of
      (Done _, bs) \<Rightarrow> Inr bs
    | (Failed err, _) \<Rightarrow> Inl err
    | _ \<Rightarrow> Inr [])"

definition grpc_open ::
    "os \<Rightarrow> 'net client_config \<Rightarrow> cmd \<Rightarrow> address \<Rightarrow> (grpc_error, unit) io" where
  "grpc_open os cfg c target =
     (case grpc_encode (cli_request cfg c target) of
        Inl err \<Rightarrow> raise (EncodingRequest err)
      | Inr payload \<Rightarrow>
          and_then (map_err (\<lambda>_. StreamClosed) (do_call os (GrpcSendFrame payload))) (\<lambda>_.
          and_then (with_timeout (unat (cli_connect_timeout_ms cfg)) (do_call os GrpcOpen)) (\<lambda>opened.
          case opened of
            None \<Rightarrow> raise (GrpcTimedOut (lit ''gRPC fallback connection timed out for ''
              @ show_address target))
          | Some (Inl err) \<Rightarrow> raise (OpeningGrpc (lit ''opening gRPC fallback stream for ''
              @ show_address target) err)
          | Some (Inr _) \<Rightarrow>
              and_then (with_timeout (unat (cli_connect_timeout_ms cfg))
                (response_read_from (peer_rx os))) (\<lambda>r.
              case r of
                None \<Rightarrow> raise (GrpcResponseTimedOut (lit ''gRPC proxy response timed out for ''
                  @ show_address target))
              | Some (Inl err) \<Rightarrow> raise (ReadingGrpcResponse (lit ''reading gRPC proxy response for ''
                  @ show_address target) err)
              | Some (Inr resp) \<Rightarrow>
                  if rsp_status resp \<noteq> Ok then raise (GrpcRefused (cli_refusal target resp))
                  else ret ()))))"

lemma grpc_encode_iff:
  "grpc_encode req = (if length (req_token req) > 255
     then Inl (IoError InvalidInput (lit ''token longer than 255 bytes''))
     else Inr (request_bytes req))"
  by (simp add: grpc_encode_def request_write_to_def raise_def and_then_def vec_tx_def ret_def)

text \<open>The frames an open sends: the request and nothing else, whatever happens.\<close>

definition grpc_open_call :: "bytes \<Rightarrow> call \<Rightarrow> bool" where
  "grpc_open_call bs c \<longleftrightarrow> c = GrpcSendFrame bs \<or> c = GrpcOpen \<or> is_read c \<or> (\<exists>d. c = Timer d)"

lemma grpc_open_calls:
  "issues (grpc_open_call (request_bytes (cli_request cfg c target))) (grpc_open os cfg c target) (\<lambda>_. True)"
proof -
  have "issues (grpc_open_call bs) (response_read_from (peer_rx os)) (\<lambda>_. True)" for bs
    by (rule issues_weaken [OF issues_response_read]) (auto simp: grpc_open_call_def)
  then show ?thesis
    unfolding grpc_open_def grpc_encode_iff
    by (auto intro!: issues_intros simp: grpc_open_call_def split: option.split sum.split)
qed

end
