(* ===== verification/Client_Quic.thy ===== *)
theory Client_Quic
  imports Client_Grpc
begin

text \<open>
  \<open>crates/proxy-client/src/quic.rs\<close>: opening a flow over QUIC. One connection is kept in a slot and
  shared by the flows; connections are numbered by \<open>QuicConnect\<close>, and the slot is passed through.
  The peer's stream is the bidirectional stream of the flow.
\<close>

datatype quic_error =
    QuicStarting io_error
  | QuicTimedOut
  | QuicConnecting io_error
  | OpeningStream io_error
  | SendingRequest bytes io_error
  | ReadingResponse bytes io_error
  | ResponseTimedOut bytes

datatype quic_open_error = Unavailable quic_error | Rejected bytes

text \<open>\<open>close_reason().is_none()\<close>.\<close>

definition quic_is_open :: "os \<Rightarrow> nat \<Rightarrow> ('e, bool) io" where
  "quic_is_open os n = sys (QuicCloseReason n) (\<lambda>h. Done (os_flag os h (QuicCloseReason n)))"

text \<open>A new connection, and the slot it is put into.\<close>

definition quic_dial ::
    "os \<Rightarrow> 'net client_config \<Rightarrow> nat option \<Rightarrow> ('e, (quic_error + nat) \<times> nat option) io" where
  "quic_dial os cfg slot =
     and_then (attempt (do_call os (QuicStart (cli_quic_server cfg) (cli_server_name cfg)))) (\<lambda>started.
     case started of
       Inl err \<Rightarrow> ret (Inl (QuicStarting err), slot)
     | Inr _ \<Rightarrow>
         and_then (with_timeout (unat (cli_connect_timeout_ms cfg))
             (sys QuicConnect (\<lambda>h. os_handle os h QuicConnect))) (\<lambda>r.
         ret (case r of
             None \<Rightarrow> (Inl QuicTimedOut, slot)
           | Some (Inl err) \<Rightarrow> (Inl (QuicConnecting err), slot)
           | Some (Inr n) \<Rightarrow> (Inr n, Some n))))"

definition quic_connection ::
    "os \<Rightarrow> 'net client_config \<Rightarrow> nat option \<Rightarrow> ('e, (quic_error + nat) \<times> nat option) io" where
  "quic_connection os cfg slot = (case slot of
      Some n \<Rightarrow> and_then (quic_is_open os n) (\<lambda>open.
        if open then ret (Inr n, slot) else quic_dial os cfg slot)
    | None \<Rightarrow> quic_dial os cfg slot)"

text \<open>\<open>invalidate\<close> takes the connection out of the slot, whichever it is by then.\<close>

definition quic_invalidate :: "nat option \<Rightarrow> nat option" where
  "quic_invalidate slot = None"

definition quic_handshake ::
    "os \<Rightarrow> 'net client_config \<Rightarrow> cmd \<Rightarrow> address \<Rightarrow> nat option \<Rightarrow>
     ('e, (quic_open_error + unit) \<times> nat option) io" where
  "quic_handshake os cfg c target slot =
     and_then (attempt (request_write_to (peer_tx os) (cli_request cfg c target))) (\<lambda>written.
     case written of
       Inl err \<Rightarrow> ret (Inl (Unavailable (SendingRequest
         (lit ''sending QUIC proxy request for '' @ show_address target) err)), quic_invalidate slot)
     | Inr _ \<Rightarrow>
         and_then (with_timeout (unat (cli_connect_timeout_ms cfg))
             (response_read_from (peer_rx os))) (\<lambda>r.
         ret (case r of
             None \<Rightarrow> (Inl (Unavailable (ResponseTimedOut
               (lit ''QUIC proxy response timed out for '' @ show_address target))),
               quic_invalidate slot)
           | Some (Inl err) \<Rightarrow> (Inl (Unavailable (ReadingResponse
               (lit ''reading QUIC proxy response for '' @ show_address target) err)),
               quic_invalidate slot)
           | Some (Inr resp) \<Rightarrow>
               (if rsp_status resp \<noteq> Ok then Inl (Rejected (cli_refusal target resp)) else Inr (),
                slot))))"

definition quic_use ::
    "os \<Rightarrow> 'net client_config \<Rightarrow> cmd \<Rightarrow> address \<Rightarrow> (quic_error + nat) \<times> nat option \<Rightarrow>
     ('e, (quic_open_error + unit) \<times> nat option) io" where
  "quic_use os cfg c target connection = (case connection of
       (Inl err, slot) \<Rightarrow> ret (Inl (Unavailable err), slot)
     | (Inr n, slot) \<Rightarrow>
         and_then (attempt (do_call os (QuicOpenBi n))) (\<lambda>opened.
         case opened of
           Inl err \<Rightarrow> ret (Inl (Unavailable (OpeningStream err)), quic_invalidate slot)
         | Inr _ \<Rightarrow> quic_handshake os cfg c target slot))"

definition quic_open ::
    "os \<Rightarrow> 'net client_config \<Rightarrow> cmd \<Rightarrow> address \<Rightarrow> nat option \<Rightarrow>
     ('e, (quic_open_error + unit) \<times> nat option) io" where
  "quic_open os cfg c target slot =
     and_then (quic_connection os cfg slot) (quic_use os cfg c target)"

subsection \<open>The trust store and the local address\<close>

text \<open>
  \<open>load_roots\<close>: the file, its PEM certificates, and adding each to the store are the system's and
  rustls' business, the arguments of the function; that an empty file is refused is the code's.
\<close>

datatype roots_error =
    OpeningCertificate io_error
  | ReadingPem bytes
  | NoCertificates
  | AddingCertificate bytes

fun add_roots :: "('cert \<Rightarrow> 'store \<Rightarrow> bytes + 'store) \<Rightarrow> 'cert list \<Rightarrow> 'store \<Rightarrow> roots_error + 'store" where
  "add_roots add [] store = Inr store"
| "add_roots add (cert # certs) store = (case add cert store of
      Inl err \<Rightarrow> Inl (AddingCertificate err)
    | Inr store' \<Rightarrow> add_roots add certs store')"

definition load_roots ::
    "(path \<Rightarrow> io_error + bytes) \<Rightarrow> (bytes \<Rightarrow> bytes + 'cert list) \<Rightarrow>
     ('cert \<Rightarrow> 'store \<Rightarrow> bytes + 'store) \<Rightarrow> 'store \<Rightarrow> path \<Rightarrow> roots_error + 'store" where
  "load_roots read_file pem_certs add empty_store p = (case read_file p of
      Inl err \<Rightarrow> Inl (OpeningCertificate err)
    | Inr text \<Rightarrow> (case pem_certs text of
        Inl err \<Rightarrow> Inl (ReadingPem err)
      | Inr certs \<Rightarrow>
          if certs = [] then Inl NoCertificates else add_roots add certs empty_store))"

fun quic_bind_addr :: "socket_addr \<Rightarrow> socket_addr" where
  "quic_bind_addr (SA4 a p) = socket_addr_new (V4 0) 0"
| "quic_bind_addr (SA6 a p f s) = socket_addr_new (V6 0) 0"

lemma quic_bind_family: "sa_is_ipv4 (quic_bind_addr server) = sa_is_ipv4 server"
  by (cases server) (auto simp: sa_is_ipv4_def)

subsection \<open>The slot\<close>

text \<open>A cached connection that is still open is used as it is: nothing is dialled.\<close>

lemma quic_connection_reuses:
  assumes "os_flag os h (QuicCloseReason n)"
  shows "quic_connection os cfg (Some n) h = (Done (Inr n, Some n), h @ [QuicCloseReason n])"
  using assms by (simp add: quic_connection_def quic_is_open_def and_then_def sys_def ret_def)

text \<open>
  How the slot follows the outcome: a flow that opened, or was refused by the server, leaves a
  connection in it; one that failed on an established connection leaves it empty, so that the next
  flow dials; one that could not connect leaves it as it was.
\<close>

definition quic_slot_ok :: "nat option \<Rightarrow> (quic_open_error + unit) \<times> nat option \<Rightarrow> bool" where
  "quic_slot_ok old res = (case res of
      (Inr _, slot) \<Rightarrow> slot \<noteq> None
    | (Inl (Rejected _), slot) \<Rightarrow> slot \<noteq> None
    | (Inl (Unavailable (QuicStarting _)), slot) \<Rightarrow> slot = old
    | (Inl (Unavailable QuicTimedOut), slot) \<Rightarrow> slot = old
    | (Inl (Unavailable (QuicConnecting _)), slot) \<Rightarrow> slot = old
    | (Inl (Unavailable _), slot) \<Rightarrow> slot = None)"

lemma quic_handshake_slot:
  "slot \<noteq> None \<Longrightarrow> quic_handshake os cfg c target slot h = (Done res, h') \<Longrightarrow> quic_slot_ok old res"
  by (auto simp: quic_handshake_def and_then_def attempt_def with_timeout_def timeout_def ret_def
      sys_def quic_slot_ok_def quic_invalidate_def
      split: prod.splits outcome.splits sum.splits option.splits if_splits)

lemma quic_dial_slot:
  assumes "quic_dial os cfg slot h = (Done (conn, slot'), h')"
  shows "(case conn of Inr n \<Rightarrow> slot' = Some n
    | Inl err \<Rightarrow> slot' = slot \<and> quic_slot_ok slot (Inl (Unavailable err), slot'))"
  using assms
  by (auto simp: quic_dial_def and_then_def attempt_def with_timeout_def timeout_def ret_def
      sys_def do_call_def quic_slot_ok_def
      split: prod.splits outcome.splits sum.splits option.splits)

lemma quic_connection_slot:
  assumes "quic_connection os cfg slot h = (Done (conn, slot'), h')"
  shows "(case conn of Inr n \<Rightarrow> slot' = Some n
    | Inl err \<Rightarrow> slot' = slot \<and> quic_slot_ok slot (Inl (Unavailable err), slot'))"
  using assms
  by (auto simp: quic_connection_def quic_is_open_def ret_def sys_def and_then_def
      split: option.splits if_splits dest!: quic_dial_slot)

lemma quic_use_slot:
  assumes "(quic_use os cfg c target (Inr n, Some m) :: ('e, _) io) h = (Done res, h')"
  shows "quic_slot_ok old res"
proof -
  from assms obtain opened :: "io_error + unit" and h1 where
      opened: "(case opened of
           Inl err \<Rightarrow> ret (Inl (Unavailable (OpeningStream err)), quic_invalidate (Some m))
         | Inr _ \<Rightarrow> quic_handshake os cfg c target (Some m)) h1 = (Done res :: ('e, _) outcome, h')"
    unfolding quic_use_def prod.case sum.case by (elim and_then_DoneD) blast
  show ?thesis
  proof (cases opened)
    case (Inl err)
    with opened show ?thesis by (auto simp: ret_Done_iff quic_slot_ok_def quic_invalidate_def)
  next
    case (Inr u)
    with opened show ?thesis by (auto intro: quic_handshake_slot [of "Some m", rotated])
  qed
qed

lemma quic_open_slot:
  assumes "(quic_open os cfg c target slot :: ('e, _) io) h = (Done res, h')"
  shows "quic_slot_ok slot res"
proof -
  from assms obtain a h1 where conn: "quic_connection os cfg slot h = (Done a :: ('e, _) outcome, h1)"
    and use_it: "quic_use os cfg c target a h1 = (Done res :: ('e, _) outcome, h')"
    unfolding quic_open_def by (rule and_then_DoneD)
  obtain r slot1 where a: "a = (r, slot1)" by (cases a)
  show ?thesis
  proof (cases r)
    case (Inl err)
    with use_it quic_connection_slot [OF conn [unfolded a]] a show ?thesis
      by (simp add: quic_use_def ret_Done_iff)
  next
    case (Inr n)
    with use_it quic_connection_slot [OF conn [unfolded a]] a show ?thesis
      by (auto intro: quic_use_slot)
  qed
qed

subsection \<open>Properties\<close>

text \<open>
  The shared QUIC connection: while the one in the slot is open it is used and nothing is
  dialled; and after every flow that returns, the slot holds a connection if the flow opened or
  was refused by the server, is empty if the flow failed on an established connection, and is as
  before if none could be established.
\<close>

lemma quic_slot_discipline:
  assumes "(quic_open os cfg c target slot :: ('e, _) io) h = (Done res, h')"
  shows "quic_slot_ok slot res \<and>
    (\<forall>n g. os_flag os g (QuicCloseReason n) \<longrightarrow>
      (quic_connection os cfg (Some n) :: ('e, _) io) g = (Done (Inr n, Some n), g @ [QuicCloseReason n]))"
  using quic_open_slot [OF assms] quic_connection_reuses by blast

lemma quic_open_no_start:
  assumes "os_unit os h (QuicStart (cli_quic_server cfg) (cli_server_name cfg)) = Failed err"
  shows "quic_open os cfg c target None h = (Done (Inl (Unavailable (QuicStarting err)), None),
    h @ [QuicStart (cli_quic_server cfg) (cli_server_name cfg)])"
  using assms
  by (simp add: quic_open_def quic_connection_def quic_dial_def quic_use_def and_then_def
      attempt_def do_call_def sys_def ret_def)

lemma quic_slot_discipline_witness:
  "let os = (willing_os (stream_of [] Stalls) [])\<lparr>os_unit := (\<lambda>h c. Failed (IoError TimedOut []))\<rparr> in
   quic_slot_ok None (Inl (Unavailable (QuicStarting (IoError TimedOut []))), None) \<and>
   (\<forall>n g. os_flag os g (QuicCloseReason n) \<longrightarrow>
      (quic_connection os cli_sample_config (Some n) :: (unit, _) io) g
        = (Done (Inr n, Some n), g @ [QuicCloseReason n]))"
  unfolding Let_def
  by (rule quic_slot_discipline [OF quic_open_no_start [where h = "[]" and c = ConnectTcp
      and target = "Ip (SA4 0 0)" and err = "IoError TimedOut []"]]) simp

end
