(* ===== verification/Client_Transport.thy ===== *)
theory Client_Transport
  imports Client_Quic
begin

text \<open>
  \<open>crates/proxy-client/src/transport.rs\<close>: the choice between QUIC and gRPC for a flow.
  \<open>transport_open\<close> is \<open>TransportClient::open\<close>, over any two transports and any clock; the instant up
  to which QUIC is left alone, \<open>fallback_until\<close>, is passed through. \<open>transport_client_open\<close> is its
  instance with the transports of Client_Quic and Client_Grpc.
\<close>

datatype flow_transport = Quic | Grpc

datatype 'g transport_error =
    GrpcDisabled
  | GrpcFailed 'g
  | QuicFailed quic_open_error
  | BothUnavailable 'g

type_synonym ('s, 'e, 'flow) opener = "cmd \<Rightarrow> address \<Rightarrow> ('s, 'e, 'flow) act"

text \<open>\<open>Instant::now()\<close> of a clock that is part of the state.\<close>

definition read_clock :: "('s \<Rightarrow> nat \<times> 's) \<Rightarrow> ('s, 'e, nat) act" where
  "read_clock now s = (case now s of (t, s') \<Rightarrow> (Done t, s'))"

definition is_suppressed :: "('s \<Rightarrow> nat \<times> 's) \<Rightarrow> nat option \<Rightarrow> ('s, 'e, bool) act" where
  "is_suppressed now fallback_until = (case fallback_until of
      None \<Rightarrow> ret False
    | Some until \<Rightarrow> and_then (read_clock now) (\<lambda>t. ret (t < until)))"

text \<open>QUIC first; when it is unavailable, gRPC, and QUIC is left alone for a while.\<close>

definition open_with_fallback ::
    "('s, quic_open_error, 'flow) opener \<Rightarrow> ('s, 'g, 'flow) opener \<Rightarrow> ('s \<Rightarrow> nat \<times> 's) \<Rightarrow> nat \<Rightarrow>
     cmd \<Rightarrow> address \<Rightarrow> nat option \<Rightarrow>
     ('s, 'e, ('g transport_error + 'flow \<times> flow_transport) \<times> nat option) act" where
  "open_with_fallback quic grpc now retry_interval c target fallback_until =
     and_then (attempt (quic c target)) (\<lambda>r. case r of
       Inr flow \<Rightarrow> ret (Inr (flow, Quic), None)
     | Inl (Rejected err) \<Rightarrow> ret (Inl (QuicFailed (Rejected err)), fallback_until)
     | Inl (Unavailable quic_error) \<Rightarrow>
         and_then (read_clock now) (\<lambda>t.
         and_then (attempt (grpc c target)) (\<lambda>g. case g of
           Inr flow \<Rightarrow> ret (Inr (flow, Grpc), Some (t + retry_interval))
         | Inl err \<Rightarrow> ret (Inl (BothUnavailable err), Some (t + retry_interval)))))"

definition transport_open ::
    "('s, quic_open_error, 'flow) opener option \<Rightarrow> ('s, 'g, 'flow) opener option \<Rightarrow>
     ('s \<Rightarrow> nat \<times> 's) \<Rightarrow> nat \<Rightarrow> cmd \<Rightarrow> address \<Rightarrow> nat option \<Rightarrow>
     ('s, 'e, ('g transport_error + 'flow \<times> flow_transport) \<times> nat option) act" where
  "transport_open quic_opt grpc_opt now retry_interval c target fallback_until =
     (case quic_opt of
        None \<Rightarrow> (case grpc_opt of
            None \<Rightarrow> ret (Inl GrpcDisabled, fallback_until)
          | Some grpc \<Rightarrow> and_then (attempt (grpc c target)) (\<lambda>g. ret (case g of
              Inr flow \<Rightarrow> Inr (flow, Grpc) | Inl err \<Rightarrow> Inl (GrpcFailed err), fallback_until)))
      | Some quic \<Rightarrow> (case grpc_opt of
            None \<Rightarrow> and_then (attempt (quic c target)) (\<lambda>r. ret (case r of
              Inr flow \<Rightarrow> Inr (flow, Quic) | Inl err \<Rightarrow> Inl (QuicFailed err), fallback_until))
          | Some grpc \<Rightarrow>
              and_then (is_suppressed now fallback_until) (\<lambda>quic_suppressed.
              if quic_suppressed then
                and_then (attempt (grpc c target)) (\<lambda>g. case g of
                  Inr flow \<Rightarrow> ret (Inr (flow, Grpc), fallback_until)
                | Inl _ \<Rightarrow> open_with_fallback quic grpc now retry_interval c target None)
              else open_with_fallback quic grpc now retry_interval c target fallback_until)))"

text \<open>
  The client's own transports. Each flow's QUIC stream and gRPC stream are peers of their own, with
  an environment and a trace each; the slot of the QUIC connection is part of the state.
\<close>

record transport_state =
  ts_slot :: "nat option"
  ts_quic :: "call list"
  ts_grpc :: "call list"

definition run_quic ::
    "os \<Rightarrow> 'net client_config \<Rightarrow> (transport_state, quic_open_error, unit) opener" where
  "run_quic os cfg c target s =
     (case (quic_open os cfg c target (ts_slot s) :: (unit, _) io) (ts_quic s) of
        (Done (r, slot), h) \<Rightarrow>
          (case r of Inr u \<Rightarrow> Done u | Inl e \<Rightarrow> Failed e, s\<lparr>ts_slot := slot, ts_quic := h\<rparr>)
      | (Failed _, h) \<Rightarrow> (Panicked, s\<lparr>ts_quic := h\<rparr>)
      | (Pending, h) \<Rightarrow> (Pending, s\<lparr>ts_quic := h\<rparr>)
      | (Panicked, h) \<Rightarrow> (Panicked, s\<lparr>ts_quic := h\<rparr>))"

definition run_grpc ::
    "os \<Rightarrow> 'net client_config \<Rightarrow> (transport_state, grpc_error, unit) opener" where
  "run_grpc os cfg c target s =
     (case grpc_open os cfg c target (ts_grpc s) of (r, h) \<Rightarrow> (r, s\<lparr>ts_grpc := h\<rparr>))"

definition transport_client_open ::
    "os \<Rightarrow> os \<Rightarrow> 'net client_config \<Rightarrow> cmd \<Rightarrow> address \<Rightarrow> nat option \<Rightarrow>
     (transport_state, 'e, (grpc_error transport_error + unit \<times> flow_transport) \<times> nat option) act" where
  "transport_client_open quic_os grpc_os cfg =
     transport_open
       (if cli_quic_enabled cfg then Some (run_quic quic_os cfg) else None)
       (if cli_grpc_enabled cfg then Some (run_grpc grpc_os cfg) else None)
       (\<lambda>s. (os_now quic_os (ts_quic s), s)) (unat (cli_reconnect_interval_ms cfg))"

subsection \<open>What a flow can rely on\<close>

text \<open>The server's refusal is final: gRPC is not asked to overrule it, and QUIC stays preferred.\<close>

lemma rejected_is_final:
  assumes "quic c target s = (Failed (Rejected msg), s')"
    and "is_suppressed now fb s = (Done False :: ('e, bool) outcome, s)"
  shows "transport_open (Some quic) (Some grpc) now retry c target fb s
    = (Done (Inl (QuicFailed (Rejected msg)), fb) :: ('e, _) outcome, s')"
  using assms
  by (simp add: transport_open_def open_with_fallback_def and_then_def attempt_def ret_def)

text \<open>While QUIC is suppressed and gRPC works, QUIC is not touched.\<close>

lemma suppressed_uses_grpc:
  assumes "now s = (t, s')" and "t < until" and "grpc c target s' = (Done flow, s'')"
  shows "transport_open (Some quic) (Some grpc) now retry c target (Some until) s
    = (Done (Inr (flow, Grpc), Some until), s'')"
  using assms
  by (simp add: transport_open_def is_suppressed_def read_clock_def and_then_def attempt_def ret_def)

text \<open>The suppression ends by itself, and ends early when gRPC fails or QUIC works.\<close>

lemma expired_tries_quic:
  assumes "now s = (t, s')" and "until \<le> t"
  shows "transport_open (Some quic) (Some grpc) now retry c target (Some until) s
    = open_with_fallback quic grpc now retry c target (Some until) s'"
  using assms
  by (simp add: transport_open_def is_suppressed_def read_clock_def and_then_def ret_def)

lemma quic_success_clears:
  assumes "quic c target s = (Done flow, s')"
  shows "open_with_fallback quic grpc now retry c target fb s = (Done (Inr (flow, Quic), None), s')"
  using assms by (simp add: open_with_fallback_def and_then_def attempt_def ret_def)

text \<open>Where gRPC works, a flow fails only because the server refused it.\<close>

lemma grpc_saves_flow:
  assumes grpc: "\<And>s. \<exists>flow s'. grpc c target s = (Done flow, s')"
    and "transport_open (Some quic) (Some grpc) now retry c target fb s = (Done (Inl err, fb'), s')"
  shows "\<exists>msg. err = QuicFailed (Rejected msg)"
proof -
  have fallback: "\<exists>msg. err = QuicFailed (Rejected msg)"
    if "open_with_fallback quic grpc now retry c target fb s = (Done (Inl err, fb'), s')" for fb s
    using that grpc
    by (auto simp: open_with_fallback_def and_then_def attempt_def ret_def read_clock_def
        split: prod.splits outcome.splits sum.splits quic_open_error.splits)
      (metis Pair_inject outcome.distinct(1))+
  show ?thesis
    using assms(2) grpc fallback
    by (auto simp: transport_open_def and_then_def attempt_def ret_def is_suppressed_def read_clock_def
        split: prod.splits outcome.splits sum.splits option.splits if_splits)
qed

subsection \<open>How often QUIC is tried\<close>

text \<open>
  A server that cannot be reached over QUIC while gRPC works: the state is the times at which QUIC
  was tried and the time of the current flow.
\<close>

definition down_quic :: "(nat list \<times> nat, quic_open_error, unit) opener" where
  "down_quic c target s = (Failed (Unavailable QuicTimedOut), (fst s @ [snd s], snd s))"

definition up_grpc :: "(nat list \<times> nat, grpc_error, unit) opener" where
  "up_grpc c target s = (Done (), s)"

definition flow_clock :: "nat list \<times> nat \<Rightarrow> nat \<times> (nat list \<times> nat)" where
  "flow_clock s = (snd s, s)"

text \<open>Flows opened one after the other at the given times.\<close>

fun open_flows ::
    "nat \<Rightarrow> cmd \<Rightarrow> address \<Rightarrow> nat list \<Rightarrow> nat option \<Rightarrow> nat list \<Rightarrow> nat list \<times> nat option" where
  "open_flows retry c target [] fb tried = (tried, fb)"
| "open_flows retry c target (t # ts) fb tried =
     (case (transport_open (Some down_quic) (Some up_grpc) flow_clock retry c target fb
         :: (_, unit, _) act) (tried, t) of
        (Done (_, fb'), (tried', _)) \<Rightarrow> open_flows retry c target ts fb' tried'
      | _ \<Rightarrow> (tried, fb))"

lemma open_flows_step:
  "open_flows retry c target (t # ts) fb tried =
     (case fb of
        Some until \<Rightarrow> if t < until then open_flows retry c target ts fb tried
          else open_flows retry c target ts (Some (t + retry)) (tried @ [t])
      | None \<Rightarrow> open_flows retry c target ts (Some (t + retry)) (tried @ [t]))"
  by (simp add: transport_open_def open_with_fallback_def is_suppressed_def read_clock_def
      flow_clock_def down_quic_def up_grpc_def and_then_def attempt_def ret_def split: option.split)

declare open_flows.simps(2) [simp del]

text \<open>Attempts on QUIC are at least a retry interval apart, however many flows there are.\<close>

lemma quic_attempts_spaced:
  assumes "\<And>until. fb = Some until \<Longrightarrow> \<forall>a \<in> set tried. a + retry \<le> until"
    and "fb = None \<Longrightarrow> tried = []"
    and "sorted_wrt (\<lambda>a b. a + retry \<le> b) tried"
  shows "sorted_wrt (\<lambda>a b. a + retry \<le> b) (fst (open_flows retry c target ts fb tried))"
  using assms
proof (induction ts arbitrary: fb tried)
  case Nil
  then show ?case by simp
next
  case (Cons t ts)
  show ?case
  proof (cases fb)
    case None
    with Cons.prems(2) Cons.IH [of "Some (t + retry)" "[t]"] show ?thesis
      by (simp add: open_flows_step)
  next
    case (Some until)
    show ?thesis
    proof (cases "t < until")
      case True
      with Some Cons.prems Cons.IH [of "Some until" tried] show ?thesis
        by (simp add: open_flows_step)
    next
      case False
      from Cons.prems(1) [OF Some] False have "\<forall>a \<in> set (tried @ [t]). a + retry \<le> t + retry"
          "\<forall>a \<in> set tried. a + retry \<le> t"
        by auto
      with Some False Cons.prems(3) Cons.IH [of "Some (t + retry)" "tried @ [t]"] show ?thesis
        by (auto simp: open_flows_step sorted_wrt_append)
    qed
  qed
qed

subsection \<open>Properties\<close>


definition refusing_quic :: "(unit, quic_open_error, unit) opener" where
  "refusing_quic c target s = (Failed (Rejected []), s)"

definition working_grpc :: "(unit, grpc_error, unit) opener" where
  "working_grpc c target s = (Done (), s)"

lemma refused_example:
  "(transport_open (Some refusing_quic) (Some working_grpc) (\<lambda>s. (0, s)) 5 ConnectTcp
      (Ip (SA4 0 0)) None :: (unit, unit, _) act) ()
    = (Done (Inl (QuicFailed (Rejected [])), None), ())"
  by (rule rejected_is_final) (simp_all add: refusing_quic_def is_suppressed_def ret_def)


text \<open>
  While QUIC is down and gRPC works, QUIC is tried again at most once per retry interval,
  however many flows are opened one after the other, and whenever.
\<close>

lemma quic_retries_spaced:
  "sorted_wrt (\<lambda>a b. a + retry \<le> b) (fst (open_flows retry c target arrivals None []))"
  by (rule quic_attempts_spaced) simp_all

end
