(* ===== verification/Client_Route.thy ===== *)
theory Client_Route
  imports Routes
begin

text \<open>
  \<open>crates/proxy-client/src/route.rs\<close>: the proxy client's route manager. The commands depend on the
  operating system the client is compiled for (\<open>target_os\<close>), which is an argument here.
\<close>

datatype platform = Linux | MacOs | Windows

definition client_add_command :: "platform \<Rightarrow> 'net ipnet \<Rightarrow> 'net \<Rightarrow> bytes \<Rightarrow> bytes \<times> bytes list" where
  "client_add_command os_kind N net device = (case os_kind of
      Linux \<Rightarrow> (lit ''ip'', [lit ''route'', lit ''add'', net_show N net, lit ''dev'', device])
    | MacOs \<Rightarrow> (lit ''route'',
        [lit ''-n'', lit ''add'', lit ''-net'', net_show N net, lit ''-interface'', device])
    | Windows \<Rightarrow> (lit ''netsh'',
        [lit ''interface'', lit ''ipv4'', lit ''add'', lit ''route'',
         lit ''prefix='' @ net_show N net, lit ''interface='' @ device, lit ''store=active'']))"

definition client_delete_command :: "platform \<Rightarrow> 'net ipnet \<Rightarrow> 'net \<Rightarrow> bytes \<Rightarrow> bytes \<times> bytes list" where
  "client_delete_command os_kind N net device = (case os_kind of
      Linux \<Rightarrow> (lit ''ip'', [lit ''route'', lit ''del'', net_show N net, lit ''dev'', device])
    | MacOs \<Rightarrow> (lit ''route'',
        [lit ''-n'', lit ''delete'', lit ''-net'', net_show N net, lit ''-interface'', device])
    | Windows \<Rightarrow> (lit ''netsh'',
        [lit ''interface'', lit ''ipv4'', lit ''delete'', lit ''route'',
         lit ''prefix='' @ net_show N net, lit ''interface='' @ device, lit ''store=active'']))"

definition client_run :: "os \<Rightarrow> bytes \<times> bytes list \<Rightarrow> (route_error, unit) io" where
  "client_run os cmd = (case cmd of (p, args) \<Rightarrow> and_then (run_checked os p args) (\<lambda>_. ret ()))"

definition client_route_add ::
    "platform \<Rightarrow> 'net ipnet \<Rightarrow> os \<Rightarrow> bytes \<Rightarrow> 'net \<Rightarrow> 'net list \<Rightarrow>
     ('e, (route_error + unit) \<times> 'net list) io" where
  "client_route_add os_kind N os device net added =
     and_then (attempt (client_run os (client_add_command os_kind N net device))) (\<lambda>r. case r of
       Inl e \<Rightarrow> ret (Inl e, added)
     | Inr _ \<Rightarrow> ret (Inr (), added @ [net]))"

fun client_delete_all :: "platform \<Rightarrow> 'net ipnet \<Rightarrow> os \<Rightarrow> bytes \<Rightarrow> 'net list \<Rightarrow> ('e, unit) io" where
  "client_delete_all os_kind N os device [] = ret ()"
| "client_delete_all os_kind N os device (net # nets) =
     and_then (attempt (client_run os (client_delete_command os_kind N net device)))
       (\<lambda>_. client_delete_all os_kind N os device nets)"

definition client_cleanup ::
    "platform \<Rightarrow> 'net ipnet \<Rightarrow> os \<Rightarrow> bytes \<Rightarrow> 'net list \<Rightarrow> ('e, 'net list) io" where
  "client_cleanup os_kind N os device added =
     and_then (client_delete_all os_kind N os device (rev added)) (\<lambda>_. ret [])"

subsection \<open>The contract\<close>

text \<open>The commands of the three systems name what they do in a fixed place.\<close>

definition client_undo :: "platform \<Rightarrow> call \<Rightarrow> call option" where
  "client_undo os_kind c = (case c of
      RunProgram p args \<Rightarrow> (case os_kind of
          Linux \<Rightarrow> if p = lit ''ip'' \<and> length args = 5 \<and> args ! 1 = lit ''add''
            then Some (RunProgram p (args[1 := lit ''del''])) else None
        | MacOs \<Rightarrow> if p = lit ''route'' \<and> length args = 6 \<and> args ! 1 = lit ''add''
            then Some (RunProgram p (args[1 := lit ''delete''])) else None
        | Windows \<Rightarrow> if p = lit ''netsh'' \<and> length args = 7 \<and> args ! 2 = lit ''add''
            then Some (RunProgram p (args[2 := lit ''delete''])) else None)
    | _ \<Rightarrow> None)"

definition client_is_undo :: "platform \<Rightarrow> call \<Rightarrow> bool" where
  "client_is_undo os_kind c = (case c of
      RunProgram p args \<Rightarrow> (case os_kind of
          Linux \<Rightarrow> p = lit ''ip'' \<and> length args = 5 \<and> args ! 1 = lit ''del''
        | MacOs \<Rightarrow> p = lit ''route'' \<and> length args = 6 \<and> args ! 1 = lit ''delete''
        | Windows \<Rightarrow> p = lit ''netsh'' \<and> length args = 7 \<and> args ! 2 = lit ''delete'')
    | _ \<Rightarrow> False)"

definition client_undo_of :: "platform \<Rightarrow> 'net ipnet \<Rightarrow> bytes \<Rightarrow> 'net \<Rightarrow> call" where
  "client_undo_of os_kind N device net =
     (case client_delete_command os_kind N net device of (p, args) \<Rightarrow> RunProgram p args)"

lemma lit_add_delete:
  "lit ''add'' \<noteq> lit ''del''" "lit ''add'' \<noteq> lit ''delete''"
  "lit ''del'' \<noteq> lit ''add''" "lit ''delete'' \<noteq> lit ''add''"
  by (simp_all add: lit_def)

lemma client_undo_commands:
  assumes "client_add_command os_kind N net device = (p, args)"
  shows "client_undo os_kind (RunProgram p args) = Some (client_undo_of os_kind N device net)"
    and "\<not> client_is_undo os_kind (RunProgram p args)"
  using assms
  by (cases os_kind; auto simp: client_add_command_def client_undo_def client_undo_of_def
      client_delete_command_def client_is_undo_def lit_add_delete numeral_2_eq_2)+

lemma client_undo_of_undo:
  "client_is_undo os_kind (client_undo_of os_kind N device net)"
  "client_undo os_kind (client_undo_of os_kind N device net) = None"
  by (cases os_kind; simp add: client_undo_def client_undo_of_def client_delete_command_def
      client_is_undo_def lit_add_delete)+

lemma client_run_run:
  "client_run os (p, args) h = (case fst (run_checked os p args h) of
      Done _ \<Rightarrow> Done () | Failed e \<Rightarrow> Failed e | Pending \<Rightarrow> Pending | Panicked \<Rightarrow> Panicked,
      h @ [RunProgram p args])"
  by (simp add: client_run_def and_then_def run_checked_run ret_def split: sum.split)

lemma client_route_add_run:
  assumes "client_add_command os_kind N net device = (p, args)"
  shows "\<exists>e. client_route_add os_kind N os device net added h =
     (Done (if run_ok os h (RunProgram p args) then (Inr (), added @ [net]) else (Inl e, added)),
      h @ [RunProgram p args])"
  by (simp add: client_route_add_def assms and_then_def attempt_def client_run_run run_checked_run
      run_ok_def ret_def split: sum.split)

lemma client_add_tracks:
  "triple (tracks (client_undo os_kind) (client_is_undo os_kind) (client_undo_of os_kind N device) os added)
    any_call (client_route_add os_kind N os device net added :: ('e, _) io)
    (\<lambda>(r, added'). tracks (client_undo os_kind) (client_is_undo os_kind)
       (client_undo_of os_kind N device) os added')"
  unfolding triple_def
proof (intro allI impI)
  fix h
  assume h: "tracks (client_undo os_kind) (client_is_undo os_kind) (client_undo_of os_kind N device) os added h"
  obtain p args where cmd: "client_add_command os_kind N net device = (p, args)" by fastforce
  obtain e where run: "(client_route_add os_kind N os device net added :: ('e, _) io) h =
     (Done (if run_ok os h (RunProgram p args) then (Inr (), added @ [net]) else (Inl e, added)),
      h @ [RunProgram p args])"
    by (rule exE [OF client_route_add_run [OF cmd]])
  show "\<exists>cs. snd ((client_route_add os_kind N os device net added :: ('e, _) io) h) = h @ cs \<and>
      (\<forall>i<length cs. any_call (h @ take i cs) (cs ! i)) \<and>
      (\<forall>a. fst ((client_route_add os_kind N os device net added :: ('e, _) io) h) = Done a \<longrightarrow>
        (case a of (r, added') \<Rightarrow> tracks (client_undo os_kind) (client_is_undo os_kind)
          (client_undo_of os_kind N device) os added') (h @ cs))"
    using h client_undo_commands [OF cmd] by (auto simp: run tracks_def)
qed

lemma client_delete_all_run:
  "client_delete_all os_kind N os device nets h
    = (Done (), h @ map (client_undo_of os_kind N device) nets)"
proof (induction nets arbitrary: h)
  case Nil
  then show ?case by (simp add: ret_def)
next
  case (Cons net nets)
  obtain p args where "client_delete_command os_kind N net device = (p, args)" by fastforce
  with Cons show ?case
    by (simp add: and_then_def attempt_def client_run_run run_checked_run client_undo_of_def
        split: sum.split)
qed

interpretation client_routes: route_manager "client_undo os_kind" "client_is_undo os_kind"
    "client_undo_of os_kind N device" "\<lambda>os (_ :: unit). client_route_add os_kind N os device"
    "\<lambda>os. client_cleanup os_kind N os device" for os_kind N device
  by unfold_locales
    (simp_all add: client_add_tracks client_cleanup_def and_then_def client_delete_all_run ret_def
      client_undo_of_undo)

end
