(* ===== verification/Client_Main.thy ===== *)
theory Client_Main
  imports Client_Transport Client_Route Tun_Device
begin

text \<open>
  \<open>crates/proxy-client/src/main.rs\<close> and \<open>dispatch\<close> of \<open>crates/proxy-client/src/relay.rs\<close>: start-up,
  shutdown, and the task of a flow. Building the transports involves rustls and tonic only, the
  arguments \<open>quic_new\<close> and \<open>grpc_new\<close>; so does reading the name of the created device, and whether
  the IP stack accepts an MTU.
\<close>

datatype client_error =
    BuildingTransport bytes
  | ClientCreatingTun bytes io_error
  | ReadingDeviceName bytes io_error
  | ClientRoute bytes route_error
  | ClientMtu bytes
  | ClientStackStopped io_error
  | TrustedCertificate path io_error        \<comment> \<open>opening trusted certificate \<open>path\<close>\<close>

text \<open>\<open>TransportClient::new\<close>: the transports that are enabled, QUIC first.\<close>

definition transport_new ::
    "('net client_config \<Rightarrow> bytes + 'quic) \<Rightarrow> ('net client_config \<Rightarrow> bytes + 'grpc) \<Rightarrow>
     'net client_config \<Rightarrow> client_error + ('quic option \<times> 'grpc option)" where
  "transport_new quic_new grpc_new cfg =
     (case (if cli_quic_enabled cfg
        then (case quic_new cfg of Inl e \<Rightarrow> Inl e | Inr q \<Rightarrow> Inr (Some q)) else Inr None) of
        Inl e \<Rightarrow> Inl (BuildingTransport e)
      | Inr quic \<Rightarrow> (case (if cli_grpc_enabled cfg
            then (case grpc_new cfg of Inl e \<Rightarrow> Inl e | Inr g \<Rightarrow> Inr (Some g)) else Inr None) of
            Inl e \<Rightarrow> Inl (BuildingTransport e)
          | Inr grpc \<Rightarrow> Inr (quic, grpc)))"

definition client_create_tun ::
    "os \<Rightarrow> (call list \<Rightarrow> io_error + bytes) \<Rightarrow> 'net client_config \<Rightarrow> (client_error, bytes) io" where
  "client_create_tun os device_name cfg =
     (let tun = cli_tun cfg in
      and_then (map_err (ClientCreatingTun (lit ''creating TUN device (administrator/root privileges required)''))
        (do_call os (CreateTun (ctun_name tun) (ctun_address tun) (ctun_netmask tun) (ctun_mtu tun)))) (\<lambda>_ h.
      case device_name h of
        Inl e \<Rightarrow> (Failed (ReadingDeviceName (lit ''reading created TUN device name'') e), h)
      | Inr name \<Rightarrow> (Done name, h)))"

fun client_add_routes ::
    "platform \<Rightarrow> 'net ipnet \<Rightarrow> os \<Rightarrow> bytes \<Rightarrow> 'net list \<Rightarrow> 'net list \<Rightarrow>
     (client_error, (client_error + unit) \<times> 'net list) io" where
  "client_add_routes os_kind N os device [] added = ret (Inr (), added)"
| "client_add_routes os_kind N os device (net # nets) added =
     and_then (client_route_add os_kind N os device net added) (\<lambda>(r, added). case r of
       Inl e \<Rightarrow> ret (Inl (ClientRoute (lit ''installing proxy route '' @ net_show N net) e), added)
     | Inr _ \<Rightarrow> client_add_routes os_kind N os device nets added)"

definition client_install_routes ::
    "platform \<Rightarrow> 'net ipnet \<Rightarrow> os \<Rightarrow> bytes \<Rightarrow> 'net client_config \<Rightarrow>
     (client_error, (client_error + unit) \<times> 'net list) io" where
  "client_install_routes os_kind N os device cfg =
     (if ctun_auto_route (cli_tun cfg)
      then client_add_routes os_kind N os device (cli_routes cfg) []
      else ret (Inr (), []))"

definition client_serve ::
    "os \<Rightarrow> (u16 \<Rightarrow> bytes option) \<Rightarrow> 'net client_config \<Rightarrow> client_error + unit \<Rightarrow> (client_error, unit) io" where
  "client_serve os mtu_check cfg ready = (case ready of
      Inl e \<Rightarrow> raise e
    | Inr _ \<Rightarrow> (case mtu_check (ctun_mtu (cli_tun cfg)) of
        Some err \<Rightarrow> raise (ClientMtu (lit ''invalid TUN MTU ''
          @ show_dec (unat (ctun_mtu (cli_tun cfg))) @ lit '': '' @ err))
      | None \<Rightarrow> map_err ClientStackStopped (do_call os AcceptLoop)))"

definition client_run_phase ::
    "platform \<Rightarrow> 'net ipnet \<Rightarrow> (u16 \<Rightarrow> bytes option) \<Rightarrow> os \<Rightarrow> bytes \<Rightarrow> 'net client_config \<Rightarrow>
     (client_error, client_error + unit) io" where
  "client_run_phase os_kind N mtu_check os device cfg =
     and_then (client_install_routes os_kind N os device cfg) (\<lambda>(ready, added).
     and_then (attempt (client_serve os mtu_check cfg ready)) (\<lambda>r.
     and_then (client_cleanup os_kind N os device added) (\<lambda>_.
     ret r)))"

text \<open>\<open>main\<close> after the configuration was loaded, for a given check of the certificate file.\<close>

definition client_main ::
    "platform \<Rightarrow> 'net ipnet \<Rightarrow> (u16 \<Rightarrow> bytes option) \<Rightarrow> (call list \<Rightarrow> io_error + bytes) \<Rightarrow>
     ('net client_config \<Rightarrow> bytes + 'quic) \<Rightarrow> ('net client_config \<Rightarrow> bytes + 'grpc) \<Rightarrow>
     (path \<Rightarrow> io_error + unit) \<Rightarrow> os \<Rightarrow> bool \<Rightarrow> 'net client_config \<Rightarrow> (client_error, unit) io" where
  "client_main os_kind N mtu_check device_name quic_new grpc_new open_file os check cfg =
     (if check then (case open_file (cli_certificate cfg) of
          Inl e \<Rightarrow> raise (TrustedCertificate (cli_certificate cfg) e)
        | Inr _ \<Rightarrow> ret ())
      else
        and_then (lift_result (transport_new quic_new grpc_new cfg)) (\<lambda>_.
        and_then (client_create_tun os device_name cfg) (\<lambda>device.
        and_then (client_run_phase os_kind N mtu_check os device cfg) lift_result)))"

text \<open>
  The task of a flow, over any way of opening one and any relay. A flow that cannot be opened is
  dropped; the local stream is not shut down.
\<close>

definition client_dispatch ::
    "(cmd \<Rightarrow> address \<Rightarrow> ('s, 'e, 'flow) act) \<Rightarrow> ('flow \<Rightarrow> ('s, 'f, unit) act) \<Rightarrow>
     ('flow \<Rightarrow> ('s, 'f, unit) act) \<Rightarrow> ip_stack_stream \<Rightarrow> ('s, 'g, unit) act" where
  "client_dispatch open relay_tcp relay_udp stream = (case stream of
      Tcp src dst \<Rightarrow> and_then (attempt (open ConnectTcp (Ip dst))) (\<lambda>r. case r of
          Inl err \<Rightarrow> ret ()
        | Inr flow \<Rightarrow> and_then (attempt (relay_tcp flow)) (\<lambda>_. ret ()))
    | Udp src dst \<Rightarrow> and_then (attempt (open BindUdp (Ip dst))) (\<lambda>r. case r of
          Inl err \<Rightarrow> ret ()
        | Inr flow \<Rightarrow> and_then (attempt (relay_udp flow)) (\<lambda>_. ret ()))
    | UnknownTransport \<Rightarrow> ret ()
    | UnknownNetwork \<Rightarrow> ret ())"

definition client_join :: "'net ipnet \<Rightarrow> 'net list \<Rightarrow> bytes" where
  "client_join N nets = join (lit '', '') (map (net_show N) nets)"

subsection \<open>Everything installed is undone\<close>

abbreviation "client_tracks os_kind N device \<equiv>
  tracks (client_undo os_kind) (client_is_undo os_kind) (client_undo_of os_kind N device)"

lemma client_add_routes_tracks:
  "triple (client_tracks os_kind N device os added) any_call
    (client_add_routes os_kind N os device nets added)
    (\<lambda>(r, added'). client_tracks os_kind N device os added')"
proof (induction nets arbitrary: added)
  case Nil
  then show ?case by (simp add: triple_ret)
next
  case (Cons net nets)
  show ?case
    unfolding client_add_routes.simps
    by (rule triple_and_then [OF client_add_tracks])
      (auto intro: Cons.IH triple_ret split: sum.split)
qed

lemma client_install_routes_tracks:
  "triple (client_tracks os_kind N device os []) any_call
    (client_install_routes os_kind N os device cfg)
    (\<lambda>(r, added). client_tracks os_kind N device os added)"
  using client_add_routes_tracks by (auto simp: client_install_routes_def intro: triple_ret)

lemma client_serve_neutral:
  "issues (route_neutral (client_undo os_kind) (client_is_undo os_kind))
    (client_serve os mtu_check cfg ready) (\<lambda>_. True)"
  unfolding client_serve_def
  by (intro issues_intros) (auto simp: route_neutral_def client_undo_def client_is_undo_def)

lemma client_run_phase_undoes:
  "triple (client_tracks os_kind N device os []) any_call
    (client_run_phase os_kind N mtu_check os device cfg)
    (\<lambda>_ h. undone (client_is_undo os_kind) h = rev (installed (client_undo os_kind) os h))"
  unfolding client_run_phase_def
  by (rule client_routes.bracket_undoes [OF client_install_routes_tracks client_serve_neutral])

lemma client_route_add_never_fails [never_fails_intros]:
  "never_fails (client_route_add os_kind N os device net added)"
  unfolding client_route_add_def by (intro never_fails_intros)

lemma client_add_routes_never_fails [never_fails_intros]:
  "never_fails (client_add_routes os_kind N os device nets added)"
  by (induction os_kind N os device nets added rule: client_add_routes.induct)
    (auto intro!: never_fails_intros)

lemma client_cleanup_never_fails [never_fails_intros]:
  "never_fails (client_cleanup os_kind N os device added)"
  by (simp add: never_fails_def client_routes.cleanup_run)

lemma client_run_phase_never_fails:
  "never_fails (client_run_phase os_kind N mtu_check os device cfg)"
  unfolding client_run_phase_def client_install_routes_def by (intro never_fails_intros)

lemma client_create_tun_neutral:
  "issues (route_neutral (client_undo os_kind) (client_is_undo os_kind))
    (client_create_tun os device_name cfg) (\<lambda>_. True)"
  unfolding client_create_tun_def Let_def
  by (intro issues_intros)
    (auto simp: route_neutral_def client_undo_def client_is_undo_def issues_def split: sum.split)

lemma client_main_undoes:
  assumes "client_main os_kind N mtu_check device_name quic_new grpc_new open_file os check cfg []
      = (r, h)" and "r \<noteq> Pending" "r \<noteq> Panicked"
  shows "undone (client_is_undo os_kind) h = rev (installed (client_undo os_kind) os h)"
proof -
  let ?clean = "\<lambda>h. undone (client_is_undo os_kind) h = rev (installed (client_undo os_kind) os h)"
  let ?J = "\<lambda>h. undone (client_is_undo os_kind) h = [] \<and> installed (client_undo os_kind) os h = []"
  have start: "client_tracks os_kind N device os [] = ?J" for device
    by (rule ext) (auto simp: tracks_def)
  have run: "ends ?J (and_then (client_run_phase os_kind N mtu_check os device cfg) lift_result) ?clean"
    for device
    using ends_lift_result [OF ends_triple [OF client_run_phase_undoes client_run_phase_never_fails],
        of os_kind N device os mtu_check cfg]
    by (simp add: start)
  have tun: "ends ?J (and_then (client_create_tun os device_name cfg) (\<lambda>device.
      and_then (client_run_phase os_kind N mtu_check os device cfg) lift_result)) ?clean"
    unfolding start [symmetric, where device = "[]"]
    by (rule client_routes.ends_after_neutral [OF client_create_tun_neutral])
      (auto simp: start intro: run)
  have "ends ?J (client_main os_kind N mtu_check device_name quic_new grpc_new open_file os check cfg) ?clean"
  proof (cases check)
    case True
    then show ?thesis
      by (auto simp: client_main_def ends_def ret_def raise_def split: sum.split)
  next
    case False
    show ?thesis
    proof (cases "transport_new quic_new grpc_new cfg")
      case (Inl e)
      with False show ?thesis
        by (simp add: client_main_def ends_def lift_result_def and_then_def)
    next
      case (Inr ts)
      then have "client_main os_kind N mtu_check device_name quic_new grpc_new open_file os check cfg
          = and_then (client_create_tun os device_name cfg) (\<lambda>device.
              and_then (client_run_phase os_kind N mtu_check os device cfg) lift_result)"
        using False by (auto simp: client_main_def lift_result_def and_then_def)
      with tun show ?thesis by simp
    qed
  qed
  with assms show ?thesis
    by (cases r) (auto simp: ends_def dest!: spec [of _ "[]"])
qed

subsection \<open>Properties\<close>


definition example_client_run :: "platform \<Rightarrow> (client_error, unit) outcome \<times> call list" where
  "example_client_run os_kind = client_main os_kind cidr_net (\<lambda>_. None) (\<lambda>_. Inr (lit ''utun4''))
     (\<lambda>_. Inr ()) (\<lambda>_. Inr ()) (\<lambda>_. Inr ()) (willing_os (stream_of [] Stalls) []) False
     cli_sample_config []"

lemma example_client_run_eq:
  "client_main os_kind cidr_net (\<lambda>_. None) (\<lambda>_. Inr (lit ''utun4'')) (\<lambda>_. Inr ()) (\<lambda>_. Inr ())
     (\<lambda>_. Inr ()) (willing_os (stream_of [] Stalls) []) False cli_sample_config []
   = (fst (example_client_run os_kind), snd (example_client_run os_kind))"
  by (simp add: example_client_run_def)

lemma example_client_run_done: "fst (example_client_run MacOs) = Done ()"
  by code_simp


end
