(* ===== verification/Server_Config.thy ===== *)
theory Server_Config
  imports Config_Path
begin

text \<open>
  \<open>crates/proxy-server/src/config.rs\<close>: the configuration of the proxy server, its validation, the
  effective listen addresses, the policy check and the token comparison. As in the other crates the
  file system and the TOML parser are arguments of \<open>load\<close>.
\<close>

record 'net server_config =
  srv_listen :: socket_addr
  srv_quic_enabled :: bool
  srv_grpc_enabled :: bool
  srv_quic_listen_opt :: "socket_addr option"
  srv_grpc_listen_opt :: "socket_addr option"
  srv_token :: bytes
  srv_server_name :: bytes
  srv_certificate :: path
  srv_private_key :: path
  srv_allow :: "'net list"
  srv_deny :: "'net list"
  srv_bind_ip :: "ip_addr option"
  srv_connect_timeout_ms :: u64
  srv_dns_timeout_ms :: u64
  srv_tcp_idle_timeout_secs :: u64
  srv_udp_timeout_secs :: u64
  srv_max_concurrent_streams :: u32

definition srv_default_server_name :: bytes where
  "srv_default_server_name = lit ''vpnbridge.local''"
definition srv_default_certificate :: path where
  "srv_default_certificate = file_path (lit ''proxy-server-cert.pem'')"
definition srv_default_private_key :: path where
  "srv_default_private_key = file_path (lit ''proxy-server-key.pem'')"
definition srv_default_connect_timeout :: u64 where "srv_default_connect_timeout = 8000"
definition srv_default_dns_timeout :: u64 where "srv_default_dns_timeout = 5000"
definition srv_default_tcp_idle_timeout :: u64 where "srv_default_tcp_idle_timeout = 300"
definition srv_default_udp_timeout :: u64 where "srv_default_udp_timeout = 60"
definition srv_default_max_streams :: u32 where "srv_default_max_streams = 4096"

definition srv_validate :: "'net server_config \<Rightarrow> config_error + unit" where
  "srv_validate cfg =
     (if \<not> srv_quic_enabled cfg \<and> \<not> srv_grpc_enabled cfg
        then Inl (Bail (lit ''at least one of quic_enabled or grpc_enabled must be true''))
      else if srv_token cfg = [] then Inl (Bail (lit ''token must not be empty''))
      else if length (srv_token cfg) > 255
        then Inl (Bail (lit ''token must be at most 255 bytes''))
      else if trim_is_empty (srv_server_name cfg)
        then Inl (Bail (lit ''server_name must not be empty''))
      else if srv_max_concurrent_streams cfg = 0
        then Inl (Bail (lit ''max_concurrent_streams must be greater than zero''))
      else if srv_connect_timeout_ms cfg = 0
        then Inl (Bail (lit ''connect_timeout_ms must be greater than zero''))
      else if srv_dns_timeout_ms cfg = 0
        then Inl (Bail (lit ''dns_timeout_ms must be greater than zero''))
      else if srv_tcp_idle_timeout_secs cfg = 0
        then Inl (Bail (lit ''tcp_idle_timeout_secs must be greater than zero''))
      else if srv_udp_timeout_secs cfg = 0
        then Inl (Bail (lit ''udp_timeout_secs must be greater than zero''))
      else Inr ())"

definition srv_resolve_path :: "path \<Rightarrow> path \<Rightarrow> path" where
  "srv_resolve_path base p = (if path_absolute p then p else path_join base p)"

definition srv_load ::
    "(path \<Rightarrow> io_error + bytes) \<Rightarrow> (bytes \<Rightarrow> bytes + 'net server_config) \<Rightarrow> path \<Rightarrow>
     config_error + 'net server_config" where
  "srv_load read_to_string from_toml p =
     (case read_to_string p of
        Inl e \<Rightarrow> Inl (ReadingConfig e)
      | Inr text \<Rightarrow> (case from_toml text of
          Inl e \<Rightarrow> Inl (ParsingConfig e)
        | Inr cfg \<Rightarrow>
            let base = (case path_parent p of None \<Rightarrow> current_dir_path | Some d \<Rightarrow> d);
                cfg = cfg\<lparr>srv_certificate := srv_resolve_path base (srv_certificate cfg)\<rparr>;
                cfg = cfg\<lparr>srv_private_key := srv_resolve_path base (srv_private_key cfg)\<rparr>
            in (case srv_validate cfg of Inl e \<Rightarrow> Inl e | Inr _ \<Rightarrow> Inr cfg)))"

definition srv_quic_listen :: "'net server_config \<Rightarrow> socket_addr" where
  "srv_quic_listen cfg = (case srv_quic_listen_opt cfg of None \<Rightarrow> srv_listen cfg | Some a \<Rightarrow> a)"

definition srv_grpc_listen :: "'net server_config \<Rightarrow> socket_addr" where
  "srv_grpc_listen cfg = (case srv_grpc_listen_opt cfg of None \<Rightarrow> srv_listen cfg | Some a \<Rightarrow> a)"

definition srv_permits :: "'net ipnet \<Rightarrow> 'net server_config \<Rightarrow> ip_addr \<Rightarrow> bool" where
  "srv_permits N cfg a =
     (if any_contains N (srv_deny cfg) a then False
      else srv_allow cfg = [] \<or> any_contains N (srv_allow cfg) a)"

definition srv_token_matches :: "bytes \<Rightarrow> bytes \<Rightarrow> bool" where
  "srv_token_matches expected got =
     (let difference = ucast ((of_nat (length expected) :: u64) XOR of_nat (length got)) :: u8;
          difference = fold (\<lambda>index difference.
              difference OR (safe_get expected index XOR safe_get got index))
            [0..<max (length expected) (length got)] difference
      in difference = 0)"

interpretation srv_tokens: token_check srv_token_matches
  by unfold_locales
    (auto simp: srv_token_matches_def Let_def fold_or_0 length_diff_0 xor_eq_0_u8 same_padded_def)

interpretation srv_policy: access_policy "srv_permits N" srv_allow srv_deny N for N
  by unfold_locales (auto simp: srv_permits_def)

text \<open>What a configuration that passed \<open>validate\<close> can be relied on for.\<close>

definition srv_valid :: "'net server_config \<Rightarrow> bool" where
  "srv_valid cfg \<longleftrightarrow> (srv_quic_enabled cfg \<or> srv_grpc_enabled cfg) \<and>
     srv_token cfg \<noteq> [] \<and> length (srv_token cfg) \<le> 255 \<and>
     \<not> trim_is_empty (srv_server_name cfg) \<and> srv_max_concurrent_streams cfg \<noteq> 0 \<and>
     srv_connect_timeout_ms cfg \<noteq> 0 \<and> srv_dns_timeout_ms cfg \<noteq> 0 \<and>
     srv_tcp_idle_timeout_secs cfg \<noteq> 0 \<and> srv_udp_timeout_secs cfg \<noteq> 0"

lemma srv_validate_iff: "srv_validate cfg = Inr () \<longleftrightarrow> srv_valid cfg"
  by (auto simp: srv_validate_def srv_valid_def)

lemma srv_loadE:
  assumes "srv_load rd toml p = Inr cfg"
  obtains content raw where "rd p = Inr content" "toml content = Inr raw" "srv_valid cfg"
    "srv_certificate cfg = srv_resolve_path
       (case path_parent p of None \<Rightarrow> current_dir_path | Some d \<Rightarrow> d) (srv_certificate raw)"
    "srv_private_key cfg = srv_resolve_path
       (case path_parent p of None \<Rightarrow> current_dir_path | Some d \<Rightarrow> d) (srv_private_key raw)"
  using assms that
  by (auto simp: srv_load_def Let_def srv_validate_iff [symmetric] split: sum.splits)

subsection \<open>Properties\<close>

text \<open>A configuration with the defaults of the crate, for the examples.\<close>

definition srv_sample_config :: "cidr server_config" where
  "srv_sample_config = \<lparr>srv_listen = SA4 0 443, srv_quic_enabled = True, srv_grpc_enabled = True,
     srv_quic_listen_opt = None, srv_grpc_listen_opt = None, srv_token = lit ''key'',
     srv_server_name = srv_default_server_name, srv_certificate = file_path (lit ''c.pem''),
     srv_private_key = file_path (lit ''k.pem''), srv_allow = [],
     srv_deny = [Cidr4 0x7F000000 8], srv_bind_ip = None,
     srv_connect_timeout_ms = srv_default_connect_timeout,
     srv_dns_timeout_ms = srv_default_dns_timeout,
     srv_tcp_idle_timeout_secs = srv_default_tcp_idle_timeout,
     srv_udp_timeout_secs = srv_default_udp_timeout,
     srv_max_concurrent_streams = srv_default_max_streams\<rparr>"

text \<open>
  C38: both comparisons of tokens accept exactly the configured token, for all tokens that fit the
  length byte of a request.
\<close>

theorem token_comparison_exact:
  assumes "length expected \<le> 255" and "length got \<le> 255"
  shows "(srv_token_matches expected got \<longleftrightarrow> expected = got) \<and>
    (vm_token_matches expected got \<longleftrightarrow> expected = got)"
  using srv_tokens.matches_exact [OF assms] vm_tokens.matches_exact [OF assms] by blast

theorem token_comparison_exact_witness:
  "(srv_token_matches (lit ''s3cret'') (lit ''s3cre'') \<longleftrightarrow> lit ''s3cret'' = lit ''s3cre'') \<and>
    (vm_token_matches (lit ''s3cret'') (lit ''s3cre'') \<longleftrightarrow> lit ''s3cret'' = lit ''s3cre'')"
  by (rule token_comparison_exact) (simp_all add: lit_def)

text \<open>
  As functions on arbitrary strings they accept more: only the low byte of the length is
  compared, so a token followed by 256 NUL bytes matches the token.
\<close>

lemma token_comparison_length_byte:
  "srv_token_matches t (t @ replicate 256 0) \<and> vm_token_matches t (t @ replicate 256 0)"
  using srv_tokens.matches_nul_padded vm_tokens.matches_nul_padded by blast

text \<open>
  An address that a deny network contains is refused, but its IPv4-mapped IPv6 form is admitted
  by a policy that has IPv4 deny networks only and no allow list: the lists are matched against the
  address as it is written.
\<close>

lemma deny_misses_mapped_form:
  assumes "family_strict N" and "srv_allow cfg = []"
    and "\<forall>net \<in> set (srv_deny cfg). net_is_v4 N net"
    and "net \<in> set (srv_deny cfg)" and "net_contains N net (V4 a)"
  shows "\<not> srv_permits N cfg (V4 a) \<and> srv_permits N cfg (V6 (ipv4_mapped a))"
  using srv_policy.denied [OF assms(4,5)] srv_policy.mapped_permitted [OF assms(1,3,2)] by blast

lemma deny_misses_mapped_form_witness:
  "\<not> srv_permits cidr_net srv_sample_config (V4 0x7F000001) \<and>
    srv_permits cidr_net srv_sample_config (V6 (ipv4_mapped 0x7F000001))"
  by (rule deny_misses_mapped_form [where net = "Cidr4 0x7F000000 8", OF family_strict_cidr])
    (simp_all add: srv_sample_config_def)

text \<open>
  A configuration of the proxy server that loads is usable: a transport is enabled, there is
  a token and it fits the wire, no deadline is zero, and the certificate and key paths are the
  file's own, taken relative to the directory of the configuration file.
\<close>

lemma srv_load_usable:
  assumes "srv_load rd toml p = Inr cfg"
  shows "srv_valid cfg \<and> (\<exists>content raw. rd p = Inr content \<and> toml content = Inr raw \<and>
    (let base = (case path_parent p of None \<Rightarrow> current_dir_path | Some d \<Rightarrow> d) in
      cfg = raw\<lparr>srv_certificate := srv_resolve_path base (srv_certificate raw),
        srv_private_key := srv_resolve_path base (srv_private_key raw)\<rparr>))"
  using assms
  by (auto simp: srv_load_def Let_def srv_validate_iff [symmetric] split: sum.splits)

lemma srv_load_usable_witness:
  "srv_valid (srv_sample_config\<lparr>srv_certificate := Path True [lit ''etc'', lit ''c.pem''],
       srv_private_key := Path True [lit ''etc'', lit ''k.pem'']\<rparr>) \<and>
   (\<exists>content raw. (Inr [] :: io_error + bytes) = Inr content \<and>
      (if content = [] then Inr srv_sample_config else Inl []) = (Inr raw :: bytes + cidr server_config) \<and>
      (let base = (case path_parent (Path True [lit ''etc'', lit ''a.toml'']) of
           None \<Rightarrow> current_dir_path | Some d \<Rightarrow> d) in
       srv_sample_config\<lparr>srv_certificate := Path True [lit ''etc'', lit ''c.pem''],
         srv_private_key := Path True [lit ''etc'', lit ''k.pem'']\<rparr>
       = raw\<lparr>srv_certificate := srv_resolve_path base (srv_certificate raw),
        srv_private_key := srv_resolve_path base (srv_private_key raw)\<rparr>))"
  by (rule srv_load_usable [where rd = "\<lambda>_. Inr []"
      and toml = "\<lambda>c. if c = [] then Inr srv_sample_config else Inl []"]) code_simp

end
