(* ===== verification/Server_Certificate.thy ===== *)
theory Server_Certificate
  imports Server_Config
begin

text \<open>
  \<open>crates/proxy-server/src/certificate.rs\<close> and what \<open>crates/proxy-server/src/main.rs\<close> does with it.
  The file system is a map from paths to contents and permission bits; every operation on it may
  fail, as \<open>fault\<close> says, a write after some of the bytes. Generating an identity and parsing PEM are rcgen's and rustls' business,
  arguments of the functions.
\<close>

record file_node =
  node_contents :: bytes
  node_mode :: nat

type_synonym files = "path \<Rightarrow> file_node option"

datatype fs_op =
    CreateDirAll path
  | CreateFile path
  | CreateNew path nat
  | WriteOpened path bytes

datatype certificate_error =
    OnlyOneExists path path
  | Generating bytes
  | CreatingDirectory path io_error
  | WritingCertificate path io_error
  | CreatingKey path io_error
  | WritingKey path io_error

text \<open>The mode of a file created without one, under the usual umask.\<close>

definition default_mode :: nat where
  "default_mode = 420"

definition private_mode :: nat where
  "private_mode = 384"

text \<open>\<open>std::fs::write\<close> creates or truncates; the mode of an existing file stays.\<close>

definition fs_write ::
    "(fs_op \<Rightarrow> (io_error \<times> nat) option) \<Rightarrow> path \<Rightarrow> bytes \<Rightarrow> files \<Rightarrow> (io_error + unit) \<times> files" where
  "fs_write fault p contents fs = (case fault (CreateFile p) of
      Some (e, _) \<Rightarrow> (Inl e, fs)
    | None \<Rightarrow>
        let mode = (case fs p of Some f \<Rightarrow> node_mode f | None \<Rightarrow> default_mode) in
        (case fault (WriteOpened p contents) of
           Some (e, n) \<Rightarrow>
             (Inl e, fs(p \<mapsto> \<lparr>node_contents = take n contents, node_mode = mode\<rparr>))
         | None \<Rightarrow> (Inr (), fs(p \<mapsto> \<lparr>node_contents = contents, node_mode = mode\<rparr>))))"

definition fs_create_dir_all ::
    "(fs_op \<Rightarrow> (io_error \<times> nat) option) \<Rightarrow> path option \<Rightarrow> certificate_error + unit" where
  "fs_create_dir_all fault parent = (case parent of
      None \<Rightarrow> Inr ()
    | Some d \<Rightarrow> (case fault (CreateDirAll d) of
        Some (e, _) \<Rightarrow> Inl (CreatingDirectory d e) | None \<Rightarrow> Inr ()))"

text \<open>\<open>create_new(true)\<close> fails where a file exists, and gives the new one its mode at once.\<close>

definition write_private_key ::
    "(fs_op \<Rightarrow> (io_error \<times> nat) option) \<Rightarrow> path \<Rightarrow> bytes \<Rightarrow> files \<Rightarrow> (certificate_error + unit) \<times> files" where
  "write_private_key fault p contents fs =
     (case (if fs p \<noteq> None then Some (IoError (OtherKind 17) (lit ''File exists''), 0)
        else fault (CreateNew p private_mode)) of
        Some (e, _) \<Rightarrow> (Inl (CreatingKey p e), fs)
      | None \<Rightarrow>
          (case fault (WriteOpened p contents) of
             Some (e, n) \<Rightarrow> (Inl (WritingKey p e),
               fs(p \<mapsto> \<lparr>node_contents = take n contents, node_mode = private_mode\<rparr>))
           | None \<Rightarrow> (Inr (), fs(p \<mapsto> \<lparr>node_contents = contents, node_mode = private_mode\<rparr>))))"

definition ensure_exists ::
    "(fs_op \<Rightarrow> (io_error \<times> nat) option) \<Rightarrow> (bytes \<Rightarrow> bytes + bytes \<times> bytes) \<Rightarrow> path \<Rightarrow> path \<Rightarrow> bytes \<Rightarrow> files \<Rightarrow>
     (certificate_error + unit) \<times> files" where
  "ensure_exists fault generate certificate private_key server_name fs =
     (if fs certificate \<noteq> None \<and> fs private_key \<noteq> None then (Inr (), fs)
      else if fs certificate \<noteq> None \<or> fs private_key \<noteq> None
      then (Inl (OnlyOneExists certificate private_key), fs)
      else case generate server_name of
        Inl e \<Rightarrow> (Inl (Generating e), fs)
      | Inr (cert_pem, key_pem) \<Rightarrow>
          (case fs_create_dir_all fault (path_parent certificate) of
             Inl e \<Rightarrow> (Inl e, fs)
           | Inr _ \<Rightarrow> (case fs_create_dir_all fault (path_parent private_key) of
               Inl e \<Rightarrow> (Inl e, fs)
             | Inr _ \<Rightarrow> (case fs_write fault certificate cert_pem fs of
                 (Inl e, fs) \<Rightarrow> (Inl (WritingCertificate certificate e), fs)
               | (Inr _, fs) \<Rightarrow> write_private_key fault private_key key_pem fs))))"

datatype load_error =
    OpeningCert io_error
  | ReadingCertPem bytes
  | NoCertificate
  | OpeningKey io_error
  | ReadingKeyPem bytes
  | NoKey

definition certificate_load ::
    "(path \<Rightarrow> io_error + bytes) \<Rightarrow> (bytes \<Rightarrow> bytes + 'cert list) \<Rightarrow> (bytes \<Rightarrow> bytes + 'key option) \<Rightarrow>
     path \<Rightarrow> path \<Rightarrow> load_error + 'cert list \<times> 'key" where
  "certificate_load read_file pem_certs pem_key certificate private_key =
     (case read_file certificate of
        Inl e \<Rightarrow> Inl (OpeningCert e)
      | Inr cert_text \<Rightarrow> (case pem_certs cert_text of
          Inl e \<Rightarrow> Inl (ReadingCertPem e)
        | Inr certs \<Rightarrow>
            if certs = [] then Inl NoCertificate
            else (case read_file private_key of
              Inl e \<Rightarrow> Inl (OpeningKey e)
            | Inr key_text \<Rightarrow> (case pem_key key_text of
                Inl e \<Rightarrow> Inl (ReadingKeyPem e)
              | Inr None \<Rightarrow> Inl NoKey
              | Inr (Some key) \<Rightarrow> Inr (certs, key)))))"

subsection \<open>The main program\<close>

text \<open>
  The limits of the QUIC endpoint, and which loops \<open>main\<close> waits for; \<open>CtrlC\<close> is the signal.
\<close>

record endpoint_config =
  ep_max_bidi :: u32
  ep_max_uni :: u32
  ep_keep_alive_secs :: nat
  ep_max_idle_secs :: nat
  ep_listen :: socket_addr

text \<open>
  Whether rustls accepts the identity and whether the UDP socket can be bound are the arguments
  \<open>tls_fault\<close> and \<open>bind_fault\<close>; the idle timeout of 90 seconds is in the range of quinn.
\<close>

datatype endpoint_error =
    EndpointIdentity load_error
  | EndpointTls bytes bytes
  | EndpointBind bytes io_error

definition srv_make_endpoint ::
    "(path \<Rightarrow> path \<Rightarrow> load_error + 'identity) \<Rightarrow> ('identity \<Rightarrow> bytes option) \<Rightarrow>
     (socket_addr \<Rightarrow> io_error option) \<Rightarrow> 'net server_config \<Rightarrow>
     endpoint_error + ('identity \<times> endpoint_config)" where
  "srv_make_endpoint load_identity tls_fault bind_fault cfg =
     (case load_identity (srv_certificate cfg) (srv_private_key cfg) of
        Inl e \<Rightarrow> Inl (EndpointIdentity e)
      | Inr identity \<Rightarrow> (case tls_fault identity of
          Some e \<Rightarrow> Inl (EndpointTls (lit ''creating QUIC TLS configuration'') e)
        | None \<Rightarrow> (case bind_fault (srv_quic_listen cfg) of
            Some e \<Rightarrow> Inl (EndpointBind (lit ''binding QUIC UDP endpoint'') e)
          | None \<Rightarrow> Inr (identity,
              \<lparr>ep_max_bidi = srv_max_concurrent_streams cfg, ep_max_uni = 0,
               ep_keep_alive_secs = 15, ep_max_idle_secs = 90, ep_listen = srv_quic_listen cfg\<rparr>))))"

datatype server_branch = RunQuic socket_addr | RunGrpc socket_addr | CtrlC

definition srv_select :: "'net server_config \<Rightarrow> config_error + server_branch list" where
  "srv_select cfg =
     (if srv_quic_enabled cfg then
        (if srv_grpc_enabled cfg
         then Inr [RunQuic (srv_quic_listen cfg), RunGrpc (srv_grpc_listen cfg), CtrlC]
         else Inr [RunQuic (srv_quic_listen cfg), CtrlC])
      else if srv_grpc_enabled cfg then Inr [RunGrpc (srv_grpc_listen cfg), CtrlC]
      else Inl (Bail (lit ''all proxy transports are disabled'')))"

lemma srv_select_valid: "srv_valid cfg \<Longrightarrow> \<exists>bs. srv_select cfg = Inr bs \<and> length bs \<ge> 2"
  by (auto simp: srv_valid_def srv_select_def)

subsection \<open>The identity\<close>

lemmas ensure_defs = ensure_exists_def fs_write_def write_private_key_def Let_def

text \<open>On success both files exist.\<close>

lemma ensure_exists_Ok:
  assumes "ensure_exists fault gen cert key name fs = (Inr u, fs')"
  shows "fs' cert \<noteq> None \<and> fs' key \<noteq> None"
  using assms
  by (auto simp: ensure_defs split: if_splits sum.splits prod.splits option.splits)

lemma ensure_exists_idempotent:
  assumes "ensure_exists fault gen cert key name fs = (Inr u, fs')"
  shows "ensure_exists fault' gen' cert key name' fs' = (Inr (), fs')"
  using ensure_exists_Ok [OF assms] by (simp add: ensure_exists_def)

text \<open>Nothing that existed is ever changed, whatever fails.\<close>

lemma ensure_exists_preserves:
  assumes "ensure_exists fault gen cert key name fs = (r, fs')" and "fs p = Some f"
  shows "fs' p = Some f"
  using assms
  by (auto simp: ensure_defs split: if_splits sum.splits prod.splits option.splits)

text \<open>A private key the server created is never readable by others, not even if writing it failed.\<close>

lemma ensure_exists_private:
  assumes "ensure_exists fault gen cert key name fs = (r, fs')" and "fs key = None"
    and "fs' key = Some f" and "cert \<noteq> key"
  shows "node_mode f = private_mode"
  using assms
  by (auto simp: ensure_defs split: if_splits sum.splits prod.splits option.splits)

text \<open>
  But a failure between the two files is not recovered from: the certificate stays without its key,
  and every later start is refused.
\<close>

lemma ensure_exists_half_done:
  assumes "fs cert = None" "fs key = None" "cert \<noteq> key" "gen name = Inr (cert_pem, key_pem)"
    and "\<And>d. fault (CreateDirAll d) = None" "fault (CreateFile cert) = None"
    and "fault (WriteOpened cert cert_pem) = None" "fault (CreateNew key private_mode) = Some (e, n)"
  shows "\<exists>fs'. ensure_exists fault gen cert key name fs = (Inl (CreatingKey key e), fs') \<and>
    (\<forall>fault' gen' name'. ensure_exists fault' gen' cert key name' fs' = (Inl (OnlyOneExists cert key), fs'))"
  using assms
  by (auto simp: ensure_defs fs_create_dir_all_def split: option.splits)

subsection \<open>Properties\<close>


definition example_generate :: "bytes \<Rightarrow> bytes + bytes \<times> bytes" where
  "example_generate name = Inr (lit ''CERT'', lit ''KEY'')"

definition example_files :: files where
  "example_files = Map.empty
     (file_path (lit ''c'') \<mapsto> \<lparr>node_contents = lit ''CERT'', node_mode = default_mode\<rparr>,
      file_path (lit ''k'') \<mapsto> \<lparr>node_contents = lit ''KEY'', node_mode = private_mode\<rparr>)"

lemma example_created:
  "ensure_exists (\<lambda>_. None) example_generate (file_path (lit ''c'')) (file_path (lit ''k'')) []
     Map.empty = (Inr (), example_files)"
  by (simp add: ensure_defs fs_create_dir_all_def example_generate_def example_files_def file_path_def
      lit_def fun_eq_iff split: option.split)


text \<open>
  But a start that fails between the two files cannot be repeated: it leaves the certificate
  without its key, and every later start refuses that.
\<close>

lemma certificate_half_created:
  assumes "fs cert = None" "fs key = None" "cert \<noteq> key" "gen name = Inr (cert_pem, key_pem)"
    and "\<And>d. fault (CreateDirAll d) = None" "fault (CreateFile cert) = None"
    and "fault (WriteOpened cert cert_pem) = None" "fault (CreateNew key private_mode) = Some (e, n)"
  shows "\<exists>fs'. ensure_exists fault gen cert key name fs = (Inl (CreatingKey key e), fs') \<and>
    (\<forall>fault' gen' name'. ensure_exists fault' gen' cert key name' fs' = (Inl (OnlyOneExists cert key), fs'))"
  using assms by (rule ensure_exists_half_done)

lemma certificate_half_created_witness:
  "let fault = (\<lambda>op. case op of CreateNew _ _ \<Rightarrow> Some (IoError (OtherKind 28) [], 0) | _ \<Rightarrow> None);
       cert = file_path (lit ''c''); key = file_path (lit ''k'') in
   \<exists>fs'. ensure_exists fault example_generate cert key [] Map.empty
       = (Inl (CreatingKey key (IoError (OtherKind 28) [])), fs') \<and>
    (\<forall>fault' gen' name'. ensure_exists fault' gen' cert key name' fs' = (Inl (OnlyOneExists cert key), fs'))"
  unfolding Let_def
  by (rule certificate_half_created) (simp_all add: file_path_def lit_def example_generate_def)

end
