(* ===== verification/Startup.thy ===== *)
theory Startup
  imports Vm_Server Host_Main Client_Main Server_Certificate
begin

text \<open>
  The four programs from the command line on: the search for the configuration file, loading it,
  what \<open>--check\<close> prints, building the transports, and the hand-over to the part that runs, which is
  \<open>host_main\<close>, \<open>client_main\<close>, the accept loop of the agent, and the transports of the proxy server.
  The command line is parsed by clap: a program takes the path and the flag. Parsing TOML, PEM and
  URIs, and how a path is displayed, are arguments.
\<close>

subsection \<open>The environment and the output\<close>

record environment =
  env_cwd :: "io_error + path"
  env_exe :: "io_error + path"
  env_is_file :: "path \<Rightarrow> bool"
  env_read :: "path \<Rightarrow> io_error + bytes"
  env_display :: "path \<Rightarrow> bytes"

datatype start_error = NoConfigPath path_error | BadConfig config_error

text \<open>\<open>{:?}\<close> of a \<open>Vec\<close> and of an \<open>Option\<close> whose elements print alike in both formats.\<close>

definition debug_list :: "('a \<Rightarrow> bytes) \<Rightarrow> 'a list \<Rightarrow> bytes" where
  "debug_list shown xs = lit ''['' @ join (lit '', '') (map shown xs) @ lit '']''"

definition debug_option :: "('a \<Rightarrow> bytes) \<Rightarrow> 'a option \<Rightarrow> bytes" where
  "debug_option shown x =
     (case x of None \<Rightarrow> lit ''None'' | Some a \<Rightarrow> lit ''Some('' @ shown a @ lit '')'')"

definition host_check_report :: "'net ipnet \<Rightarrow> bytes \<Rightarrow> 'net host_config \<Rightarrow> bytes list" where
  "host_check_report N path_text cfg =
     [lit ''configuration OK: '' @ path_text,
      lit ''  VM agent   : '' @ show_socket_addr (hs_address (host_server cfg)),
      lit ''  tun device : '' @ tun_name (host_tun cfg) @ lit '' '' @ show_ipv4 (tun_address (host_tun cfg))
        @ lit ''/'' @ show_ipv4 (tun_netmask (host_tun cfg)),
      lit ''  forwarding : '' @ host_join N (host_routes cfg),
      lit ''  excluding  : '' @ host_join N (host_exclude cfg)]
     @ (case host_dns cfg of
         None \<Rightarrow> []
       | Some dns \<Rightarrow> [lit ''  dns        : '' @ show_socket_addr (dns_listen dns) @ lit '' -> ''
           @ debug_list show_socket_addr (dns_upstream dns)])"

definition vm_join :: "'net ipnet \<Rightarrow> 'net list \<Rightarrow> bytes" where
  "vm_join N nets = (if nets = [] then lit ''(any)'' else join (lit '', '') (map (net_show N) nets))"

definition vm_check_report :: "'net ipnet \<Rightarrow> bytes \<Rightarrow> 'net vm_config \<Rightarrow> bytes list" where
  "vm_check_report N path_text cfg =
     [lit ''configuration OK: '' @ path_text,
      lit ''  listen  : '' @ show_socket_addr (vm_listen cfg),
      lit ''  auth    : '' @ (if vm_token cfg = [] then lit ''disabled'' else lit ''token''),
      lit ''  allow   : '' @ vm_join N (vm_allow cfg),
      lit ''  deny    : '' @ vm_join N (vm_deny cfg),
      lit ''  bind_ip : '' @ debug_option show_ip (vm_bind_ip cfg)]"

definition transport_line :: "bytes \<Rightarrow> bool \<Rightarrow> socket_addr \<Rightarrow> bytes" where
  "transport_line label enabled a =
     label @ (if enabled then show_socket_addr a else lit ''disabled'')"

definition client_check_report ::
    "'net ipnet \<Rightarrow> (path \<Rightarrow> bytes) \<Rightarrow> path \<Rightarrow> 'net client_config \<Rightarrow> bytes list" where
  "client_check_report N display p cfg =
     [lit ''configuration OK: '' @ display p,
      transport_line (lit ''  QUIC/UDP    : '') (cli_quic_enabled cfg) (cli_quic_server cfg),
      transport_line (lit ''  gRPC/TCP    : '') (cli_grpc_enabled cfg) (cli_grpc_server cfg),
      lit ''  server name : '' @ cli_server_name cfg,
      lit ''  certificate : '' @ display (cli_certificate cfg),
      lit ''  routes      : '' @ client_join N (cli_routes cfg)]"

definition server_check_report :: "(path \<Rightarrow> bytes) \<Rightarrow> path \<Rightarrow> 'net server_config \<Rightarrow> bytes list" where
  "server_check_report display p cfg =
     [lit ''configuration OK: '' @ display p,
      transport_line (lit ''  QUIC/UDP    : '') (srv_quic_enabled cfg) (srv_quic_listen cfg),
      transport_line (lit ''  gRPC/TCP    : '') (srv_grpc_enabled cfg) (srv_grpc_listen cfg),
      lit ''  server name : '' @ srv_server_name cfg,
      lit ''  certificate : '' @ display (srv_certificate cfg)]"

subsection \<open>The host and the VM agent\<close>

text \<open>What a program ends with, the lines it printed, and its calls.\<close>

definition host_program ::
    "'net ipnet \<Rightarrow> (bytes \<Rightarrow> bytes + 'net host_config) \<Rightarrow> (u16 \<Rightarrow> bytes option) \<Rightarrow> environment \<Rightarrow>
     os \<Rightarrow> path option \<Rightarrow> bool \<Rightarrow> (start_error + (main_error, unit) outcome) \<times> bytes list \<times> call list" where
  "host_program N from_toml mtu_check env os config check =
     (case host_resolve_config_path config (lit ''host.toml'') (env_cwd env) (env_exe env)
         (env_is_file env) of
        Inl e \<Rightarrow> (Inl (NoConfigPath e), [], [])
      | Inr p \<Rightarrow> (case host_load (env_read env) from_toml p of
          Inl e \<Rightarrow> (Inl (BadConfig e), [], [])
        | Inr cfg \<Rightarrow> (case host_main N mtu_check os check cfg [] of
            (r, h) \<Rightarrow> (Inr r, if check then host_check_report N (env_display env p) cfg else [], h))))"

datatype vm_error = BindingListener bytes io_error

text \<open>\<open>run\<close>, for the connections that arrive before the interrupt.\<close>

definition vm_run ::
    "(socket_addr \<Rightarrow> io_error + unit) \<Rightarrow> 'net vm_config \<Rightarrow> (io_error + 'conn) list \<Rightarrow>
     (vm_error + unit) \<times> 'conn server_event list" where
  "vm_run bind cfg arrivals = (case bind (vm_listen cfg) of
      Inl e \<Rightarrow> (Inl (BindingListener (lit ''binding '' @ show_socket_addr (vm_listen cfg)) e), [])
    | Inr _ \<Rightarrow> (Inr (), vm_accept_loop arrivals))"

definition vm_program ::
    "'net ipnet \<Rightarrow> (bytes \<Rightarrow> bytes + 'net vm_config) \<Rightarrow> environment \<Rightarrow>
     (socket_addr \<Rightarrow> io_error + unit) \<Rightarrow> (io_error + 'conn) list \<Rightarrow> path option \<Rightarrow> bool \<Rightarrow>
     (start_error + (vm_error + unit)) \<times> bytes list \<times> 'conn server_event list" where
  "vm_program N from_toml env bind arrivals config check =
     (case vm_resolve_config_path config (lit ''vm.toml'') (env_cwd env) (env_exe env)
         (env_is_file env) of
        Inl e \<Rightarrow> (Inl (NoConfigPath e), [], [])
      | Inr p \<Rightarrow> (case vm_load (env_read env) from_toml p of
          Inl e \<Rightarrow> (Inl (BadConfig e), [], [])
        | Inr cfg \<Rightarrow>
            if check then (Inr (Inr ()), vm_check_report N (env_display env p) cfg, [])
            else (case vm_run bind cfg arrivals of (r, events) \<Rightarrow> (Inr r, [], events))))"

subsection \<open>The proxy client\<close>

text \<open>What \<open>QuicClient::new\<close> and \<open>GrpcClient::new\<close> build; the slot starts empty.\<close>

datatype 'store quic_client = QuicClient (qc_roots: 'store) (qc_bind: socket_addr) (qc_slot: "nat option")

record grpc_channel =
  gc_uri :: bytes
  gc_ca :: bytes
  gc_domain :: bytes
  gc_connect_timeout_ms :: u64

datatype new_error =
    LoadingRoots roots_error
  | QuicTls bytes
  | QuicEndpoint io_error
  | ReadingCertificate bytes io_error
  | InvalidUri bytes
  | GrpcTls bytes

definition quic_client_new ::
    "(path \<Rightarrow> roots_error + 'store) \<Rightarrow> ('store \<Rightarrow> bytes option) \<Rightarrow> (socket_addr \<Rightarrow> io_error option) \<Rightarrow>
     'net client_config \<Rightarrow> new_error + 'store quic_client" where
  "quic_client_new roots_of tls_fault endpoint_fault cfg = (case roots_of (cli_certificate cfg) of
      Inl e \<Rightarrow> Inl (LoadingRoots e)
    | Inr roots \<Rightarrow> (case tls_fault roots of
        Some e \<Rightarrow> Inl (QuicTls e)
      | None \<Rightarrow>
          let bind = quic_bind_addr (cli_quic_server cfg) in
          (case endpoint_fault bind of
             Some e \<Rightarrow> Inl (QuicEndpoint e)
           | None \<Rightarrow> Inr (QuicClient roots bind None))))"

definition grpc_client_new ::
    "(path \<Rightarrow> io_error + bytes) \<Rightarrow> (path \<Rightarrow> bytes) \<Rightarrow> (bytes \<Rightarrow> bytes option) \<Rightarrow>
     (bytes \<Rightarrow> bytes \<Rightarrow> bytes option) \<Rightarrow> 'net client_config \<Rightarrow> new_error + grpc_channel" where
  "grpc_client_new read_file display uri_fault tls_fault cfg = (case read_file (cli_certificate cfg) of
      Inl e \<Rightarrow>
        Inl (ReadingCertificate (lit ''reading certificate '' @ display (cli_certificate cfg)) e)
    | Inr certificate \<Rightarrow>
        let uri = lit ''https://'' @ show_socket_addr (cli_grpc_server cfg) in
        (case uri_fault uri of
           Some e \<Rightarrow> Inl (InvalidUri e)
         | None \<Rightarrow> (case tls_fault certificate (cli_server_name cfg) of
             Some e \<Rightarrow> Inl (GrpcTls e)
           | None \<Rightarrow> Inr \<lparr>gc_uri = uri, gc_ca = certificate, gc_domain = cli_server_name cfg,
               gc_connect_timeout_ms = cli_connect_timeout_ms cfg\<rparr>)))"

definition client_program ::
    "platform \<Rightarrow> 'net ipnet \<Rightarrow> (bytes \<Rightarrow> bytes + 'net client_config) \<Rightarrow> (u16 \<Rightarrow> bytes option) \<Rightarrow>
     (call list \<Rightarrow> io_error + bytes) \<Rightarrow> ('net client_config \<Rightarrow> bytes + 'quic) \<Rightarrow>
     ('net client_config \<Rightarrow> bytes + 'grpc) \<Rightarrow> environment \<Rightarrow> os \<Rightarrow> path option \<Rightarrow> bool \<Rightarrow>
     (start_error + (client_error, unit) outcome) \<times> bytes list \<times> call list" where
  "client_program os_kind N from_toml mtu_check device_name quic_new grpc_new env os config check =
     (case client_resolve_config_path config (lit ''proxy-client.toml'') (env_cwd env) (env_exe env)
         (env_is_file env) of
        Inl e \<Rightarrow> (Inl (NoConfigPath e), [], [])
      | Inr p \<Rightarrow> (case cli_load N (env_read env) from_toml p of
          Inl e \<Rightarrow> (Inl (BadConfig e), [], [])
        | Inr cfg \<Rightarrow> (case client_main os_kind N mtu_check device_name quic_new grpc_new
              (\<lambda>c. case env_read env c of Inl e \<Rightarrow> Inl e | Inr _ \<Rightarrow> Inr ()) os check cfg [] of
            (r, h) \<Rightarrow> (Inr r, if check \<and> r = Done () then client_check_report N (env_display env) p cfg
              else [], h))))"

subsection \<open>The proxy server\<close>

text \<open>
  \<open>grpc::run\<close> up to \<open>serve\<close>: the identity it presents, as the bytes of the two files, and where it
  listens. Rejecting the identity is tonic's business, the argument \<open>tls_fault\<close>.
\<close>

datatype grpc_run_error =
    ReadingServerCertificate bytes io_error
  | ReadingPrivateKey bytes io_error
  | ServerTls bytes

definition srv_grpc_run ::
    "(path \<Rightarrow> io_error + bytes) \<Rightarrow> (path \<Rightarrow> bytes) \<Rightarrow> (bytes \<Rightarrow> bytes \<Rightarrow> bytes option) \<Rightarrow>
     'net server_config \<Rightarrow> grpc_run_error + (bytes \<times> bytes) \<times> socket_addr" where
  "srv_grpc_run read_file display tls_fault cfg = (case read_file (srv_certificate cfg) of
      Inl e \<Rightarrow> Inl (ReadingServerCertificate
        (lit ''reading certificate '' @ display (srv_certificate cfg)) e)
    | Inr certificate \<Rightarrow> (case read_file (srv_private_key cfg) of
        Inl e \<Rightarrow> Inl (ReadingPrivateKey
          (lit ''reading private key '' @ display (srv_private_key cfg)) e)
      | Inr key \<Rightarrow> (case tls_fault certificate key of
          Some e \<Rightarrow> Inl (ServerTls e)
        | None \<Rightarrow> Inr ((certificate, key), srv_grpc_listen cfg))))"

datatype server_error =
    ServerStart start_error
  | Identity certificate_error
  | MakingEndpoint endpoint_error
  | TransportFailed bytes

text \<open>
  What \<open>main\<close> of the server ends with, the lines it printed, whether it closed an endpoint, and the
  file system. \<open>race\<close> is the result of the branch of \<open>select!\<close> that completes first.
\<close>

definition read_files :: "files \<Rightarrow> path \<Rightarrow> io_error + bytes" where
  "read_files fs p = (case fs p of
      Some f \<Rightarrow> Inr (node_contents f)
    | None \<Rightarrow> Inl (IoError (OtherKind 2) (lit ''No such file or directory'')))"

definition srv_main ::
    "(fs_op \<Rightarrow> (io_error \<times> nat) option) \<Rightarrow> (bytes \<Rightarrow> bytes + bytes \<times> bytes) \<Rightarrow>
     (bytes \<Rightarrow> bytes + 'cert list) \<Rightarrow> (bytes \<Rightarrow> bytes + 'key option) \<Rightarrow>
     ('cert list \<times> 'key \<Rightarrow> bytes option) \<Rightarrow> (socket_addr \<Rightarrow> io_error option) \<Rightarrow>
     (server_branch list \<Rightarrow> server_error + unit) \<Rightarrow> 'net server_config \<Rightarrow> bool \<Rightarrow> files \<Rightarrow>
     (server_error + unit) \<times> (('cert list \<times> 'key) \<times> endpoint_config) option \<times> files" where
  "srv_main fault generate pem_certs pem_key tls_fault bind_fault race cfg check fs =
     (case ensure_exists fault generate (srv_certificate cfg) (srv_private_key cfg)
         (srv_server_name cfg) fs of
        (Inl e, fs) \<Rightarrow> (Inl (Identity e), None, fs)
      | (Inr _, fs) \<Rightarrow>
          if check then (Inr (), None, fs)
          else (case (if srv_quic_enabled cfg
              then (case srv_make_endpoint (certificate_load (read_files fs) pem_certs pem_key)
                  tls_fault bind_fault cfg of
                 Inl e \<Rightarrow> Inl e | Inr endpoint \<Rightarrow> Inr (Some endpoint))
              else Inr None) of
            Inl e \<Rightarrow> (Inl (MakingEndpoint e), None, fs)
          | Inr endpoint \<Rightarrow> (case srv_select cfg of
              Inl e \<Rightarrow> (Inl (ServerStart (BadConfig e)), endpoint, fs)
            | Inr branches \<Rightarrow> (race branches, endpoint, fs))))"

definition server_program ::
    "(fs_op \<Rightarrow> (io_error \<times> nat) option) \<Rightarrow> (bytes \<Rightarrow> bytes + bytes \<times> bytes) \<Rightarrow>
     (bytes \<Rightarrow> bytes + 'cert list) \<Rightarrow> (bytes \<Rightarrow> bytes + 'key option) \<Rightarrow>
     ('cert list \<times> 'key \<Rightarrow> bytes option) \<Rightarrow> (socket_addr \<Rightarrow> io_error option) \<Rightarrow>
     (server_branch list \<Rightarrow> server_error + unit) \<Rightarrow> (bytes \<Rightarrow> bytes + 'net server_config) \<Rightarrow>
     environment \<Rightarrow> path option \<Rightarrow> bool \<Rightarrow> files \<Rightarrow> (server_error + unit) \<times> bytes list \<times> files" where
  "server_program fault generate pem_certs pem_key tls_fault bind_fault race from_toml env config check
     fs =
     (case server_resolve_config_path config (lit ''proxy-server.toml'') (env_cwd env) (env_exe env)
         (env_is_file env) of
        Inl e \<Rightarrow> (Inl (ServerStart (NoConfigPath e)), [], fs)
      | Inr p \<Rightarrow> (case srv_load (env_read env) from_toml p of
          Inl e \<Rightarrow> (Inl (ServerStart (BadConfig e)), [], fs)
        | Inr cfg \<Rightarrow> (case srv_main fault generate pem_certs pem_key tls_fault bind_fault race cfg check
              fs of
            (r, endpoint, fs) \<Rightarrow> (r,
              if check \<and> r = Inr () then server_check_report (env_display env) p cfg else [], fs))))"

subsection \<open>A check only looks\<close>

lemma host_check_inert: "snd (snd (host_program N from_toml mtu_check env os config True)) = []"
  by (simp add: host_program_def host_main_def ret_def split: sum.split)

lemma vm_check_inert: "snd (snd (vm_program N from_toml env bind arrivals config True)) = []"
  by (simp add: vm_program_def split: sum.split)

lemma client_check_inert:
  "snd (snd (client_program os_kind N from_toml mtu_check device_name quic_new grpc_new env os config True))
    = []"
  by (simp add: client_program_def client_main_def ret_def raise_def split: sum.split prod.split)

subsection \<open>The server's identity\<close>

definition no_fault :: "fs_op \<Rightarrow> (io_error \<times> nat) option" where
  "no_fault op = None"

lemma ensure_exists_creates:
  assumes "fs cert = None" "fs key = None" "cert \<noteq> key" "generate name = Inr (cert_pem, key_pem)"
  shows "ensure_exists no_fault generate cert key name fs = (Inr (), fs
    (cert \<mapsto> \<lparr>node_contents = cert_pem, node_mode = default_mode\<rparr>,
     key \<mapsto> \<lparr>node_contents = key_pem, node_mode = private_mode\<rparr>))"
  using assms
  by (simp add: ensure_defs fs_create_dir_all_def no_fault_def split: option.split)

text \<open>What a server with an identity on disk presents, whatever it could generate or not.\<close>

lemma srv_main_presents:
  assumes "srv_valid cfg" and "srv_quic_enabled cfg"
    and "fs (srv_certificate cfg) = Some c" "fs (srv_private_key cfg) = Some k"
    and "pem_certs (node_contents c) = Inr certs" "certs \<noteq> []"
    and "pem_key (node_contents k) = Inr (Some key)"
    and "tls_fault (certs, key) = None" "bind_fault (srv_quic_listen cfg) = None"
  shows "\<exists>bs endpoint. srv_main fault generate pem_certs pem_key tls_fault bind_fault race cfg False
      fs
    = (race bs, Some ((certs, key), endpoint), fs) \<and>
    srv_select cfg = Inr bs \<and> ep_listen endpoint = srv_quic_listen cfg \<and>
    ep_max_bidi endpoint = srv_max_concurrent_streams cfg"
proof -
  from srv_select_valid [OF assms(1)] obtain bs where "srv_select cfg = Inr bs" by blast
  with assms(2-) show ?thesis
    by (simp add: srv_main_def ensure_exists_def srv_make_endpoint_def certificate_load_def read_files_def)
qed

lemma srv_main_first_start:
  assumes "fs (srv_certificate cfg) = None" "fs (srv_private_key cfg) = None"
    and "srv_certificate cfg \<noteq> srv_private_key cfg"
    and "generate (srv_server_name cfg) = Inr (cert_pem, key_pem)"
  shows "srv_main no_fault generate pem_certs pem_key tls_fault bind_fault race cfg False fs =
    srv_main fault' generate' pem_certs pem_key tls_fault bind_fault race cfg False (fs
      (srv_certificate cfg \<mapsto> \<lparr>node_contents = cert_pem, node_mode = default_mode\<rparr>,
       srv_private_key cfg \<mapsto> \<lparr>node_contents = key_pem, node_mode = private_mode\<rparr>))"
  using ensure_exists_creates [OF assms(1,2,3), of generate, OF assms(4)] assms(3)
  by (simp add: srv_main_def ensure_exists_def)

subsection \<open>Properties\<close>

text \<open>
  \<open>--check\<close> of the host, of the VM agent and of the proxy client causes nothing: no system call
  is made and no connection is served, whatever the configuration; and where the configuration
  is accepted the report begins with its path.
\<close>

lemma check_only_reports:
  "snd (snd (host_program N from_toml mtu_check env os config True)) = [] \<and>
   snd (snd (vm_program N' from_toml' env bind arrivals config True)) = [] \<and>
   snd (snd (client_program os_kind N'' from_toml'' mtu_check device_name quic_new grpc_new env os
     config True)) = [] \<and>
   (case host_program N from_toml mtu_check env os (Some p) True of
      (Inr r, lines, _) \<Rightarrow> r = Done () \<and> hd lines = lit ''configuration OK: '' @ env_display env p
    | (Inl e, lines, _) \<Rightarrow> lines = [] \<and> (\<exists>c. e = BadConfig c))"
proof -
  have "case host_program N from_toml mtu_check env os (Some p) True of
      (Inr r, lines, _) \<Rightarrow> r = Done () \<and> hd lines = lit ''configuration OK: '' @ env_display env p
    | (Inl e, lines, _) \<Rightarrow> lines = [] \<and> (\<exists>c. e = BadConfig c)"
    by (simp add: host_program_def host_resolve_config_path_def host_main_def ret_def
        host_check_report_def split: sum.split)
  then show ?thesis by (simp add: host_check_inert vm_check_inert client_check_inert)
qed



end
