(* ===== verification/Accept_Loop.thy ===== *)
theory Accept_Loop
  imports Host_Main Client_Main
begin

text \<open>
  The accept loops at the end of \<open>main\<close> of the host agent (\<open>crates/host/src/main.rs\<close>) and of the proxy
  client (\<open>crates/proxy-client/src/main.rs\<close>), and what ends them: signals and the IP stack. The call
  \<open>AcceptLoop\<close> of \<open>host_main\<close> and \<open>client_main\<close> is this loop; here its answer is computed from the
  events in the order in which \<open>select!\<close> takes them.
\<close>

subsection \<open>The loops\<close>

text \<open>
  \<open>Interrupt\<close> is what \<open>tokio::signal::ctrl_c()\<close> waits for; it also stands for that future's own
  failure, which the loops take for the signal. \<open>Terminate\<close> is SIGTERM.
\<close>

datatype signal = Interrupt | Terminate

datatype loop_event = Signalled signal | Arrived "io_error + ip_stack_stream"

text \<open>
  \<open>shutdown_signal\<close> of the host: on Unix it waits for SIGTERM as well, if a handler could be
  registered. The proxy client waits for \<open>ctrl_c()\<close> only.
\<close>

definition shutdown_signal :: "bool \<Rightarrow> io_error + unit \<Rightarrow> signal \<Rightarrow> bool" where
  "shutdown_signal unix term s =
     (if unix then (case term of
         Inl _ \<Rightarrow> s = Interrupt
       | Inr _ \<Rightarrow> s = Interrupt \<or> s = Terminate)
      else s = Interrupt)"

definition ctrl_c :: "signal \<Rightarrow> bool" where
  "ctrl_c s \<longleftrightarrow> s = Interrupt"

text \<open>
  How the loop ends. A signal that nothing in the process waits for ends the process where it is,
  without a return from \<open>main\<close> and without running any \<open>Drop\<close>.
\<close>

datatype loop_end = Stopped "io_error + unit" | Killed

text \<open>The streams dispatched, in order, and the end, if the events bring it.\<close>

fun accept_loop :: "(signal \<Rightarrow> bool) \<Rightarrow> loop_event list \<Rightarrow> ip_stack_stream list \<times> loop_end option" where
  "accept_loop awaits [] = ([], None)"
| "accept_loop awaits (Signalled s # events) =
     ([], Some (if awaits s then Stopped (Inr ()) else Killed))"
| "accept_loop awaits (Arrived (Inl e) # events) = ([], Some (Stopped (Inl e)))"
| "accept_loop awaits (Arrived (Inr stream) # events) =
     (case accept_loop awaits events of (streams, r) \<Rightarrow> (stream # streams, r))"

definition host_accept_loop ::
    "bool \<Rightarrow> io_error + unit \<Rightarrow> loop_event list \<Rightarrow> ip_stack_stream list \<times> loop_end option" where
  "host_accept_loop unix term events = accept_loop (shutdown_signal unix term) events"

definition client_accept_loop :: "loop_event list \<Rightarrow> ip_stack_stream list \<times> loop_end option" where
  "client_accept_loop events = accept_loop ctrl_c events"

text \<open>What the rest of \<open>main\<close> sees of it.\<close>

fun loop_answer :: "loop_end option \<Rightarrow> (io_error, unit) outcome" where
  "loop_answer (Some (Stopped (Inr u))) = Done ()"
| "loop_answer (Some (Stopped (Inl e))) = Failed e"
| "loop_answer (Some Killed) = Pending"
| "loop_answer None = Pending"

definition loop_runs ::
    "os \<Rightarrow> (loop_event list \<Rightarrow> ip_stack_stream list \<times> loop_end option) \<Rightarrow> loop_event list \<Rightarrow> bool" where
  "loop_runs os accepts events \<longleftrightarrow> (\<forall>h. os_unit os h AcceptLoop = loop_answer (snd (accepts events)))"

lemma accept_loop_append:
  "accept_loop awaits (map (\<lambda>s. Arrived (Inr s)) streams @ events) =
     (streams @ fst (accept_loop awaits events), snd (accept_loop awaits events))"
  by (induction streams) (auto split: prod.split)

text \<open>Every stream that arrives before the end is dispatched, once, in the order of arrival.\<close>

lemma accept_loop_dispatches:
  "fst (accept_loop awaits events) = map (\<lambda>ev. case ev of Arrived (Inr s) \<Rightarrow> s | _ \<Rightarrow> UnknownNetwork)
     (takeWhile (\<lambda>ev. case ev of Arrived (Inr s) \<Rightarrow> True | _ \<Rightarrow> False) events)"
  by (induction awaits events rule: accept_loop.induct) (auto split: prod.split)

subsection \<open>From the loop to the end of the program\<close>

text \<open>An action whose last call is the accept loop, if it makes that call.\<close>

definition loop_result :: "(io_error \<Rightarrow> 'e) \<Rightarrow> (io_error, unit) outcome \<Rightarrow> ('e, unit) outcome" where
  "loop_result g r = (case r of
      Done _ \<Rightarrow> Done () | Failed e \<Rightarrow> Failed (g e) | Pending \<Rightarrow> Pending | Panicked \<Rightarrow> Panicked)"

definition loops_last :: "(call \<Rightarrow> bool) \<Rightarrow> os \<Rightarrow> (io_error \<Rightarrow> 'e) \<Rightarrow> ('e, unit) io \<Rightarrow> bool" where
  "loops_last P os g m \<longleftrightarrow> (\<forall>h. \<exists>cs. (\<forall>c \<in> set cs. P c \<and> c \<noteq> AcceptLoop) \<and>
     (snd (m h) = h @ cs \<or>
      m h = (loop_result g (os_unit os (h @ cs) AcceptLoop), (h @ cs) @ [AcceptLoop])))"

context route_manager
begin

definition quiet :: "call \<Rightarrow> bool" where
  "quiet c \<longleftrightarrow> route_neutral undo is_undo c \<and> c \<noteq> AcceptLoop"

definition fresh :: "os \<Rightarrow> 'net list \<Rightarrow> call list \<Rightarrow> bool" where
  "fresh os added h \<longleftrightarrow> tracks undo is_undo undo_of os added h \<and> AcceptLoop \<notin> set h"

lemma quiet_keeps:
  "\<forall>c \<in> set cs. quiet c \<Longrightarrow> fresh os added h \<Longrightarrow> fresh os added (h @ cs)"
  using neutral_keeps [of cs undo is_undo os h] by (auto simp: fresh_def quiet_def tracks_def)

lemma quiet_first:
  assumes "issues quiet m (\<lambda>_. True)" and "and_then m f h = (r, h')" and "fresh os [] h"
    and "AcceptLoop \<in> set h'"
  obtains a h1 where "fresh os [] h1" "f a h1 = (r, h')"
proof -
  obtain r1 h1 where m: "m h = (r1, h1)" by (cases "m h")
  with assms(1) obtain cs where "h1 = h @ cs" "\<forall>c \<in> set cs. quiet c" by (rule issuesD)
  with quiet_keeps assms(3) have fresh: "fresh os [] h1" by blast
  with assms(2,4) m obtain a where "r1 = Done a"
    by (cases r1) (auto simp: and_then_def fresh_def)
  with assms(2) m fresh that show thesis by (simp add: and_then_def)
qed

text \<open>
  The part of a program in which its route manager is alive: the manager is cleaned up after the
  loop exactly when the loop returned.
\<close>

lemma bracket_loop:
  assumes body: "triple (tracks undo is_undo undo_of os []) any_call body
      (\<lambda>(res, added). tracks undo is_undo undo_of os added)"
    and before: "issues (\<lambda>c. c \<noteq> AcceptLoop) body (\<lambda>_. True)"
    and serve: "\<And>res. loops_last (route_neutral undo is_undo) os g (serve res)"
    and loop: "\<not> is_undo AcceptLoop" "undo AcceptLoop = None"
    and run: "and_then body (\<lambda>(res, added). and_then (attempt (serve res)) (\<lambda>r.
         and_then (cleanup os added) (\<lambda>_. ret r))) h = (r, h')"
    and h: "fresh os [] h" "AcceptLoop \<in> set h'"
  obtains h0 where
    "os_unit os h0 AcceptLoop = Done () \<Longrightarrow>
      r = Done (Inr ()) \<and> undone is_undo h' = rev (installed undo os h')"
    "\<And>e. os_unit os h0 AcceptLoop = Failed e \<Longrightarrow>
      r = Done (Inl (g e)) \<and> undone is_undo h' = rev (installed undo os h')"
    "os_unit os h0 AcceptLoop = Pending \<Longrightarrow> r = Pending \<and> undone is_undo h' = []"
proof -
  obtain rb hb where b: "body h = (rb, hb)" by (cases "body h")
  with before obtain bs where "hb = h @ bs" "\<forall>c \<in> set bs. c \<noteq> AcceptLoop" by (rule issuesD)
  with h(1) have hb: "AcceptLoop \<notin> set hb" by (auto simp: fresh_def)
  from run b hb h(2) obtain res added where rb: "rb = Done (res, added)"
    by (cases rb) (auto simp: and_then_def)
  from body h(1) b rb hb have tracked: "fresh os added hb"
    by (auto simp: fresh_def elim: tripleD)
  from serve obtain cs where cs: "\<forall>c \<in> set cs. quiet c"
    and served: "snd (serve res hb) = hb @ cs \<or> serve res hb =
      (loop_result g (os_unit os (hb @ cs) AcceptLoop), (hb @ cs) @ [AcceptLoop])"
    unfolding loops_last_def quiet_def by blast
  have quiet: "fresh os added (hb @ cs)" by (rule quiet_keeps [OF cs tracked])
  from run b rb have rest: "and_then (attempt (serve res)) (\<lambda>r. and_then (cleanup os added) (\<lambda>_. ret r)) hb
      = (r, h')"
    by (simp add: and_then_def)
  have "is_undo AcceptLoop = False" using loop(1) by simp
  then have undos: "AcceptLoop \<notin> set (map undo_of nets)" for nets
    using undo_of_undo(1) by (metis ex_map_conv)
  have loops: "serve res hb = (loop_result g (os_unit os (hb @ cs) AcceptLoop), (hb @ cs) @ [AcceptLoop])"
  proof (rule ccontr)
    assume "\<not> ?thesis"
    with served obtain rs where s: "serve res hb = (rs, hb @ cs)" by (metis prod.collapse)
    from rest have "h' = hb @ cs \<or> h' = (hb @ cs) @ map undo_of (rev added)"
      by (cases rs) (auto simp: and_then_def attempt_def s cleanup_run ret_def)
    with h(2) quiet undos show False by (auto simp: fresh_def)
  qed
  have after: "tracks undo is_undo undo_of os added ((hb @ cs) @ [AcceptLoop])"
    using quiet loop by (auto simp: fresh_def tracks_def simp del: append_assoc)
  note cleaned = cleanup_undoes [OF after, unfolded cleanup_run snd_conv]
  note rest' = rest [unfolded and_then_def attempt_def loops loop_result_def]
  show thesis
  proof (rule that [of "hb @ cs"])
    assume "os_unit os (hb @ cs) AcceptLoop = Done ()"
    with rest' cleaned show "r = Done (Inr ()) \<and> undone is_undo h' = rev (installed undo os h')"
      by (auto simp: cleanup_run ret_def)
  next
    fix e
    assume "os_unit os (hb @ cs) AcceptLoop = Failed e"
    with rest' cleaned show "r = Done (Inl (g e)) \<and> undone is_undo h' = rev (installed undo os h')"
      by (auto simp: cleanup_run ret_def)
  next
    assume "os_unit os (hb @ cs) AcceptLoop = Pending"
    with rest' after show "r = Pending \<and> undone is_undo h' = []"
      by (auto simp: tracks_def)
  qed
qed

end

subsection \<open>The host agent\<close>

lemma host_loop_neutral: "\<not> host_is_undo AcceptLoop" "host_undo AcceptLoop = None"
  by (simp_all add: host_is_undo_def host_undo_def)

lemma get_quiet: "ip_verb (lit ''get'') c \<Longrightarrow> host_routes.quiet c"
  by (auto simp: ip_verb_def host_routes.quiet_def route_neutral_def host_undo_def host_is_undo_def
      lit_get lit_verbs split: list.split)

lemma host_lookups_quiet:
  "issues host_routes.quiet (host_server_hop N os cfg) (\<lambda>_. True)"
  "issues host_routes.quiet (host_exclude_hops N os nets) (\<lambda>_. True)"
  by (rule issues_weaken [OF issues_host_server_hop] issues_weaken [OF issues_host_exclude_hops],
      rule get_quiet, simp_all)+

lemma host_create_tun_quiet: "issues host_routes.quiet (host_create_tun os cfg) (\<lambda>_. True)"
  unfolding host_create_tun_def Let_def
  by (intro issues_intros)
    (auto simp: host_routes.quiet_def route_neutral_def host_undo_def host_is_undo_def)

abbreviation "before_loop \<equiv> \<lambda>c. c \<noteq> AcceptLoop"

lemma host_run_before [issues_intros]: "issues before_loop (host_run os args) (\<lambda>_. True)"
  by (simp add: issues_def host_run_run)

lemma host_add_before [issues_intros]: "issues before_loop (host_add N os how net added) (\<lambda>_. True)"
  unfolding host_add_def host_pin_direct_def host_add_to_dev_def host_install_def host_exists_def
  by (intro issues_intros TrueI)

lemma host_pin_excluded_before [issues_intros]:
  "issues before_loop (host_pin_excluded N os hops added) (\<lambda>_. True)"
  by (induction N os hops added rule: host_pin_excluded.induct)
    (auto intro!: issues_intros split: prod.split)

lemma host_add_routes_before [issues_intros]:
  "issues before_loop (host_add_routes N os dev nets added) (\<lambda>_. True)"
  by (induction N os dev nets added rule: host_add_routes.induct)
    (auto intro!: issues_intros split: prod.split sum.split)

lemma host_install_before: "issues before_loop (host_install_routes N os cfg hop hops) (\<lambda>_. True)"
  unfolding host_install_routes_def host_pin_server_def host_net_def
  by (auto intro!: issues_intros split: option.split prod.split sum.split)

lemma host_serve_loops:
  "loops_last host_neutral os StackStopped (host_serve os mtu_check cfg ready)"
  unfolding loops_last_def
proof
  fix h
  let ?dns = "if host_dns cfg = None then [] else [SpawnDns]"
  have "snd (host_serve os mtu_check cfg ready h) = h @ [] \<or>
      snd (host_serve os mtu_check cfg ready h) = h @ ?dns \<or>
      host_serve os mtu_check cfg ready h =
        (loop_result StackStopped (os_unit os (h @ ?dns) AcceptLoop), (h @ ?dns) @ [AcceptLoop])"
    by (auto simp: host_serve_def act_defs sys_def do_call_def loop_result_def split: sum.split
        option.split outcome.split)
  moreover have "\<forall>c \<in> set ?dns. host_neutral c \<and> c \<noteq> AcceptLoop"
    by (simp add: route_neutral_def host_undo_def host_is_undo_def)
  ultimately show "\<exists>cs. (\<forall>c \<in> set cs. host_neutral c \<and> c \<noteq> AcceptLoop) \<and>
      (snd (host_serve os mtu_check cfg ready h) = h @ cs \<or>
       host_serve os mtu_check cfg ready h =
         (loop_result StackStopped (os_unit os (h @ cs) AcceptLoop), (h @ cs) @ [AcceptLoop]))"
    by (metis empty_iff list.set(1))
qed

text \<open>The end of the host's loop is the end of the host.\<close>

lemma host_main_loop:
  assumes "host_main N mtu_check os False cfg [] = (r, h)" and "AcceptLoop \<in> set h"
  obtains h0 where
    "os_unit os h0 AcceptLoop = Done () \<Longrightarrow>
      r = Done () \<and> undone host_is_undo h = rev (installed host_undo os h)"
    "\<And>e. os_unit os h0 AcceptLoop = Failed e \<Longrightarrow>
      r = Failed (StackStopped e) \<and> undone host_is_undo h = rev (installed host_undo os h)"
    "os_unit os h0 AcceptLoop = Pending \<Longrightarrow> r = Pending \<and> undone host_is_undo h = []"
proof -
  have start: "host_routes.fresh N os [] []"
    by (simp add: host_routes.fresh_def tracks_def)
  note run = assms(1) [unfolded host_main_def, simplified]
  from host_routes.quiet_first [OF host_lookups_quiet(1) run start assms(2)] obtain hop h1 where
      h1: "host_routes.fresh N os [] h1" and run1: "and_then (host_exclude_hops N os (host_exclude cfg))
        (\<lambda>hops. and_then (host_create_tun os cfg) (\<lambda>_.
          and_then (host_run_phase N mtu_check os cfg hop hops) lift_result)) h1 = (r, h)"
    by blast
  from host_routes.quiet_first [OF host_lookups_quiet(2) run1 h1 assms(2)] obtain hops h2 where
      h2: "host_routes.fresh N os [] h2" and run2: "and_then (host_create_tun os cfg) (\<lambda>_.
          and_then (host_run_phase N mtu_check os cfg hop hops) lift_result) h2 = (r, h)"
    by blast
  from host_routes.quiet_first [OF host_create_tun_quiet run2 h2 assms(2)] obtain h3 where
      h3: "host_routes.fresh N os [] h3" and
      run3: "and_then (host_run_phase N mtu_check os cfg hop hops) lift_result h3 = (r, h)"
    by blast
  obtain rp hp where phase: "host_run_phase N mtu_check os cfg hop hops h3 = (rp, hp)"
    by (cases "host_run_phase N mtu_check os cfg hop hops h3")
  with run3 have hp: "hp = h" by (cases rp) (auto simp: act_defs split: sum.splits)
  from host_routes.bracket_loop [OF host_install_routes_tracks host_install_before host_serve_loops
      host_loop_neutral phase [unfolded host_run_phase_def hp] h3 assms(2)]
  obtain h0 where h0:
    "os_unit os h0 AcceptLoop = Done () \<Longrightarrow>
      rp = Done (Inr ()) \<and> undone host_is_undo h = rev (installed host_undo os h)"
    "\<And>e. os_unit os h0 AcceptLoop = Failed e \<Longrightarrow>
      rp = Done (Inl (StackStopped e)) \<and> undone host_is_undo h = rev (installed host_undo os h)"
    "os_unit os h0 AcceptLoop = Pending \<Longrightarrow> rp = Pending \<and> undone host_is_undo h = []"
    by blast
  show thesis
    by (rule that [of h0]) (use h0 run3 phase in \<open>auto simp: act_defs\<close>)
qed

subsection \<open>The proxy client\<close>

abbreviation "client_neutral os_kind \<equiv> route_neutral (client_undo os_kind) (client_is_undo os_kind)"

lemma client_loop_neutral: "\<not> client_is_undo os_kind AcceptLoop" "client_undo os_kind AcceptLoop = None"
  by (simp_all add: client_is_undo_def client_undo_def)

lemma client_create_tun_quiet:
  "issues (client_routes.quiet os_kind) (client_create_tun os device_name cfg) (\<lambda>_. True)"
  unfolding client_create_tun_def Let_def
  by (intro issues_intros)
    (auto simp: client_routes.quiet_def route_neutral_def client_undo_def client_is_undo_def issues_def
      split: sum.split)

lemma run_checked_before [issues_intros]: "issues before_loop (run_checked os p args) (\<lambda>_. True)"
  by (simp add: issues_def run_checked_run)

lemma client_install_before:
  "issues before_loop (client_install_routes os_kind N os device cfg) (\<lambda>_. True)"
proof -
  have "issues before_loop (client_route_add os_kind N os device net added) (\<lambda>_. True)" for net added
    unfolding client_route_add_def client_run_def
    by (auto intro!: issues_intros split: prod.split)
  then have "issues before_loop (client_add_routes os_kind N os device nets added) (\<lambda>_. True)" for nets added
    by (induction os_kind N os device nets added rule: client_add_routes.induct)
      (auto intro!: issues_intros split: prod.split sum.split)
  then show ?thesis
    unfolding client_install_routes_def by (intro issues_intros TrueI)
qed

lemma client_serve_loops:
  "loops_last (client_neutral os_kind) os ClientStackStopped (client_serve os mtu_check cfg ready)"
  unfolding loops_last_def
  by (rule allI, rule exI [of _ "[]"])
    (auto simp: client_serve_def act_defs sys_def do_call_def loop_result_def split: sum.split
      option.split outcome.split)

lemma client_main_loop:
  assumes "client_main os_kind N mtu_check device_name quic_new grpc_new open_file os False cfg []
      = (r, h)" and "AcceptLoop \<in> set h"
  obtains h0 where
    "os_unit os h0 AcceptLoop = Done () \<Longrightarrow> r = Done () \<and>
      undone (client_is_undo os_kind) h = rev (installed (client_undo os_kind) os h)"
    "\<And>e. os_unit os h0 AcceptLoop = Failed e \<Longrightarrow> r = Failed (ClientStackStopped e) \<and>
      undone (client_is_undo os_kind) h = rev (installed (client_undo os_kind) os h)"
    "os_unit os h0 AcceptLoop = Pending \<Longrightarrow> r = Pending \<and> undone (client_is_undo os_kind) h = []"
proof -
  from assms obtain ts where "transport_new quic_new grpc_new cfg = Inr ts"
    by (cases "transport_new quic_new grpc_new cfg") (auto simp: client_main_def act_defs)
  with assms(1) have run: "and_then (client_create_tun os device_name cfg) (\<lambda>device.
      and_then (client_run_phase os_kind N mtu_check os device cfg) lift_result) [] = (r, h)"
    by (simp add: client_main_def lift_result_def and_then_def)
  have start: "client_routes.fresh os_kind N device os [] []" for device
    by (simp add: client_routes.fresh_def tracks_def)
  from client_routes.quiet_first [OF client_create_tun_quiet run start assms(2)] obtain device h1 where
      fresh: "client_routes.fresh os_kind N [] os [] h1" and
      run1: "and_then (client_run_phase os_kind N mtu_check os device cfg) lift_result h1 = (r, h)"
    by blast
  from fresh have h1: "client_routes.fresh os_kind N device os [] h1"
    by (simp add: client_routes.fresh_def tracks_def)
  obtain rp hp where phase: "client_run_phase os_kind N mtu_check os device cfg h1 = (rp, hp)"
    by (cases "client_run_phase os_kind N mtu_check os device cfg h1")
  with run1 have hp: "hp = h" by (cases rp) (auto simp: act_defs split: sum.splits)
  from client_routes.bracket_loop [OF client_install_routes_tracks client_install_before
      client_serve_loops client_loop_neutral phase [unfolded client_run_phase_def hp] h1 assms(2)]
  obtain h0 where h0:
    "os_unit os h0 AcceptLoop = Done () \<Longrightarrow> rp = Done (Inr ()) \<and>
      undone (client_is_undo os_kind) h = rev (installed (client_undo os_kind) os h)"
    "\<And>e. os_unit os h0 AcceptLoop = Failed e \<Longrightarrow> rp = Done (Inl (ClientStackStopped e)) \<and>
      undone (client_is_undo os_kind) h = rev (installed (client_undo os_kind) os h)"
    "os_unit os h0 AcceptLoop = Pending \<Longrightarrow> rp = Pending \<and> undone (client_is_undo os_kind) h = []"
    by blast
  show thesis
    by (rule that [of h0]) (use h0 run1 phase in \<open>auto simp: act_defs\<close>)
qed

subsection \<open>Properties\<close>

text \<open>
  C29: where the accept loop of the host answers as the code's loop over some signals and packets,
  the host ends well on either signal it waits for, and with the stack's error when the IP stack
  stops, in both cases with every route it installed removed; as long as neither has happened it
  removes none; and every stream that arrives before is dispatched, in the order of arrival.
\<close>

theorem host_ends_with_loop:
  assumes "host_main N mtu_check os False cfg [] = (r, h)" and "AcceptLoop \<in> set h"
    and "loop_runs os (host_accept_loop unix term) (map (\<lambda>s. Arrived (Inr s)) streams @ events)"
  shows "(\<exists>later. fst (host_accept_loop unix term (map (\<lambda>s. Arrived (Inr s)) streams @ events))
      = streams @ later) \<and>
    (case events of
      [] \<Rightarrow> r = Pending \<and> undone host_is_undo h = []
    | Arrived (Inl e) # _ \<Rightarrow> r = Failed (StackStopped e) \<and>
        undone host_is_undo h = rev (installed host_undo os h)
    | Signalled s # _ \<Rightarrow> s = Interrupt \<or> unix \<and> term = Inr () \<longrightarrow>
        r = Done () \<and> undone host_is_undo h = rev (installed host_undo os h)
    | Arrived (Inr stream) # _ \<Rightarrow> True)"
proof
  show "\<exists>later. fst (host_accept_loop unix term (map (\<lambda>s. Arrived (Inr s)) streams @ events))
      = streams @ later"
    by (simp add: host_accept_loop_def accept_loop_append)
next
  from assms(1,2) obtain h0 where h0:
    "os_unit os h0 AcceptLoop = Done () \<Longrightarrow>
      r = Done () \<and> undone host_is_undo h = rev (installed host_undo os h)"
    "\<And>e. os_unit os h0 AcceptLoop = Failed e \<Longrightarrow>
      r = Failed (StackStopped e) \<and> undone host_is_undo h = rev (installed host_undo os h)"
    "os_unit os h0 AcceptLoop = Pending \<Longrightarrow> r = Pending \<and> undone host_is_undo h = []"
    by (rule host_main_loop) blast
  from assms(3) have loop: "os_unit os h0 AcceptLoop
      = loop_answer (snd (accept_loop (shutdown_signal unix term) events))"
    by (simp add: loop_runs_def host_accept_loop_def accept_loop_append)
  show "case events of
      [] \<Rightarrow> r = Pending \<and> undone host_is_undo h = []
    | Arrived (Inl e) # _ \<Rightarrow> r = Failed (StackStopped e) \<and>
        undone host_is_undo h = rev (installed host_undo os h)
    | Signalled s # _ \<Rightarrow> s = Interrupt \<or> unix \<and> term = Inr () \<longrightarrow>
        r = Done () \<and> undone host_is_undo h = rev (installed host_undo os h)
    | Arrived (Inr stream) # _ \<Rightarrow> True"
  proof (cases events)
    case Nil
    with h0(3) loop show ?thesis by simp
  next
    case (Cons ev rest)
    show ?thesis
    proof (cases ev)
      case (Signalled s)
      have "shutdown_signal unix term s" if "s = Interrupt \<or> unix \<and> term = Inr ()"
        using that by (cases s) (auto simp: shutdown_signal_def split: sum.split)
      with Cons Signalled h0(1) loop show ?thesis by auto
    next
      case (Arrived r)
      with Cons h0(2) loop show ?thesis by (auto split: sum.split)
    qed
  qed
qed

theorem host_ends_with_loop_witness:
  "(\<exists>later. fst (host_accept_loop True (Inr ())
      (map (\<lambda>s. Arrived (Inr s)) [UnknownNetwork] @ [Signalled Terminate])) = [UnknownNetwork] @ later) \<and>
    fst example_host_run = Done () \<and>
    undone host_is_undo (snd example_host_run) = rev (installed host_undo example_host_os (snd example_host_run))"
proof -
  have "AcceptLoop \<in> set (snd example_host_run)" by (simp add: example_host_run_done)
  moreover have "loop_runs example_host_os (host_accept_loop True (Inr ()))
      (map (\<lambda>s. Arrived (Inr s)) [UnknownNetwork] @ [Signalled Terminate])"
    by (simp add: loop_runs_def example_host_os_def willing_os_def host_accept_loop_def
        shutdown_signal_def)
  ultimately show ?thesis using host_ends_with_loop [OF example_host_run_eq] by fastforce
qed

text \<open>
  The proxy client ends as well on an interrupt and on an error of the IP stack. On SIGTERM, which
  it does not wait for, it ends where it is, with its routes in place.
\<close>

lemma client_ends_with_loop:
  assumes "client_main os_kind N mtu_check device_name quic_new grpc_new open_file os False cfg []
      = (r, h)" and "AcceptLoop \<in> set h"
    and "loop_runs os client_accept_loop (map (\<lambda>s. Arrived (Inr s)) streams @ ev # events)"
  shows "case ev of
      Arrived (Inl e) \<Rightarrow> r = Failed (ClientStackStopped e) \<and>
        undone (client_is_undo os_kind) h = rev (installed (client_undo os_kind) os h)
    | Signalled Interrupt \<Rightarrow> r = Done () \<and>
        undone (client_is_undo os_kind) h = rev (installed (client_undo os_kind) os h)
    | Signalled Terminate \<Rightarrow> undone (client_is_undo os_kind) h = []
    | Arrived (Inr stream) \<Rightarrow> True"
proof -
  from assms(1,2) obtain h0 where h0:
    "os_unit os h0 AcceptLoop = Done () \<Longrightarrow> r = Done () \<and>
      undone (client_is_undo os_kind) h = rev (installed (client_undo os_kind) os h)"
    "\<And>e. os_unit os h0 AcceptLoop = Failed e \<Longrightarrow> r = Failed (ClientStackStopped e) \<and>
      undone (client_is_undo os_kind) h = rev (installed (client_undo os_kind) os h)"
    "os_unit os h0 AcceptLoop = Pending \<Longrightarrow> r = Pending \<and> undone (client_is_undo os_kind) h = []"
    by (rule client_main_loop) blast
  from assms(3) have "os_unit os h0 AcceptLoop = loop_answer (snd (accept_loop ctrl_c (ev # events)))"
    by (simp add: loop_runs_def client_accept_loop_def accept_loop_append)
  with h0 show ?thesis
    by (auto simp: ctrl_c_def split: loop_event.split sum.split signal.split)
qed

end
