(* ===== verification/Client_Shared.thy ===== *)
theory Client_Shared
  imports Client_Quic
begin

text \<open>
  The QUIC connection that all flows of the proxy client share (\<open>crates/proxy-client/src/quic.rs\<close>),
  with the flows interleaved. The slot is behind a mutex: \<open>connection\<close> holds it while it dials,
  \<open>invalidate\<close> takes it for one assignment. Each step is what a task does between two awaits; a
  connection may be closed by the network at any time. \<open>quic_open\<close> of Client_Quic is one flow's way
  through these steps.
\<close>

datatype flow_pc =
    FlowIdle
  | WantConnection          \<comment> \<open>in \<open>self.connection.lock().await\<close> of \<open>connection\<close>\<close>
  | Dialing                 \<comment> \<open>in \<open>timeout(.., connecting).await\<close>, with the lock\<close>
  | HasConnection nat       \<comment> \<open>from \<open>open_bi\<close> to the response\<close>
  | WantInvalidate          \<comment> \<open>in \<open>self.connection.lock().await\<close> of \<open>invalidate\<close>\<close>
  | FlowOpen nat
  | FlowRefused
  | FlowFailed

record shared_quic =
  sq_slot :: "nat option"
  sq_lock :: "nat option"      \<comment> \<open>the flow that holds the mutex over an await\<close>
  sq_conns :: "nat set"        \<comment> \<open>the connections established so far\<close>
  sq_closed :: "nat set"       \<comment> \<open>those with a \<open>close_reason\<close>\<close>
  sq_pc :: "nat \<Rightarrow> flow_pc"

abbreviation set_pc :: "nat \<Rightarrow> flow_pc \<Rightarrow> shared_quic \<Rightarrow> shared_quic" where
  "set_pc f pc s \<equiv> s\<lparr>sq_pc := (sq_pc s)(f := pc)\<rparr>"

definition slot_usable :: "shared_quic \<Rightarrow> bool" where
  "slot_usable s \<longleftrightarrow> (case sq_slot s of Some n \<Rightarrow> n \<notin> sq_closed s | None \<Rightarrow> False)"

inductive shared_step :: "shared_quic \<Rightarrow> shared_quic \<Rightarrow> bool" where
  Begin: "sq_pc s f = FlowIdle \<Longrightarrow> shared_step s (set_pc f WantConnection s)"
| Reuse: "\<lbrakk>sq_pc s f = WantConnection; sq_lock s = None; sq_slot s = Some n; n \<notin> sq_closed s\<rbrakk> \<Longrightarrow>
   shared_step s (set_pc f (HasConnection n) s)"
| StartDial: "\<lbrakk>sq_pc s f = WantConnection; sq_lock s = None; \<not> slot_usable s\<rbrakk> \<Longrightarrow>
   shared_step s (set_pc f Dialing (s\<lparr>sq_lock := Some f\<rparr>))"
| StartFails: "\<lbrakk>sq_pc s f = WantConnection; sq_lock s = None; \<not> slot_usable s\<rbrakk> \<Longrightarrow>
   shared_step s (set_pc f FlowFailed s)"
| DialOk: "sq_pc s f = Dialing \<Longrightarrow>
   shared_step s (set_pc f (HasConnection n)
     (s\<lparr>sq_slot := Some n, sq_lock := None, sq_conns := insert n (sq_conns s)\<rparr>))"
| DialFails: "sq_pc s f = Dialing \<Longrightarrow> shared_step s (set_pc f FlowFailed (s\<lparr>sq_lock := None\<rparr>))"
| StreamFails: "sq_pc s f = HasConnection n \<Longrightarrow> shared_step s (set_pc f WantInvalidate s)"
| StreamRefused: "sq_pc s f = HasConnection n \<Longrightarrow> shared_step s (set_pc f FlowRefused s)"
| StreamOpens: "sq_pc s f = HasConnection n \<Longrightarrow> shared_step s (set_pc f (FlowOpen n) s)"
| Invalidates: "\<lbrakk>sq_pc s f = WantInvalidate; sq_lock s = None\<rbrakk> \<Longrightarrow>
   shared_step s (set_pc f FlowFailed (s\<lparr>sq_slot := None\<rparr>))"
| NetworkCloses: "n \<in> sq_conns s \<Longrightarrow> shared_step s (s\<lparr>sq_closed := insert n (sq_closed s)\<rparr>)"

definition shared_start :: shared_quic where
  "shared_start = \<lparr>sq_slot = None, sq_lock = None, sq_conns = {}, sq_closed = {},
     sq_pc = (\<lambda>_. FlowIdle)\<rparr>"

definition shared_reachable :: "shared_quic \<Rightarrow> bool" where
  "shared_reachable s \<longleftrightarrow> shared_step\<^sup>*\<^sup>* shared_start s"

subsection \<open>The invariant\<close>

text \<open>
  The flow that dials is the one with the lock, so there is at most one; what it will replace is not
  in use; and connections that flows hold were established.
\<close>

definition shared_inv :: "shared_quic \<Rightarrow> bool" where
  "shared_inv s \<longleftrightarrow>
     (\<forall>f. sq_pc s f = Dialing \<longleftrightarrow> sq_lock s = Some f) \<and>
     (sq_lock s \<noteq> None \<longrightarrow> \<not> slot_usable s) \<and>
     (\<forall>n. sq_slot s = Some n \<longrightarrow> n \<in> sq_conns s) \<and>
     (\<forall>f n. sq_pc s f = HasConnection n \<or> sq_pc s f = FlowOpen n \<longrightarrow> n \<in> sq_conns s)"

lemma shared_inv_start: "shared_inv shared_start"
  by (simp add: shared_inv_def shared_start_def)

lemma slot_usable_simps [simp]:
  "slot_usable (s\<lparr>sq_pc := p\<rparr>) \<longleftrightarrow> slot_usable s"
  "slot_usable (s\<lparr>sq_lock := l\<rparr>) \<longleftrightarrow> slot_usable s"
  by (simp_all add: slot_usable_def split: option.split)

lemma closing_unusable:
  "\<not> slot_usable s \<Longrightarrow> \<not> slot_usable (s\<lparr>sq_closed := insert n (sq_closed s)\<rparr>)"
  by (simp add: slot_usable_def split: option.splits)

lemma not_dialing: "shared_inv s \<Longrightarrow> sq_pc s f \<noteq> Dialing \<Longrightarrow> sq_lock s \<noteq> Some f"
  by (simp add: shared_inv_def)

lemma held_established:
  "shared_inv s \<Longrightarrow> sq_pc s f = HasConnection n \<Longrightarrow> n \<in> sq_conns s"
  "shared_inv s \<Longrightarrow> sq_slot s = Some n \<Longrightarrow> n \<in> sq_conns s"
  unfolding shared_inv_def by blast+

lemma shared_inv_set_pc:
  assumes "shared_inv s" and "sq_pc s f \<noteq> Dialing" "pc \<noteq> Dialing"
    and "\<And>n. pc = HasConnection n \<or> pc = FlowOpen n \<Longrightarrow> n \<in> sq_conns s"
  shows "shared_inv (set_pc f pc s)"
  using assms not_dialing [OF assms(1,2)] by (auto simp: shared_inv_def)

lemma shared_inv_step: "shared_step s s' \<Longrightarrow> shared_inv s \<Longrightarrow> shared_inv s'"
proof (induction rule: shared_step.induct)
  case (NetworkCloses n s)
  then show ?case using closing_unusable by (simp add: shared_inv_def)
next
  case (StartDial s f)
  then show ?case by (auto simp: shared_inv_def)
next
  case (DialOk s f n)
  then show ?case by (auto simp: shared_inv_def)
next
  case (DialFails s f)
  then show ?case by (auto simp: shared_inv_def)
next
  case (Invalidates s f)
  then show ?case by (auto simp: shared_inv_def)
qed (rule shared_inv_set_pc; use held_established in force)+

lemma shared_reachable_inv: "shared_reachable s \<Longrightarrow> shared_inv s"
  unfolding shared_reachable_def
  by (induction rule: rtranclp_induct) (auto intro: shared_inv_start shared_inv_step)

text \<open>A usable connection leaves the slot in one way only.\<close>

lemma usable_slot_kept:
  assumes "shared_step s s'" and "shared_inv s" and "sq_slot s = Some n" "n \<notin> sq_closed s"
    and "sq_slot s' \<noteq> Some n"
  shows "\<exists>f. sq_pc s f = WantInvalidate \<and> sq_pc s' f = FlowFailed \<and> sq_slot s' = None"
  using assms
  by (cases rule: shared_step.cases) (auto simp: shared_inv_def slot_usable_def)

subsection \<open>One flow of the code is a run of the steps\<close>

text \<open>What the rest of a flow makes of a connection.\<close>

lemma quic_handshake_results:
  assumes "quic_handshake os cfg c target slot h = (Done (res, slot'), h')"
  shows "(res = Inr () \<and> slot' = slot) \<or> (\<exists>m. res = Inl (Rejected m) \<and> slot' = slot) \<or>
    (\<exists>e. res = Inl (Unavailable e) \<and> slot' = None)"
  using assms
  by (auto simp: quic_handshake_def and_then_def attempt_def with_timeout_def timeout_def ret_def
      sys_def quic_invalidate_def
      split: prod.splits outcome.splits sum.splits option.splits if_splits)

lemma quic_use_results:
  assumes "(quic_use os cfg c target (Inr n, slot) :: ('e, _) io) h = (Done (res, slot'), h')"
  shows "(res = Inr () \<and> slot' = slot) \<or> (\<exists>m. res = Inl (Rejected m) \<and> slot' = slot) \<or>
    (\<exists>e. res = Inl (Unavailable e) \<and> slot' = None)"
proof -
  from assms obtain opened :: "io_error + unit" and h1 where
      opened: "(case opened of
           Inl err \<Rightarrow> ret (Inl (Unavailable (OpeningStream err)), quic_invalidate slot)
         | Inr _ \<Rightarrow> quic_handshake os cfg c target slot) h1 = (Done (res, slot') :: ('e, _) outcome, h')"
    unfolding quic_use_def prod.case sum.case by (elim and_then_DoneD) blast
  then show ?thesis
    by (cases opened) (auto simp: ret_Done_iff quic_invalidate_def dest: quic_handshake_results)
qed

fun ended_as :: "quic_open_error + unit \<Rightarrow> flow_pc \<Rightarrow> bool" where
  "ended_as (Inr _) pc \<longleftrightarrow> (\<exists>n. pc = FlowOpen n)"
| "ended_as (Inl (Rejected _)) pc \<longleftrightarrow> pc = FlowRefused"
| "ended_as (Inl (Unavailable _)) pc \<longleftrightarrow> pc = FlowFailed"

lemma use_simulated:
  assumes "(quic_use os cfg c target (Inr n, sq_slot s) :: ('e, _) io) h = (Done (res, slot'), h')"
    and "sq_pc s f = HasConnection n" and "sq_lock s = None"
  shows "\<exists>s'. shared_step\<^sup>*\<^sup>* s s' \<and> sq_slot s' = slot' \<and> sq_lock s' = None \<and>
    ended_as res (sq_pc s' f) \<and> (\<forall>g. g \<noteq> f \<longrightarrow> sq_pc s' g = sq_pc s g)"
proof -
  consider "res = Inr ()" "slot' = sq_slot s" | m where "res = Inl (Rejected m)" "slot' = sq_slot s"
    | e where "res = Inl (Unavailable e)" "slot' = None"
    using quic_use_results [OF assms(1)] by blast
  then show ?thesis
  proof cases
    case 1
    with assms(3) StreamOpens [OF assms(2)] show ?thesis
      by (intro exI [of _ "set_pc f (FlowOpen n) s"]) auto
  next
    case 2
    with assms(3) StreamRefused [OF assms(2)] show ?thesis
      by (intro exI [of _ "set_pc f FlowRefused s"]) auto
  next
    case 3
    let ?s1 = "set_pc f WantInvalidate s"
    let ?s2 = "set_pc f FlowFailed (?s1\<lparr>sq_slot := None\<rparr>)"
    have "shared_step ?s1 ?s2" by (rule Invalidates) (simp_all add: assms(3))
    with StreamFails [OF assms(2)] have "shared_step\<^sup>*\<^sup>* s ?s2"
      by (meson converse_rtranclp_into_rtranclp r_into_rtranclp)
    with 3 assms(3) show ?thesis by (intro exI [of _ ?s2]) auto
  qed
qed

text \<open>Getting a connection: the one in the slot, a new one that goes into it, or none.\<close>

lemma connection_simulated:
  assumes "(quic_connection os cfg (sq_slot s) :: ('e, _) io) h = (Done (conn, slot'), h')"
    and "\<And>n. sq_slot s = Some n \<Longrightarrow> os_flag os h (QuicCloseReason n) \<longleftrightarrow> n \<notin> sq_closed s"
    and "sq_pc s f = WantConnection" and "sq_lock s = None"
  shows "\<exists>s'. shared_step\<^sup>*\<^sup>* s s' \<and> sq_slot s' = slot' \<and> sq_lock s' = None \<and>
    sq_pc s' f = (case conn of Inr n \<Rightarrow> HasConnection n | Inl err \<Rightarrow> FlowFailed) \<and>
    (\<forall>g. g \<noteq> f \<longrightarrow> sq_pc s' g = sq_pc s g)"
proof (cases "slot_usable s")
  case True
  then obtain n where n: "sq_slot s = Some n" "n \<notin> sq_closed s"
    by (auto simp: slot_usable_def split: option.splits)
  with assms(1,2) quic_connection_reuses [of os h n cfg, where 'a = 'e] have "conn = Inr n" "slot' = Some n"
    by auto
  with n assms(4) Reuse [OF assms(3,4) n] show ?thesis
    by (intro exI [of _ "set_pc f (HasConnection n) s"]) auto
next
  case False
  let ?dialing = "set_pc f Dialing (s\<lparr>sq_lock := Some f\<rparr>)"
  note start = StartDial [OF assms(3,4) False]
  show ?thesis
  proof (cases conn)
    case (Inl err)
    have "shared_step ?dialing (set_pc f FlowFailed (?dialing\<lparr>sq_lock := None\<rparr>))"
      by (rule DialFails) simp
    with start have "shared_step\<^sup>*\<^sup>* s (set_pc f FlowFailed (?dialing\<lparr>sq_lock := None\<rparr>))"
      by (meson converse_rtranclp_into_rtranclp r_into_rtranclp)
    moreover from quic_connection_slot [OF assms(1)] Inl have "slot' = sq_slot s" by simp
    ultimately show ?thesis using Inl
      by (intro exI [of _ "set_pc f FlowFailed (?dialing\<lparr>sq_lock := None\<rparr>)"]) auto
  next
    case (Inr n)
    let ?got = "set_pc f (HasConnection n)
      (?dialing\<lparr>sq_slot := Some n, sq_lock := None, sq_conns := insert n (sq_conns ?dialing)\<rparr>)"
    have "shared_step ?dialing ?got" by (rule DialOk) simp
    with start have "shared_step\<^sup>*\<^sup>* s ?got"
      by (meson converse_rtranclp_into_rtranclp r_into_rtranclp)
    moreover from quic_connection_slot [OF assms(1)] Inr have "slot' = Some n" by simp
    ultimately show ?thesis using Inr by (intro exI [of _ ?got]) auto
  qed
qed

lemma quic_open_simulated:
  assumes "(quic_open os cfg c target (sq_slot s) :: ('e, _) io) h = (Done (res, slot'), h')"
    and "\<And>n. sq_slot s = Some n \<Longrightarrow> os_flag os h (QuicCloseReason n) \<longleftrightarrow> n \<notin> sq_closed s"
    and "sq_pc s f = FlowIdle" and "sq_lock s = None"
  shows "\<exists>s'. shared_step\<^sup>*\<^sup>* s s' \<and> sq_slot s' = slot' \<and> sq_lock s' = None \<and>
    ended_as res (sq_pc s' f) \<and> (\<forall>g. g \<noteq> f \<longrightarrow> sq_pc s' g = sq_pc s g)"
proof -
  let ?s0 = "set_pc f WantConnection s"
  from assms(1) obtain a h1 where conn: "quic_connection os cfg (sq_slot s) h = (Done a :: ('e, _) outcome, h1)"
    and use_it: "quic_use os cfg c target a h1 = (Done (res, slot') :: ('e, _) outcome, h')"
    unfolding quic_open_def by (rule and_then_DoneD)
  obtain r slot1 where a: "a = (r, slot1)" by (cases a)
  have "\<exists>s1. shared_step\<^sup>*\<^sup>* ?s0 s1 \<and> sq_slot s1 = slot1 \<and> sq_lock s1 = None \<and>
      sq_pc s1 f = (case r of Inr n \<Rightarrow> HasConnection n | Inl err \<Rightarrow> FlowFailed) \<and>
      (\<forall>g. g \<noteq> f \<longrightarrow> sq_pc s1 g = sq_pc ?s0 g)"
    by (rule connection_simulated) (use conn a assms(2,4) in simp_all)
  then obtain s1 where s1: "shared_step\<^sup>*\<^sup>* ?s0 s1" "sq_slot s1 = slot1" "sq_lock s1 = None"
      "sq_pc s1 f = (case r of Inr n \<Rightarrow> HasConnection n | Inl err \<Rightarrow> FlowFailed)"
      "\<forall>g. g \<noteq> f \<longrightarrow> sq_pc s1 g = sq_pc s g"
    by auto
  from converse_rtranclp_into_rtranclp [OF Begin [OF assms(3)] s1(1)] have run: "shared_step\<^sup>*\<^sup>* s s1" .
  show ?thesis
  proof (cases r)
    case (Inl err)
    with use_it a have "res = Inl (Unavailable err)" "slot' = slot1"
      by (simp_all add: quic_use_def ret_Done_iff)
    with run s1 Inl show ?thesis by (intro exI [of _ s1]) auto
  next
    case (Inr n)
    with use_it a s1(2) have "quic_use os cfg c target (Inr n, sq_slot s1) h1
        = (Done (res, slot') :: ('e, _) outcome, h')"
      by simp
    from use_simulated [OF this, of f] s1 Inr obtain s2 where "shared_step\<^sup>*\<^sup>* s1 s2" "sq_slot s2 = slot'"
        "sq_lock s2 = None" "ended_as res (sq_pc s2 f)" "\<forall>g. g \<noteq> f \<longrightarrow> sq_pc s2 g = sq_pc s1 g"
      by auto
    with run s1(5) show ?thesis by (intro exI [of _ s2]) (auto intro: rtranclp_trans)
  qed
qed

subsection \<open>A fresh connection can be dropped\<close>

text \<open>
  Flow 0 fails on connection 0 and waits to invalidate it; meanwhile flow 1 finds it closed and puts
  connection 1 into the slot; then flow 0 empties the slot.
\<close>

definition example_shared :: shared_quic where
  "example_shared = \<lparr>sq_slot = Some 1, sq_lock = None, sq_conns = {0, 1}, sq_closed = {0},
     sq_pc = (\<lambda>_. FlowIdle)(0 := WantInvalidate, 1 := HasConnection 1)\<rparr>"

definition example_dropped :: shared_quic where
  "example_dropped = set_pc 0 FlowFailed (example_shared\<lparr>sq_slot := None\<rparr>)"

lemma shared_reachable_step: "shared_reachable s \<Longrightarrow> shared_step s s' \<Longrightarrow> shared_reachable s'"
  unfolding shared_reachable_def by (rule rtranclp.rtrancl_into_rtrancl)

lemma example_shared_reachable: "shared_reachable example_shared"
proof -
  let ?s1 = "set_pc 0 WantConnection shared_start"
  let ?s2 = "set_pc 0 Dialing (?s1\<lparr>sq_lock := Some 0\<rparr>)"
  let ?s3 = "set_pc 0 (HasConnection 0) (?s2\<lparr>sq_slot := Some 0, sq_lock := None, sq_conns := insert 0 {}\<rparr>)"
  let ?s4 = "?s3\<lparr>sq_closed := insert 0 {}\<rparr>"
  let ?s5 = "set_pc 0 WantInvalidate ?s4"
  let ?s6 = "set_pc 1 WantConnection ?s5"
  let ?s7 = "set_pc 1 Dialing (?s6\<lparr>sq_lock := Some 1\<rparr>)"
  let ?s8 = "set_pc 1 (HasConnection 1)
    (?s7\<lparr>sq_slot := Some 1, sq_lock := None, sq_conns := insert 1 (insert 0 {})\<rparr>)"
  note defs = shared_start_def slot_usable_def
  have "shared_reachable shared_start" by (simp add: shared_reachable_def)
  then have "shared_reachable ?s1" by (rule shared_reachable_step, intro Begin) (simp add: defs)
  then have "shared_reachable ?s2"
    by (rule shared_reachable_step, intro StartDial) (simp_all add: defs)
  then have "shared_reachable ?s3"
    by (rule shared_reachable_step) (use DialOk [of ?s2 0 0] in \<open>simp add: defs\<close>)
  then have "shared_reachable ?s4"
    by (rule shared_reachable_step) (use NetworkCloses [of 0 ?s3] in \<open>simp add: defs\<close>)
  then have "shared_reachable ?s5"
    by (rule shared_reachable_step, intro StreamFails [of _ _ 0]) (simp add: defs)
  then have "shared_reachable ?s6" by (rule shared_reachable_step, intro Begin) (simp add: defs)
  then have "shared_reachable ?s7"
    by (rule shared_reachable_step, intro StartDial) (simp_all add: defs)
  then have "shared_reachable ?s8"
    by (rule shared_reachable_step) (use DialOk [of ?s7 1 1] in \<open>simp add: defs\<close>)
  then show ?thesis by (simp add: example_shared_def defs insert_commute)
qed

lemma example_dropped_step: "shared_step example_shared example_dropped"
  unfolding example_dropped_def by (rule Invalidates) (simp_all add: example_shared_def)

lemma fresh_connection_dropped:
  "\<exists>s s' n. shared_reachable s \<and> shared_step s s' \<and> sq_slot s = Some n \<and> n \<notin> sq_closed s \<and>
    sq_pc s 1 = HasConnection n \<and> sq_pc s 0 = WantInvalidate \<and> sq_slot s' = None"
  by (intro exI [of _ example_shared] exI [of _ example_dropped] exI [of _ 1] conjI
      example_shared_reachable example_dropped_step)
    (simp_all add: example_shared_def example_dropped_def)

subsection \<open>Properties\<close>

text \<open>
  C34: with any number of flows in any order, at most one of them dials; a flow that is open is on
  a connection that was established; and a connection that is still open leaves the slot only when
  a flow that failed empties it, never by another connection taking its place.
\<close>

theorem shared_connection_safe:
  assumes "shared_reachable s" and "shared_step s s'"
  shows "(\<forall>f g. sq_pc s f = Dialing \<and> sq_pc s g = Dialing \<longrightarrow> f = g) \<and>
    (\<forall>f n. sq_pc s f = FlowOpen n \<longrightarrow> n \<in> sq_conns s) \<and>
    (slot_usable s \<and> sq_slot s' \<noteq> sq_slot s \<longrightarrow>
      (\<exists>f. sq_pc s f = WantInvalidate \<and> sq_pc s' f = FlowFailed \<and> sq_slot s' = None))"
proof (intro conjI)
  note inv = shared_reachable_inv [OF assms(1)]
  from inv show "\<forall>f g. sq_pc s f = Dialing \<and> sq_pc s g = Dialing \<longrightarrow> f = g"
    by (auto simp: shared_inv_def)
  from inv show "\<forall>f n. sq_pc s f = FlowOpen n \<longrightarrow> n \<in> sq_conns s"
    unfolding shared_inv_def by blast
  show "slot_usable s \<and> sq_slot s' \<noteq> sq_slot s \<longrightarrow>
      (\<exists>f. sq_pc s f = WantInvalidate \<and> sq_pc s' f = FlowFailed \<and> sq_slot s' = None)"
    using usable_slot_kept [OF assms(2) inv] by (auto simp: slot_usable_def split: option.splits)
qed

theorem shared_connection_safe_witness:
  "\<exists>f. sq_pc example_shared f = WantInvalidate \<and> sq_pc example_dropped f = FlowFailed \<and>
    sq_slot example_dropped = None"
proof -
  have "slot_usable example_shared \<and> sq_slot example_dropped \<noteq> sq_slot example_shared"
    by (simp add: example_shared_def example_dropped_def slot_usable_def)
  with shared_connection_safe [OF example_shared_reachable example_dropped_step] show ?thesis by blast
qed


lemma quic_open_unreachable:
  "(quic_open ((willing_os (stream_of [] Stalls) [])\<lparr>os_unit := (\<lambda>h c. Failed (IoError TimedOut []))\<rparr>)
      cli_sample_config ConnectTcp (Ip (SA4 0 0)) (sq_slot shared_start) :: (unit, _) io) []
    = (Done (Inl (Unavailable (QuicStarting (IoError TimedOut []))), None),
       [QuicStart (cli_quic_server cli_sample_config) (cli_server_name cli_sample_config)])"
  using quic_open_no_start [of "(willing_os (stream_of [] Stalls) [])\<lparr>os_unit :=
      (\<lambda>h c. Failed (IoError TimedOut []))\<rparr>" "[]" cli_sample_config "IoError TimedOut []"]
  by (simp add: shared_start_def)


end
