(* ===== verification/Transport_Shared.thy ===== *)
theory Transport_Shared
  imports Client_Transport
begin

text \<open>
  \<open>fallback_until\<close> of \<open>crates/proxy-client/src/transport.rs\<close>, the one value that the concurrent calls
  of \<open>TransportClient::open\<close> share besides the connection, with both transports enabled. The mutex is
  never held over an await, so a read or write of the value is one step; between two awaits of a flow
  any other flow may move and time may pass. \<open>transport_open\<close> of Client_Transport is one flow's way
  through these steps.
\<close>

datatype tr_pc =
    TrIdle
  | TrGrpcFirst             \<comment> \<open>QUIC is suppressed: in \<open>grpc.open\<close>\<close>
  | TrClear                 \<comment> \<open>that failed: about to write \<open>None\<close>\<close>
  | TrQuic                  \<comment> \<open>in \<open>quic.open\<close>\<close>
  | TrQuicOk                \<comment> \<open>that opened: about to write \<open>None\<close>\<close>
  | TrQuicDown nat          \<comment> \<open>unavailable at this instant: about to write the end of the suppression\<close>
  | TrGrpcLast              \<comment> \<open>in the last \<open>grpc.open\<close>\<close>
  | TrOpen flow_transport
  | TrRefused
  | TrFailed

record shared_fallback =
  sf_until :: "nat option"
  sf_clock :: nat
  sf_downs :: "nat set"      \<comment> \<open>ghost: the instants at which a flow found QUIC unavailable\<close>
  sf_pc :: "nat \<Rightarrow> tr_pc"

abbreviation go :: "nat \<Rightarrow> tr_pc \<Rightarrow> shared_fallback \<Rightarrow> shared_fallback" where
  "go f pc s \<equiv> s\<lparr>sf_pc := (sf_pc s)(f := pc)\<rparr>"

definition quic_suppressed :: "shared_fallback \<Rightarrow> bool" where
  "quic_suppressed s \<longleftrightarrow> (case sf_until s of Some until \<Rightarrow> sf_clock s < until | None \<Rightarrow> False)"

inductive fallback_step :: "nat \<Rightarrow> shared_fallback \<Rightarrow> shared_fallback \<Rightarrow> bool" for retry where
  FbSuppressed: "\<lbrakk>sf_pc s f = TrIdle; quic_suppressed s\<rbrakk> \<Longrightarrow> fallback_step retry s (go f TrGrpcFirst s)"
| FbFree: "\<lbrakk>sf_pc s f = TrIdle; \<not> quic_suppressed s\<rbrakk> \<Longrightarrow> fallback_step retry s (go f TrQuic s)"
| FbGrpcOpens: "sf_pc s f = TrGrpcFirst \<Longrightarrow> fallback_step retry s (go f (TrOpen Grpc) s)"
| FbGrpcFails: "sf_pc s f = TrGrpcFirst \<Longrightarrow> fallback_step retry s (go f TrClear s)"
| FbClears: "sf_pc s f = TrClear \<Longrightarrow> fallback_step retry s (go f TrQuic (s\<lparr>sf_until := None\<rparr>))"
| FbQuicOpens: "sf_pc s f = TrQuic \<Longrightarrow> fallback_step retry s (go f TrQuicOk s)"
| FbQuicWorks: "sf_pc s f = TrQuicOk \<Longrightarrow>
   fallback_step retry s (go f (TrOpen Quic) (s\<lparr>sf_until := None\<rparr>))"
| FbQuicRejects: "sf_pc s f = TrQuic \<Longrightarrow> fallback_step retry s (go f TrRefused s)"
| FbQuicDown: "sf_pc s f = TrQuic \<Longrightarrow> fallback_step retry s
   (go f (TrQuicDown (sf_clock s)) (s\<lparr>sf_downs := insert (sf_clock s) (sf_downs s)\<rparr>))"
| FbSuppresses: "sf_pc s f = TrQuicDown t \<Longrightarrow>
   fallback_step retry s (go f TrGrpcLast (s\<lparr>sf_until := Some (t + retry)\<rparr>))"
| FbLastOpens: "sf_pc s f = TrGrpcLast \<Longrightarrow> fallback_step retry s (go f (TrOpen Grpc) s)"
| FbLastFails: "sf_pc s f = TrGrpcLast \<Longrightarrow> fallback_step retry s (go f TrFailed s)"
| FbTimePasses: "sf_clock s \<le> t \<Longrightarrow> fallback_step retry s (s\<lparr>sf_clock := t\<rparr>)"

definition fallback_start :: shared_fallback where
  "fallback_start = \<lparr>sf_until = None, sf_clock = 0, sf_downs = {}, sf_pc = (\<lambda>_. TrIdle)\<rparr>"

definition fallback_reachable :: "nat \<Rightarrow> shared_fallback \<Rightarrow> bool" where
  "fallback_reachable retry s \<longleftrightarrow> (fallback_step retry)\<^sup>*\<^sup>* fallback_start s"

subsection \<open>The suppression is always justified\<close>

definition fallback_inv :: "nat \<Rightarrow> shared_fallback \<Rightarrow> bool" where
  "fallback_inv retry s \<longleftrightarrow>
     (\<forall>until. sf_until s = Some until \<longrightarrow> (\<exists>t \<in> sf_downs s. until = t + retry)) \<and>
     (\<forall>t \<in> sf_downs s. t \<le> sf_clock s) \<and>
     (\<forall>f t. sf_pc s f = TrQuicDown t \<longrightarrow> t \<in> sf_downs s)"

lemma fallback_inv_start: "fallback_inv retry fallback_start"
  by (simp add: fallback_inv_def fallback_start_def)

lemma fallback_inv_step: "fallback_step retry s s' \<Longrightarrow> fallback_inv retry s \<Longrightarrow> fallback_inv retry s'"
proof (induction rule: fallback_step.induct)
  case (FbTimePasses s t)
  then show ?case unfolding fallback_inv_def by (auto intro: order_trans)
qed (auto simp: fallback_inv_def)

lemma fallback_reachable_inv: "fallback_reachable retry s \<Longrightarrow> fallback_inv retry s"
  unfolding fallback_reachable_def
  by (induction rule: rtranclp_induct) (auto intro: fallback_inv_start fallback_inv_step)

subsection \<open>One flow of the code is a run of the steps\<close>

fun settled_as :: "'g transport_error + 'flow \<times> flow_transport \<Rightarrow> tr_pc \<Rightarrow> bool" where
  "settled_as (Inr (_, tr)) pc \<longleftrightarrow> pc = TrOpen tr"
| "settled_as (Inl (QuicFailed (Rejected _))) pc \<longleftrightarrow> pc = TrRefused"
| "settled_as (Inl (BothUnavailable _)) pc \<longleftrightarrow> pc = TrFailed"
| "settled_as _ pc \<longleftrightarrow> False"

text \<open>What a run for flow \<open>f\<close> does to the shared value, up to the instant \<open>now\<close>.\<close>

definition runs_to ::
    "nat \<Rightarrow> nat \<Rightarrow> shared_fallback \<Rightarrow> nat option \<Rightarrow> nat \<Rightarrow> (tr_pc \<Rightarrow> bool) \<Rightarrow> bool" where
  "runs_to retry f st fb now P \<longleftrightarrow> (\<exists>st'. (fallback_step retry)\<^sup>*\<^sup>* st st' \<and> sf_until st' = fb \<and>
     sf_clock st' \<le> now \<and> P (sf_pc st' f) \<and> (\<forall>g. g \<noteq> f \<longrightarrow> sf_pc st' g = sf_pc st g))"

lemma runs_to_done: "sf_until st = fb \<Longrightarrow> sf_clock st \<le> now \<Longrightarrow> P (sf_pc st f) \<Longrightarrow> runs_to retry f st fb now P"
  unfolding runs_to_def by blast

lemma runs_to_step:
  assumes "fallback_step retry st st1" and "\<And>g. g \<noteq> f \<Longrightarrow> sf_pc st1 g = sf_pc st g"
    and "runs_to retry f st1 fb now P"
  shows "runs_to retry f st fb now P"
  using assms unfolding runs_to_def by (metis converse_rtranclp_into_rtranclp)

lemma runs_to_at:
  assumes "runs_to retry f (st\<lparr>sf_clock := t\<rparr>) fb now P" and "sf_clock st \<le> t"
  shows "runs_to retry f st fb now P"
  by (rule runs_to_step [OF FbTimePasses [OF assms(2)] _ assms(1)]) simp

lemma fallback_simulated:
  assumes run: "(open_with_fallback quic grpc (\<lambda>s. (clk s, s)) retry c target (sf_until st) s
      :: ('e, _) outcome \<times> 's) = (Done (res, fb'), s')"
    and clock: "\<And>s. clk s \<le> clk (snd (quic c target s))" "\<And>s. clk s \<le> clk (snd (grpc c target s))"
    and st: "sf_pc st f = TrQuic" "sf_clock st \<le> clk s"
  shows "runs_to retry f st fb' (clk s') (settled_as res)"
proof -
  obtain r s1 where quic: "quic c target s = (r, s1)" by (cases "quic c target s")
  obtain rg s2 where grpc: "grpc c target s1 = (rg, s2)" by (cases "grpc c target s1")
  from clock(1) [of s] quic st(2) have s1: "sf_clock st \<le> clk s1" by simp
  from clock(2) [of s1] grpc have s2: "clk s1 \<le> clk s2" by simp
  have unfolded: "open_with_fallback quic grpc (\<lambda>s. (clk s, s)) retry c target (sf_until st) s
      = (case r of
          Done flow \<Rightarrow> (Done (Inr (flow, Quic), None), s1)
        | Failed (Rejected err) \<Rightarrow> (Done (Inl (QuicFailed (Rejected err)), sf_until st), s1)
        | Failed (Unavailable _) \<Rightarrow> (case rg of
            Done flow \<Rightarrow> (Done (Inr (flow, Grpc), Some (clk s1 + retry)), s2)
          | Failed err \<Rightarrow> (Done (Inl (BothUnavailable err), Some (clk s1 + retry)), s2)
          | Pending \<Rightarrow> (Pending, s2) | Panicked \<Rightarrow> (Panicked, s2))
        | Pending \<Rightarrow> (Pending, s1) | Panicked \<Rightarrow> (Panicked :: ('e, _) outcome, s1))"
    by (simp add: open_with_fallback_def and_then_def attempt_def ret_def quic grpc read_clock_def
        split: outcome.split quic_open_error.split)
  let ?down = "go f (TrQuicDown (clk s1)) (st\<lparr>sf_clock := clk s1, sf_downs := insert (clk s1) (sf_downs st)\<rparr>)"
  let ?last = "go f TrGrpcLast (?down\<lparr>sf_until := Some (clk s1 + retry)\<rparr>)"
  have last: "runs_to retry f st fb' (clk s') P"
    if end_run: "runs_to retry f ?last fb' (clk s') P" for P
  proof (rule runs_to_at [OF runs_to_step [OF _ _ runs_to_step [OF _ _ end_run]] s1])
    show "fallback_step retry (st\<lparr>sf_clock := clk s1\<rparr>) ?down"
      using FbQuicDown [of "st\<lparr>sf_clock := clk s1\<rparr>" f retry] st(1) by simp
    show "fallback_step retry ?down ?last"
      by (rule FbSuppresses) simp
  qed simp_all
  show ?thesis
  proof (cases r)
    case (Done flow)
    with run unfolded have res: "res = Inr (flow, Quic)" "fb' = None" "s' = s1" by simp_all
    let ?ok = "go f TrQuicOk st"
    show ?thesis
    proof (rule runs_to_step [OF FbQuicOpens [OF st(1)] _ runs_to_step [OF FbQuicWorks _ runs_to_done]])
      show "sf_pc (go f TrQuicOk st) f = TrQuicOk" by simp
    qed (simp_all add: res s1)
  next
    case (Failed err)
    show ?thesis
    proof (cases err)
      case (Rejected msg)
      with run unfolded Failed have res: "res = Inl (QuicFailed (Rejected msg))" "fb' = sf_until st" "s' = s1"
        by simp_all
      show ?thesis
        by (rule runs_to_step [OF FbQuicRejects [OF st(1)] _ runs_to_done]) (simp_all add: res s1)
    next
      case (Unavailable e)
      show ?thesis
      proof (cases rg)
        case (Done flow)
        with run unfolded Failed Unavailable
        have res: "res = Inr (flow, Grpc)" "fb' = Some (clk s1 + retry)" "s' = s2" by simp_all
        show ?thesis
          by (rule last, rule runs_to_step [OF FbLastOpens _ runs_to_done, of _ f]) (simp_all add: res s2)
      next
        case (Failed g)
        with run unfolded \<open>r = Failed err\<close> Unavailable
        have res: "res = Inl (BothUnavailable g)" "fb' = Some (clk s1 + retry)" "s' = s2" by simp_all
        show ?thesis
          by (rule last, rule runs_to_step [OF FbLastFails _ runs_to_done, of _ f]) (simp_all add: res s2)
      qed (use run unfolded Failed Unavailable in simp_all)
    qed
  qed (use run unfolded in simp_all)
qed

lemma transport_open_simulated:
  assumes run: "(transport_open (Some quic) (Some grpc) (\<lambda>s. (clk s, s)) retry c target (sf_until st) s
      :: ('e, _) outcome \<times> 's) = (Done (res, fb'), s')"
    and clock: "\<And>s. clk s \<le> clk (snd (quic c target s))" "\<And>s. clk s \<le> clk (snd (grpc c target s))"
    and st: "sf_pc st f = TrIdle" "sf_clock st \<le> clk s"
  shows "runs_to retry f st fb' (clk s') (settled_as res)"
proof -
  let ?st = "st\<lparr>sf_clock := clk s\<rparr>"
  note simulated = fallback_simulated [where quic = quic and grpc = grpc and c = c and target = target
      and clk = clk and f = f and fb' = fb' and s' = s' and res = res and retry = retry, OF _ clock]
  show ?thesis
  proof (cases "quic_suppressed ?st")
    case False
    then have "is_suppressed (\<lambda>s. (clk s, s)) (sf_until st) s = (Done False :: ('e, _) outcome, s)"
      by (auto simp: quic_suppressed_def is_suppressed_def read_clock_def and_then_def ret_def
          split: option.splits)
    with run have "(open_with_fallback quic grpc (\<lambda>s. (clk s, s)) retry c target (sf_until st) s
        :: ('e, _) outcome \<times> 's) = (Done (res, fb'), s')"
      by (simp add: transport_open_def and_then_def)
    then have "runs_to retry f (go f TrQuic ?st) fb' (clk s') (settled_as res)"
      using simulated [where st = "go f TrQuic ?st" and s = s] by simp
    from runs_to_at [OF runs_to_step [OF FbFree [OF _ False] _ this] st(2)] st(1) show ?thesis by simp
  next
    case True
    then have suppressed: "is_suppressed (\<lambda>s. (clk s, s)) (sf_until st) s = (Done True :: ('e, _) outcome, s)"
      by (auto simp: quic_suppressed_def is_suppressed_def read_clock_def and_then_def ret_def
          split: option.splits)
    obtain rg s1 where grpc: "grpc c target s = (rg, s1)" by (cases "grpc c target s")
    with clock(2) [of s] have s1: "clk s \<le> clk s1" by simp
    have first: "runs_to retry f st fb' (clk s') (settled_as res)"
      if "runs_to retry f (go f TrGrpcFirst ?st) fb' (clk s') (settled_as res)"
      using runs_to_at [OF runs_to_step [OF FbSuppressed [OF _ True] _ that] st(2)] st(1) by simp
    show ?thesis
    proof (cases rg)
      case (Done flow)
      with run suppressed grpc have res: "res = Inr (flow, Grpc)" "fb' = sf_until st" "s' = s1"
        by (simp_all add: transport_open_def and_then_def attempt_def ret_def)
      show ?thesis
        by (rule first, rule runs_to_step [OF FbGrpcOpens _ runs_to_done, of _ f]) (simp_all add: res s1)
    next
      case (Failed err)
      let ?clear = "go f TrClear (go f TrGrpcFirst ?st)"
      let ?quic = "go f TrQuic (?clear\<lparr>sf_until := None\<rparr>)"
      from Failed run suppressed grpc
      have "(open_with_fallback quic grpc (\<lambda>s. (clk s, s)) retry c target (sf_until ?quic) s1
          :: ('e, _) outcome \<times> 's) = (Done (res, fb'), s')"
        by (simp add: transport_open_def and_then_def attempt_def ret_def)
      then have "runs_to retry f ?quic fb' (clk s') (settled_as res)"
        by (rule simulated) (simp_all add: s1)
      then have "runs_to retry f ?clear fb' (clk s') (settled_as res)"
        by (rule runs_to_step [OF FbClears, rotated 2]) simp_all
      then have "runs_to retry f (go f TrGrpcFirst ?st) fb' (clk s') (settled_as res)"
        by (rule runs_to_step [OF FbGrpcFails, rotated 2]) simp_all
      then show ?thesis by (rule first)
    qed (use run suppressed grpc in \<open>simp_all add: transport_open_def and_then_def attempt_def ret_def\<close>)
  qed
qed

subsection \<open>Properties\<close>

text \<open>A flow leaves QUIC alone only within a retry interval of an attempt that found it unavailable.\<close>

lemma suppression_justified:
  assumes "fallback_reachable retry s" and "quic_suppressed s"
  shows "\<exists>t \<in> sf_downs s. t \<le> sf_clock s \<and> sf_clock s < t + retry"
  using fallback_reachable_inv [OF assms(1)] assms(2)
  by (auto simp: fallback_inv_def quic_suppressed_def split: option.splits)


text \<open>QUIC down and gRPC up, on a clock that both advance.\<close>

definition slow_down_quic :: "(nat, quic_open_error, unit) opener" where
  "slow_down_quic c target s = (Failed (Unavailable QuicTimedOut), s + 10)"

definition slow_up_grpc :: "(nat, grpc_error, unit) opener" where
  "slow_up_grpc c target s = (Done (), s + 1)"

lemma slow_example:
  "(transport_open (Some slow_down_quic) (Some slow_up_grpc) (\<lambda>s. (id s, s)) 5 ConnectTcp
      (Ip (SA4 0 0)) (sf_until fallback_start) 0 :: (unit, _) outcome \<times> _)
    = (Done (Inr ((), Grpc), Some 15), 11)"
  by (simp add: transport_open_def open_with_fallback_def is_suppressed_def read_clock_def
      slow_down_quic_def slow_up_grpc_def and_then_def attempt_def ret_def fallback_start_def)


end
