(* ===== verification/Server_Handler.thy ===== *)
theory Server_Handler
  imports Triples Server_Config
begin

text \<open>
  \<open>crates/proxy-server/src/server.rs\<close>: the proxy server's side of a session. \<open>srv_handle_stream\<close> is
  one QUIC stream, \<open>srv_handle_request\<close> what both transports run once a request was read. The relays
  are races whose steps are the subject of the theories Tcp_Relay and Udp_Relay; the session sees
  their results.
\<close>

definition SRV_REQUEST_TIMEOUT :: nat where
  "SRV_REQUEST_TIMEOUT = 10 * 1000"

definition srv_reject :: "os \<Rightarrow> status \<Rightarrow> bytes \<Rightarrow> (io_error, unit) io" where
  "srv_reject os st message =
     and_then (response_write_to (peer_tx os) (response_err st message)) (\<lambda>_.
     shutdown (peer_tx os))"

definition srv_resolve :: "os \<Rightarrow> address \<Rightarrow> (io_error, socket_addr list) io" where
  "srv_resolve os target = (case target of
      Ip sa \<Rightarrow> ret [sa]
    | Domain host p \<Rightarrow> sys (LookupHost host p) (\<lambda>h. os_lookup os h host p))"

definition srv_dial_tcp :: "os \<Rightarrow> 'net server_config \<Rightarrow> socket_addr \<Rightarrow> (io_error, unit) io" where
  "srv_dial_tcp os cfg addr =
     and_then (if sa_is_ipv4 addr then do_call os NewSocketV4 else do_call os NewSocketV6) (\<lambda>_.
     and_then (case srv_bind_ip cfg of
         Some b \<Rightarrow> if ip_is_ipv4 b = sa_is_ipv4 addr
           then do_call os (BindSocket (socket_addr_new b 0)) else ret ()
       | None \<Rightarrow> ret ()) (\<lambda>_.
     do_call os (ConnectSocket addr)))"

fun srv_dial_loop ::
    "os \<Rightarrow> 'net server_config \<Rightarrow> socket_addr list \<Rightarrow> bytes option \<Rightarrow>
     (io_error, bool \<times> bytes option) io" where
  "srv_dial_loop os cfg [] last_error = ret (False, last_error)"
| "srv_dial_loop os cfg (addr # addrs) last_error =
     and_then (with_timeout (unat (srv_connect_timeout_ms cfg)) (srv_dial_tcp os cfg addr)) (\<lambda>r.
       case r of
         Some (Inr _) \<Rightarrow> ret (True, last_error)
       | Some (Inl err) \<Rightarrow> srv_dial_loop os cfg addrs (Some (err_text err))
       | None \<Rightarrow> srv_dial_loop os cfg addrs
           (Some (lit ''connect to '' @ show_socket_addr addr @ lit '' timed out'')))"

definition srv_serve_tcp ::
    "os \<Rightarrow> 'net server_config \<Rightarrow> socket_addr list \<Rightarrow> (io_error, unit) io" where
  "srv_serve_tcp os cfg candidates =
     and_then (srv_dial_loop os cfg candidates None) (\<lambda>(upstream, last_error).
       if \<not> upstream then
         srv_reject os Unreachable
           (case last_error of Some msg \<Rightarrow> msg | None \<Rightarrow> lit ''connect failed'')
       else
         and_then (response_write_to (peer_tx os) response_ok) (\<lambda>_.
         do_call os (RaceTcpPumps (unat (srv_tcp_idle_timeout_secs cfg) * 1000))))"

definition srv_udp_bind_addr :: "'net server_config \<Rightarrow> socket_addr \<Rightarrow> socket_addr" where
  "srv_udp_bind_addr cfg destination =
     (let unspecified = (if sa_is_ipv4 destination then SA4 0 0 else SA6 0 0 0 0) in
      case srv_bind_ip cfg of
        Some b \<Rightarrow>
          if ip_is_ipv4 b = sa_is_ipv4 destination then socket_addr_new b 0 else unspecified
      | None \<Rightarrow> unspecified)"

definition srv_serve_udp :: "os \<Rightarrow> 'net server_config \<Rightarrow> socket_addr \<Rightarrow> (io_error, unit) io" where
  "srv_serve_udp os cfg destination =
     and_then (attempt (do_call os (UdpBind (srv_udp_bind_addr cfg destination)))) (\<lambda>bound.
       case bound of
         Inl err \<Rightarrow> srv_reject os ServerError (lit ''bind failed: '' @ err_text err)
       | Inr _ \<Rightarrow>
           and_then (attempt (do_call os (UdpConnect destination))) (\<lambda>connected.
             case connected of
               Inl err \<Rightarrow> srv_reject os Unreachable (lit ''connect failed: '' @ err_text err)
             | Inr _ \<Rightarrow>
                 and_then (response_write_to (peer_tx os) response_ok) (\<lambda>_.
                 do_call os (RaceUdpPumps (unat (srv_udp_timeout_secs cfg) * 1000)))))"

definition srv_handle_request ::
    "'net ipnet \<Rightarrow> os \<Rightarrow> 'net server_config \<Rightarrow> request \<Rightarrow> (io_error, unit) io" where
  "srv_handle_request N os cfg req =
     (if \<not> srv_token_matches (srv_token cfg) (req_token req) then
        and_then (response_write_to (peer_tx os) (response_err AuthFailed (lit ''invalid token'')))
          (\<lambda>_. shutdown (peer_tx os))
      else
        and_then (with_timeout (unat (srv_dns_timeout_ms cfg)) (srv_resolve os (req_target req)))
          (\<lambda>resolved. case resolved of
            Some (Inr candidates) \<Rightarrow>
              if candidates = [] then srv_reject os Unreachable (lit ''name resolved to nothing'')
              else
                (case filter (\<lambda>sa. srv_permits N cfg (ip sa)) candidates of
                   [] \<Rightarrow> srv_reject os Forbidden (lit ''destination not allowed'')
                 | first # rest \<Rightarrow>
                     (case req_cmd req of
                        ConnectTcp \<Rightarrow> srv_serve_tcp os cfg (first # rest)
                      | BindUdp \<Rightarrow> srv_serve_udp os cfg first))
          | Some (Inl err) \<Rightarrow> srv_reject os Unreachable (lit ''resolve failed: '' @ err_text err)
          | None \<Rightarrow> srv_reject os Unreachable (lit ''resolve timed out'')))"

definition srv_handle_stream :: "'net ipnet \<Rightarrow> os \<Rightarrow> 'net server_config \<Rightarrow> (io_error, unit) io" where
  "srv_handle_stream N os cfg =
     and_then (with_timeout SRV_REQUEST_TIMEOUT (request_read_from (peer_rx os))) (\<lambda>r.
       case r of
         None \<Rightarrow> raise (IoError TimedOut (lit ''request timed out''))
       | Some (Inl err) \<Rightarrow> raise err
       | Some (Inr req) \<Rightarrow> srv_handle_request N os cfg req)"

text \<open>
  The two loops in front of a stream. \<open>srv_serve_connection\<close> spawns a task per stream until
  \<open>accept_bi\<close> fails, which ends the connection with that error; \<open>srv_run\<close> spawns a task per
  connection attempt, which serves the connection if the handshake succeeds, until the endpoint
  is closed (the end of the list).
\<close>

fun srv_serve_connection :: "('e + 'stream) list \<Rightarrow> 'stream list \<times> 'e option" where
  "srv_serve_connection [] = ([], None)"
| "srv_serve_connection (Inr stream # rest) =
     (let (streams, result) = srv_serve_connection rest in (stream # streams, result))"
| "srv_serve_connection (Inl err # rest) = ([], Some err)"

fun srv_run :: "('e + ('e + 'stream) list) list \<Rightarrow> ('stream list \<times> 'e option) list" where
  "srv_run [] = []"
| "srv_run (Inr connection # rest) = srv_serve_connection connection # srv_run rest"
| "srv_run (Inl err # rest) = srv_run rest"

subsection \<open>The candidates\<close>

lemma issues_srv_dial_tcp: "issues (dial_calls addr) (srv_dial_tcp os cfg addr) (\<lambda>_. True)"
  unfolding srv_dial_tcp_def
  by (intro issues_intros) (auto simp: dial_calls_def)

lemma triple_srv_dial_tcp:
  assumes "p addr"
  shows "triple (\<lambda>_. True) (ok_after_dial os p) (srv_dial_tcp os cfg addr) (\<lambda>_. dialled os p)"
  unfolding srv_dial_tcp_def
  by (intro triple_and_then [where R = "\<lambda>_ _. True"] triple_skip triple_dial issues_intros)
    (auto simp: assms)

interpretation srv_dialling: dial_candidates srv_dial_tcp
    "\<lambda>cfg. unat (srv_connect_timeout_ms cfg)" srv_dial_loop
  by unfold_locales (simp_all add: issues_srv_dial_tcp triple_srv_dial_tcp)

subsection \<open>The session fulfils the gateway contract\<close>

lemma issues_srv_reject [issues_intros]:
  "P (WriteAll (response_bytes (response_err s m))) \<Longrightarrow> P Flush \<Longrightarrow> P Shutdown \<Longrightarrow>
    issues P (srv_reject os s m) (\<lambda>_. True)"
  unfolding srv_reject_def peer_tx_sel by (intro issues_intros issues_response_write) auto

lemma triple_err_shutdown:
  assumes "s \<noteq> Ok"
  shows "triple I (ok_after_dial os p)
    (and_then (response_write_to (peer_tx os) (response_err s m)) (\<lambda>_. shutdown (peer_tx os)))
    (\<lambda>_ _. True)"
  unfolding peer_tx_sel
  by (intro triple_and_then [OF triple_error_response [OF assms]] triple_skip issues_intros) auto

lemma triple_srv_reject:
  "s \<noteq> Ok \<Longrightarrow> triple I (ok_after_dial os p) (srv_reject os s m) (\<lambda>_ _. True)"
  unfolding srv_reject_def by (rule triple_err_shutdown)

lemma issues_srv_resolve [issues_intros]:
  "(\<And>host p. P (LookupHost host p)) \<Longrightarrow> issues P (srv_resolve os target) (\<lambda>_. True)"
  unfolding srv_resolve_def by (cases target) (auto intro!: issues_intros)

lemma issues_srv_serve_tcp:
  assumes "\<forall>sa \<in> set candidates. p sa"
  shows "issues (dials_only p) (srv_serve_tcp os cfg candidates) (\<lambda>_. True)"
  unfolding srv_serve_tcp_def
  by (rule issues_bind [OF srv_dialling.loop_dials [OF assms]])
    (auto intro!: issues_intros issues_response_write split: prod.splits)

lemma issues_srv_serve_udp:
  "p addr \<Longrightarrow> issues (dials_only p) (srv_serve_udp os cfg addr) (\<lambda>_. True)"
  unfolding srv_serve_udp_def
  by (intro issues_intros issues_response_write) auto

lemma issues_srv_resolve_names:
  "(\<And>host p. P (LookupHost host p)) \<Longrightarrow>
    issues P (srv_resolve os target) (\<lambda>answer. \<forall>a \<in> set answer. names os target a)"
  unfolding srv_resolve_def by (cases target) (auto intro!: issues_ret issues_sys simp: names_def)

lemma issues_srv_handle_request:
  "issues (dials_only (may_dial os (srv_permits N cfg) (req_target req)))
    (srv_handle_request N os cfg req) (\<lambda>_. True)"
proof -
  let ?p = "may_dial os (srv_permits N cfg) (req_target req)"
  have chosen: "issues (dials_only ?p)
      (case filter (\<lambda>sa. srv_permits N cfg (ip sa)) candidates of
         [] \<Rightarrow> srv_reject os Forbidden (lit ''destination not allowed'')
       | first # rest \<Rightarrow>
           (case req_cmd req of
              ConnectTcp \<Rightarrow> srv_serve_tcp os cfg (first # rest)
            | BindUdp \<Rightarrow> srv_serve_udp os cfg first)) (\<lambda>_. True)"
    if "\<forall>a \<in> set candidates. names os (req_target req) a" for candidates
  proof (cases "filter (\<lambda>sa. srv_permits N cfg (ip sa)) candidates")
    case Nil
    then show ?thesis by (auto intro!: issues_intros)
  next
    case (Cons first rest)
    from filter_eqD [OF Cons] that have "\<forall>sa \<in> set (first # rest). ?p sa"
      by (simp add: may_dial_def)
    with Cons show ?thesis
      by (auto intro!: issues_srv_serve_tcp issues_srv_serve_udp split: cmd.splits)
  qed
  have "issues (dials_only ?p)
      (with_timeout (unat (srv_dns_timeout_ms cfg)) (srv_resolve os (req_target req)))
      (\<lambda>r. \<forall>answer. r = Some (Inr answer) \<longrightarrow> (\<forall>a \<in> set answer. names os (req_target req) a))"
    by (rule issues_with_timeout [OF _ issues_srv_resolve_names]) auto
  note resolved = issues_and_then [OF this]
  show ?thesis
    unfolding srv_handle_request_def
    by (auto intro!: resolved issues_srv_reject issues_response_write chosen
        issues_bind issues_do_call split: sum.splits option.splits)
qed

lemma triple_srv_serve_tcp:
  assumes "\<forall>sa \<in> set candidates. p sa"
  shows "triple (\<lambda>_. True) (ok_after_dial os p) (srv_serve_tcp os cfg candidates) (\<lambda>_ _. True)"
  unfolding srv_serve_tcp_def
proof (rule triple_and_then [OF srv_dialling.loop_connected [OF assms]], clarify)
  fix upstream last_error
  have connected: "triple (dialled os p) (ok_after_dial os p)
      (and_then (response_write_to (peer_tx os) response_ok) (\<lambda>_.
       do_call os (RaceTcpPumps (unat (srv_tcp_idle_timeout_secs cfg) * 1000)))) (\<lambda>_ _. True)"
    by (intro triple_and_then [OF triple_ok_response] triple_skip issues_intros) auto
  show "triple (\<lambda>h. upstream \<longrightarrow> dialled os p h) (ok_after_dial os p)
      (if \<not> upstream then
         srv_reject os Unreachable
           (case last_error of None \<Rightarrow> lit ''connect failed'' | Some msg \<Rightarrow> msg)
       else
         and_then (response_write_to (peer_tx os) response_ok) (\<lambda>_.
         do_call os (RaceTcpPumps (unat (srv_tcp_idle_timeout_secs cfg) * 1000)))) (\<lambda>_ _. True)"
    using connected triple_srv_reject by (cases upstream) simp_all
qed

lemma triple_srv_serve_udp:
  assumes "p addr"
  shows "triple (\<lambda>_. True) (ok_after_dial os p) (srv_serve_udp os cfg addr) (\<lambda>_ _. True)"
proof -
  let ?relay = "and_then (response_write_to (peer_tx os) response_ok) (\<lambda>_.
       do_call os (RaceUdpPumps (unat (srv_udp_timeout_secs cfg) * 1000)))"
  have connected: "triple (dialled os p) (ok_after_dial os p) ?relay (\<lambda>_ _. True)"
    by (intro triple_and_then [OF triple_ok_response] triple_skip issues_intros) auto
  have dial: "triple (\<lambda>_. True) (ok_after_dial os p) (attempt (do_call os (UdpConnect addr)))
      (\<lambda>r h. (\<exists>u. r = Inr u) \<longrightarrow> dialled os p h)"
    by (rule triple_attempt [OF triple_dial [where p = p]]) (use assms in auto)
  have dialled_case: "triple (\<lambda>h. (\<exists>u. r = Inr u) \<longrightarrow> dialled os p h) (ok_after_dial os p)
      (case r of
         Inl err \<Rightarrow> srv_reject os Unreachable (lit ''connect failed: '' @ err_text err)
       | Inr _ \<Rightarrow> ?relay) (\<lambda>_ _. True)" for r
    using connected triple_srv_reject by (cases r) simp_all
  have bound_case: "triple (\<lambda>_. True) (ok_after_dial os p)
      (case r of
         Inl err \<Rightarrow> srv_reject os ServerError (lit ''bind failed: '' @ err_text err)
       | Inr _ \<Rightarrow> and_then (attempt (do_call os (UdpConnect addr))) (\<lambda>connected.
           case connected of
             Inl err \<Rightarrow> srv_reject os Unreachable (lit ''connect failed: '' @ err_text err)
           | Inr _ \<Rightarrow> ?relay)) (\<lambda>_ _. True)" for r
    using triple_and_then [OF dial dialled_case] triple_srv_reject by (cases r) simp_all
  show ?thesis
    unfolding srv_serve_udp_def
    by (rule triple_and_then [OF triple_skip bound_case], intro issues_intros) auto
qed

lemma triple_srv_handle_request:
  "triple (\<lambda>_. True) (ok_after_dial os (may_dial os (srv_permits N cfg) (req_target req)))
    (srv_handle_request N os cfg req) (\<lambda>_ _. True)"
proof -
  let ?p = "may_dial os (srv_permits N cfg) (req_target req)"
  let ?names = "\<lambda>answer. \<forall>a \<in> set answer. names os (req_target req) a"
  let ?serve = "\<lambda>candidates.
      (case filter (\<lambda>sa. srv_permits N cfg (ip sa)) candidates of
         [] \<Rightarrow> srv_reject os Forbidden (lit ''destination not allowed'')
       | first # rest \<Rightarrow>
           (case req_cmd req of
              ConnectTcp \<Rightarrow> srv_serve_tcp os cfg (first # rest)
            | BindUdp \<Rightarrow> srv_serve_udp os cfg first))"
  have allowed: "triple (\<lambda>_. True) (ok_after_dial os ?p) (?serve candidates) (\<lambda>_ _. True)"
    if "?names candidates" for candidates
  proof (cases "filter (\<lambda>sa. srv_permits N cfg (ip sa)) candidates")
    case Nil
    then show ?thesis by (simp add: triple_srv_reject)
  next
    case (Cons first rest)
    from filter_eqD [OF Cons] that have "\<forall>sa \<in> set (first # rest). ?p sa"
      by (simp add: may_dial_def)
    with Cons show ?thesis
      by (auto intro!: triple_srv_serve_tcp triple_srv_serve_udp split: cmd.splits)
  qed
  have resolved: "triple (\<lambda>_. \<forall>answer. r = Some (Inr answer) \<longrightarrow> ?names answer) (ok_after_dial os ?p)
      (case r of
         Some (Inr candidates) \<Rightarrow>
           if candidates = [] then srv_reject os Unreachable (lit ''name resolved to nothing'')
           else ?serve candidates
       | Some (Inl err) \<Rightarrow> srv_reject os Unreachable (lit ''resolve failed: '' @ err_text err)
       | None \<Rightarrow> srv_reject os Unreachable (lit ''resolve timed out'')) (\<lambda>_ _. True)" for r
    by (rule triple_pure) (auto simp: allowed triple_srv_reject split: option.splits sum.splits)
  have lookup: "triple (\<lambda>_. True) (ok_after_dial os ?p)
      (with_timeout (unat (srv_dns_timeout_ms cfg)) (srv_resolve os (req_target req)))
      (\<lambda>r _. \<forall>answer. r = Some (Inr answer) \<longrightarrow> ?names answer)"
    by (rule triple_of_issues [OF issues_with_timeout [OF _ issues_srv_resolve_names [of no_write]]])
      (auto intro: ok_after_dial_no_write)
  show ?thesis
    unfolding srv_handle_request_def
    using triple_and_then [OF lookup resolved] triple_err_shutdown by simp
qed

lemma issues_srv_unauthorised:
  "\<not> srv_token_matches (srv_token cfg) (req_token req) \<Longrightarrow>
    issues peer_call (srv_handle_request N os cfg req) (\<lambda>_. True)"
  unfolding srv_handle_request_def peer_tx_sel
  by simp (intro issues_intros issues_response_write, auto)

interpretation srv_gateway: gateway "\<lambda>cfg. srv_token_matches (srv_token cfg)" "srv_permits N"
    "\<lambda>os. srv_handle_request N os" for N
  by unfold_locales
    (simp_all add: issues_srv_unauthorised issues_srv_handle_request triple_srv_handle_request)

subsection \<open>The answer of the server\<close>

lemma srv_reject_sends:
  assumes "static_world os net dns"
  shows "sends os (srv_reject os s m) (response_bytes (response_err s m))"
  unfolding srv_reject_def peer_tx_sel
  by (rule sends_then_nothing [OF sends_response [OF static_write [OF assms]]],
      rule sends_nothing [where Q = "\<lambda>_. True"], intro issues_intros) simp

lemma srv_dial_tcp_result:
  "static_world os net dns \<Longrightarrow> fst (srv_dial_tcp os cfg a h) = tcp_result net (srv_bind_ip cfg) a"
  by (auto simp: static_world_def srv_dial_tcp_def tcp_result_def and_then_def do_call_def sys_def
      ret_def split: outcome.split option.split)

lemma srv_serve_tcp_sends:
  assumes world: "static_world os net dns" and "candidates \<noteq> []"
  shows "sends os (srv_serve_tcp os cfg candidates) (response_bytes
    (let out = tcp_result net (srv_bind_ip cfg) in
     if \<exists>a \<in> set candidates. out a = Done () then response_ok
     else response_err Unreachable (dial_text out (last candidates))))"
proof -
  let ?out = "tcp_result net (srv_bind_ip cfg)"
  note loop = srv_dialling.loop_first_reachable [of os cfg ?out candidates None,
      OF srv_dial_tcp_result [OF world] static_tcp_result [OF world]]
  have "sends os (do_call os (RaceTcpPumps idle)) []" for idle
    by (rule sends_nothing [where Q = "\<lambda>_. True"]) (intro issues_intros, simp)
  note ok = sends_then_nothing [OF sends_response [OF static_write [OF world]] this]
  show ?thesis
    unfolding srv_serve_tcp_def
    by (rule sends_after [OF srv_dialling.loop_no_write loop])
      (use ok srv_reject_sends [OF world] assms(2) in \<open>auto simp: Let_def\<close>)
qed

lemma srv_serve_udp_sends:
  assumes world: "static_world os net dns"
  shows "sends os (srv_serve_udp os cfg a) (response_bytes
    (case net (UdpBind (udp_local_addr (srv_bind_ip cfg) a)) of
       Failed err \<Rightarrow> response_err ServerError (lit ''bind failed: '' @ err_text err)
     | _ \<Rightarrow> (case net (UdpConnect a) of
         Failed err \<Rightarrow> response_err Unreachable (lit ''connect failed: '' @ err_text err)
       | _ \<Rightarrow> response_ok)))"
proof -
  have bind_addr: "srv_udp_bind_addr cfg a = udp_local_addr (srv_bind_ip cfg) a"
    by (simp add: srv_udp_bind_addr_def udp_local_addr_def Let_def split: option.split)
  have "sends os (do_call os (RaceUdpPumps idle)) []" for idle
    by (rule sends_nothing [where Q = "\<lambda>_. True"]) (intro issues_intros, simp)
  note ok = sends_then_nothing [OF sends_response [OF static_write [OF world]] this]
  show ?thesis
    unfolding srv_serve_udp_def bind_addr
    by (rule sends_after [where Q = "\<lambda>_. True", OF _ static_attempt [OF world]],
        intro issues_intros, simp_all split: outcome.split,
        intro conjI allI impI srv_reject_sends [OF world]
          sends_after [where Q = "\<lambda>_. True", OF _ static_attempt [OF world]] issues_intros)
      (auto split: outcome.split intro!: ok srv_reject_sends [OF world])
qed

lemma srv_open_sends:
  assumes "static_world os net dns"
  shows "sends os
    (case as of
       [] \<Rightarrow> srv_reject os Forbidden (lit ''destination not allowed'')
     | first # rest \<Rightarrow>
         (case c of
            ConnectTcp \<Rightarrow> srv_serve_tcp os cfg (first # rest)
          | BindUdp \<Rightarrow> srv_serve_udp os cfg first))
    (response_bytes (open_verdict (srv_bind_ip cfg) net c as))"
proof (cases as)
  case Nil
  then show ?thesis by (simp add: open_verdict_def srv_reject_sends [OF assms])
next
  case (Cons first rest)
  with srv_serve_tcp_sends [OF assms, of as cfg] srv_serve_udp_sends [OF assms, of cfg first]
  show ?thesis by (cases c) (auto simp: open_verdict_def Let_def split: if_splits)
qed

lemma srv_handle_request_sends:
  assumes world: "static_world os net dns" and answers: "resolution dns (req_target req) \<noteq> Panicked"
  shows "sends os (srv_handle_request N os cfg req) (response_bytes
    (verdict (lit ''invalid token'') (srv_token_matches (srv_token cfg)) (srv_permits N cfg)
      (srv_bind_ip cfg) net dns req))"
proof (cases "srv_token_matches (srv_token cfg) (req_token req)")
  case False
  with srv_reject_sends [OF world, of AuthFailed "lit ''invalid token''"] show ?thesis
    by (simp add: srv_handle_request_def verdict_def srv_reject_def)
next
  case True
  let ?res = "resolution dns (req_target req)"
  let ?resolve = "with_timeout (unat (srv_dns_timeout_ms cfg)) (srv_resolve os (req_target req))"
  have resolve: "fst (?resolve h) =
      Done (case ?res of Failed err \<Rightarrow> Some (Inl err) | Done answer \<Rightarrow> Some (Inr answer)
        | _ \<Rightarrow> None)" for h
    using world answers
    by (auto simp: static_world_def srv_resolve_def resolution_def with_timeout_def timeout_def
        and_then_def ret_def sys_def split: address.splits outcome.splits)
  have quiet: "issues no_write ?resolve (\<lambda>_. True)"
    by (intro issues_intros) auto
  show ?thesis
    unfolding srv_handle_request_def verdict_def
    using True answers
    by (cases ?res) (auto intro!: sends_after [OF quiet resolve] srv_reject_sends [OF world]
        srv_open_sends [OF world])
qed

subsection \<open>Properties of a session\<close>

lemma srv_handle_stream_eq:
  "srv_handle_stream N os cfg =
     handshake_then os SRV_REQUEST_TIMEOUT (IoError TimedOut (lit ''request timed out''))
       (srv_handle_request N os cfg)"
  unfolding srv_handle_stream_def handshake_then_def by (rule refl)

definition srv_example_config :: "cidr server_config" where
  "srv_example_config = \<lparr>srv_listen = SA4 0 443, srv_quic_enabled = True, srv_grpc_enabled = True,
     srv_quic_listen_opt = None, srv_grpc_listen_opt = None, srv_token = lit ''key'',
     srv_server_name = srv_default_server_name, srv_certificate = srv_default_certificate,
     srv_private_key = srv_default_private_key, srv_allow = [Cidr4 0xC0000200 24],
     srv_deny = [Cidr4 0x7F000000 8], srv_bind_ip = None,
     srv_connect_timeout_ms = srv_default_connect_timeout,
     srv_dns_timeout_ms = srv_default_dns_timeout,
     srv_tcp_idle_timeout_secs = srv_default_tcp_idle_timeout,
     srv_udp_timeout_secs = srv_default_udp_timeout,
     srv_max_concurrent_streams = srv_default_max_streams\<rparr>"

lemma srv_example_trace:
  "snd (srv_handle_stream cidr_net (example_os example_request) srv_example_config []) =
     [Timer 10000, ReadExact 4, ReadExact 1, ReadExact 1, ReadExact 1, ReadExact 3,
      ReadExact 1, ReadExact 1, ReadExact 1, ReadExact 2, Timer 5000, LookupHost (lit ''a'') 443,
      Timer 8000, NewSocketV4, ConnectSocket (SA4 0xC0000201 443),
      WriteAll (response_bytes response_ok), Flush, RaceTcpPumps 300000]"
  by code_simp

lemma srv_handle_stream_answer:
  assumes "static_world os net dns" and "good_request req"
    and "os_inbox os = stream_of (request_bytes req @ rest) e"
    and "resolution dns (req_target req) \<noteq> Panicked"
  shows "sent_to_peer os (snd (srv_handle_stream N os cfg [])) = response_bytes
    (verdict (lit ''invalid token'') (srv_token_matches (srv_token cfg)) (srv_permits N cfg)
      (srv_bind_ip cfg) net dns req)"
proof -
  from assms(2,3) have "inbox_view (os_inbox os) [] = stream_of (request_bytes req @ rest) e"
    by simp
  with assms(2) obtain cs where cs: "\<forall>c \<in> set cs. read_or_timer c"
      "srv_handle_stream N os cfg [] = srv_handle_request N os cfg req ([] @ cs)"
    unfolding srv_handle_stream_eq by (rule handshake_serves)
  obtain r h where run: "srv_handle_request N os cfg req ([] @ cs) = (r, h)"
    by (cases "srv_handle_request N os cfg req ([] @ cs)")
  have "sent_to_peer os ([] @ cs) = []"
    using sent_to_peer_other [of cs os "[]"] cs(1) read_or_timer_harmless by auto
  with sendsD [OF srv_handle_request_sends [OF assms(1,4)] run] cs(2) run show ?thesis by simp
qed

text \<open>
  C9: whatever the peer sends and whatever the network does, a stream of the proxy server that
  leads to a dial of \<open>a\<close> began with a well-formed request that carries the configured
  token and names \<open>a\<close>, and the policy permits the address of \<open>a\<close>.
\<close>

theorem srv_session_dials:
  assumes "srv_validate cfg = Inr ()"
    and "c \<in> set (snd (srv_handle_stream N os cfg []))" and "dial_target c = Some a"
  shows "\<exists>req rest. good_request req \<and> s_bytes (os_inbox os) = request_bytes req @ rest \<and>
    req_token req = srv_token cfg \<and> names os (req_target req) a \<and> srv_permits N cfg (ip a)"
proof -
  obtain r cs where run: "srv_handle_stream N os cfg [] = (r, [] @ cs)"
    by (cases "srv_handle_stream N os cfg []") auto
  with assms(2) have "c \<in> set cs" by simp
  from srv_gateway.session_dials [OF run [unfolded srv_handle_stream_eq] this assms(3)] assms(1)
  show ?thesis
    by (auto simp: may_dial_def good_request_def srv_validate_def srv_tokens.matches_exact
        split: if_splits)
qed

theorem srv_session_dials_witness:
  "\<exists>req rest. good_request req \<and>
    s_bytes (os_inbox (example_os example_request)) = request_bytes req @ rest \<and>
    req_token req = srv_token srv_example_config \<and>
    names (example_os example_request) (req_target req) (SA4 0xC0000201 443) \<and>
    srv_permits cidr_net srv_example_config (ip (SA4 0xC0000201 443))"
  by (rule srv_session_dials [where c = "ConnectSocket (SA4 0xC0000201 443)"])
    (simp_all add: srv_example_trace, code_simp)

text \<open>
  C10: where the world answers, what the proxy server sends on a stream is exactly one response,
  and it is the one that request, policy and network dictate; a resolver that stays silent is
  answered too.
\<close>

theorem srv_session_answer:
  assumes "static_world os net dns" and "good_request req"
    and "os_inbox os = stream_of (request_bytes req @ rest) e"
    and "resolution dns (req_target req) \<noteq> Panicked"
  shows "sent_to_peer os (snd (srv_handle_stream N os cfg [])) = response_bytes
    (verdict (lit ''invalid token'') (srv_token_matches (srv_token cfg)) (srv_permits N cfg)
      (srv_bind_ip cfg) net dns req)"
  using assms by (rule srv_handle_stream_answer)

theorem srv_session_answer_witness:
  "sent_to_peer (example_os example_request)
     (snd (srv_handle_stream cidr_net (example_os example_request) srv_example_config []))
   = response_bytes (verdict (lit ''invalid token'')
      (srv_token_matches (srv_token srv_example_config)) (srv_permits cidr_net srv_example_config)
      (srv_bind_ip srv_example_config) (\<lambda>c. Done ()) (\<lambda>host p. Done [SA4 0xC0000201 p])
      example_request)"
  by (rule srv_session_answer [OF example_os_static good_example_request example_os_inbox])
    (simp add: resolution_def split: address.split)

text \<open>
  In any world the proxy server writes its success response only when it has received a
  well-formed request with a matching token and a dial to an address that the request names and
  the policy permits has succeeded before.
\<close>

lemma srv_ok_after_dial:
  assumes "i < length (snd (srv_handle_stream N os cfg []))"
    and "snd (srv_handle_stream N os cfg []) ! i = WriteAll (response_bytes response_ok)"
  shows "\<exists>req rest. good_request req \<and> srv_token_matches (srv_token cfg) (req_token req) \<and>
    s_bytes (os_inbox os) = request_bytes req @ rest \<and>
    dialled os (may_dial os (srv_permits N cfg) (req_target req))
      (take i (snd (srv_handle_stream N os cfg [])))"
proof -
  obtain r cs where run: "srv_handle_stream N os cfg [] = (r, [] @ cs)"
    by (cases "srv_handle_stream N os cfg []") auto
  with srv_gateway.session_ok [OF run [unfolded srv_handle_stream_eq], of i] assms
  show ?thesis by simp
qed

lemma srv_ok_after_dial_witness:
  "\<exists>req rest. good_request req \<and>
    srv_token_matches (srv_token srv_example_config) (req_token req) \<and>
    s_bytes (os_inbox (example_os example_request)) = request_bytes req @ rest \<and>
    dialled (example_os example_request)
      (may_dial (example_os example_request) (srv_permits cidr_net srv_example_config)
        (req_target req))
      (take 15 (snd (srv_handle_stream cidr_net (example_os example_request) srv_example_config [])))"
  by (rule srv_ok_after_dial) (simp_all add: srv_example_trace)

text \<open>
  A peer whose request lacks the token causes nothing but traffic on its own stream, no name
  lookup, no socket, no dial.
\<close>

lemma srv_unauthorised_inert:
  assumes "good_request req" and "os_inbox os = stream_of (request_bytes req @ rest) e"
    and "length (srv_token cfg) \<le> 255" and "req_token req \<noteq> srv_token cfg"
    and "c \<in> set (snd (srv_handle_stream N os cfg []))"
  shows "peer_call c"
proof -
  from assms(1,3,4) have token: "\<not> srv_token_matches (srv_token cfg) (req_token req)"
    by (simp add: srv_tokens.matches_exact good_request_def)
  obtain r cs where run: "srv_handle_stream N os cfg [] = (r, [] @ cs)"
    by (cases "srv_handle_stream N os cfg []") auto
  from srv_gateway.session_unauthorised [OF assms(1) _ token run [unfolded srv_handle_stream_eq]]
    assms(2,5) run
  show ?thesis by auto
qed

lemma srv_unauthorised_inert_witness: "peer_call Shutdown"
proof (rule srv_unauthorised_inert [OF _ example_os_inbox])
  let ?req = "example_request\<lparr>req_token := []\<rparr>"
  show "good_request ?req" by code_simp
  show "length (srv_token srv_example_config) \<le> 255"
    "req_token ?req \<noteq> srv_token srv_example_config"
    by code_simp+
  show "Shutdown \<in> set (snd (srv_handle_stream cidr_net (example_os ?req) srv_example_config []))"
    by code_simp
qed

end
