(* ===== verification/Server_Grpc.thy ===== *)
theory Server_Grpc
  imports Grpc_Pump Server_Handler
begin

text \<open>
  \<open>crates/proxy-server/src/grpc.rs\<close>: the \<open>Open\<close> call of the gRPC service. The first frame carries the
  request, which is decoded from its payload alone; then the two pumps of Grpc_Pump are spawned and
  the request is served as one that came over QUIC.
\<close>

datatype grpc_status =
    DeadlineExceeded bytes
  | InvalidArgument bytes

definition GRPC_REQUEST_TIMEOUT :: nat where
  "GRPC_REQUEST_TIMEOUT = 10 * 1000"

text \<open>
  What \<open>timeout(REQUEST_TIMEOUT, inbound.message()).await\<close> gives: \<open>None\<close> when it elapsed, else a
  status (its text), the end of the stream, or a frame's payload.
\<close>

type_synonym first_message = "(bytes + bytes option) option"

text \<open>Reading past the end of a \<open>Cursor\<close> fails with \<open>UnexpectedEof\<close> and this text.\<close>

definition cursor_eof :: io_error where
  "cursor_eof = IoError UnexpectedEof (lit ''early eof'')"

definition grpc_decode :: "bytes \<Rightarrow> grpc_status + request" where
  "grpc_decode payload =
     (case fst (request_read_from (cursor_rx cursor_eof) (cursor_new payload)) of
        Done req \<Rightarrow> Inr req
      | Failed err \<Rightarrow> Inl (InvalidArgument (lit ''invalid proxy request: '' @ err_text err))
      | _ \<Rightarrow> Inl (InvalidArgument []))"

definition srv_grpc_first :: "first_message \<Rightarrow> grpc_status + request" where
  "srv_grpc_first first = (case first of
      None \<Rightarrow> Inl (DeadlineExceeded (lit ''proxy request timed out''))
    | Some (Inl err) \<Rightarrow> Inl (InvalidArgument (lit ''reading proxy request: '' @ err))
    | Some (Inr None) \<Rightarrow> Inl (InvalidArgument (lit ''missing proxy request''))
    | Some (Inr (Some payload)) \<Rightarrow> grpc_decode payload)"

text \<open>
  The handler task that an accepted call spawns; its peer is the pipe, whose inbox is what the
  inbound pump writes.
\<close>

definition srv_grpc_open ::
    "'net ipnet \<Rightarrow> os \<Rightarrow> 'net server_config \<Rightarrow> first_message \<Rightarrow>
     grpc_status + (io_error, unit) io" where
  "srv_grpc_open N os cfg first = (case srv_grpc_first first of
      Inl status \<Rightarrow> Inl status
    | Inr req \<Rightarrow> Inr (srv_handle_request N os cfg req))"

subsection \<open>Decoding the first frame\<close>

lemma cursor_decodes:
  "fst (request_read_from (cursor_rx eof) (cursor_new payload))
    = fst (request_read_from stream_rx (stream_of payload (Ends eof)))"
  using reads_asD [OF cursor.request_reads_as, of eof "cursor_new payload"]
  by (metis cursor_new_def cursor_view_def cursor.select_convs drop0 fst_conv)

lemma grpc_decode_request:
  "good_request req \<Longrightarrow> grpc_decode (request_bytes req @ extra) = Inr req"
  by (simp add: grpc_decode_def cursor_decodes request_dec_enc)

text \<open>
  A frame is accepted exactly if it begins with the encoding of a request. In particular a request
  cut into two frames is refused, and bytes behind the request in its frame are dropped.
\<close>

lemma stream_rx_not_stalled:
  "s_end s = Ends e \<Longrightarrow> fst (stream_rx n s) \<noteq> Pending \<and> fst (stream_rx n s) \<noteq> Panicked"
  by (simp add: stream_rx_def)

lemma grpc_decode_iff:
  "grpc_decode payload = Inr req \<longleftrightarrow> good_request req \<and> (\<exists>extra. payload = request_bytes req @ extra)"
proof
  assume "grpc_decode payload = Inr req"
  then have "fst (request_read_from stream_rx (stream_of payload (Ends cursor_eof))) = Done req"
    by (auto simp: grpc_decode_def cursor_decodes split: outcome.splits)
  then obtain s' where
      "request_read_from stream_rx (stream_of payload (Ends cursor_eof)) = (Done req, s')"
    by (metis prod.collapse)
  then show "good_request req \<and> (\<exists>extra. payload = request_bytes req @ extra)"
    by (auto simp: request_codec.dec_iff)
next
  assume "good_request req \<and> (\<exists>extra. payload = request_bytes req @ extra)"
  then show "grpc_decode payload = Inr req" by (auto simp: grpc_decode_request)
qed

lemma grpc_split_request_refused:
  assumes "good_request req" and "k < length (request_bytes req)"
  shows "\<exists>status. grpc_decode (take k (request_bytes req)) = Inl status"
proof (cases "grpc_decode (take k (request_bytes req))")
  case (Inr r)
  then have "fst (request_read_from stream_rx (stream_of (take k (request_bytes req)) (Ends cursor_eof)))
      = Done r"
    by (auto simp: grpc_decode_def cursor_decodes split: outcome.splits)
  with request_codec.truncated_not_Done [OF assms] show ?thesis by (metis prod.collapse)
qed simp

subsection \<open>Properties\<close>

text \<open>
  The server accepts a first frame exactly if it begins with the encoding of a well-formed
  request: a request cut into two frames is refused, and what follows a request in its frame is
  dropped, it never reaches the flow.
\<close>

lemma grpc_first_frame:
  "srv_grpc_first (Some (Inr (Some payload))) = Inr req \<longleftrightarrow>
    good_request req \<and> (\<exists>extra. payload = request_bytes req @ extra)"
  by (simp add: srv_grpc_first_def grpc_decode_iff)

end
