(* ===== verification/Udp_Relay.thy ===== *)
theory Udp_Relay
  imports World
begin

text \<open>
  The relays of datagrams as step relations. \<open>gw_step\<close> is the far end of a flow, which both the agent
  (\<open>relay_udp\<close>, \<open>udp_uplink\<close>, \<open>udp_downlink\<close> of \<open>crates/vm/src/server.rs\<close>) and the proxy server
  (\<open>relay_udp\<close> of \<open>crates/proxy-server/src/server.rs\<close>) run: frames from the tunnel become datagrams
  on a socket and back, until nothing moved for a while. \<open>local_step\<close> is the near end, which the host
  (\<open>crates/host/src/tunnel.rs\<close>) and the proxy client (\<open>crates/proxy-client/src/relay.rs\<close>) run.

  Each step is what one pump does between two of its \<open>await\<close>s; the pumps of a \<open>select!\<close> run in one
  task, so their steps interleave and do not overlap. Time is in milliseconds; \<open>Tick\<close> lets it pass.
\<close>

subsection \<open>The far end\<close>

datatype up_pc =
    UpReading                  \<comment> \<open>in \<open>read_datagram(..)\<close>\<close>
  | UpSending bytes            \<comment> \<open>in \<open>socket.send(&buffer[..length])\<close>\<close>

datatype down_pc =
    DownStarting               \<comment> \<open>before \<open>let mut seen = activity.load(..)\<close>\<close>
  | DownReceiving nat          \<comment> \<open>in \<open>timeout(idle, socket.recv(..))\<close>, armed at that time\<close>
  | DownWriting bytes          \<comment> \<open>in \<open>write_datagram(..)\<close>\<close>

text \<open>
  The last two fields are history variables, which no step reads: when the last datagram moved, and
  how many had been sent when \<open>seen\<close> was loaded.
\<close>

record udp_gateway =
  gw_in :: stream
  gw_out :: bytes
  gw_fin :: bool
  gw_up :: up_pc
  gw_down :: down_pc
  gw_sent :: "bytes list"
  gw_received :: "bytes list"
  gw_activity :: u64
  gw_seen :: u64
  gw_clock :: nat
  gw_result :: "(io_error + unit) option"
  gw_moved :: nat
  gw_seen_sent :: nat

definition gw_start :: "stream \<Rightarrow> udp_gateway" where
  "gw_start s =
     \<lparr>gw_in = s, gw_out = [], gw_fin = False, gw_up = UpReading, gw_down = DownStarting,
      gw_sent = [], gw_received = [], gw_activity = 0, gw_seen = 0, gw_clock = 0,
      gw_result = None, gw_moved = 0, gw_seen_sent = 0\<rparr>"

definition gw_load_seen :: "udp_gateway \<Rightarrow> udp_gateway" where
  "gw_load_seen s =
     s\<lparr>gw_seen := gw_activity s, gw_seen_sent := length (gw_sent s),
       gw_down := DownReceiving (gw_clock s)\<rparr>"

text \<open>What ends an idle session: the agent closes in good order, the proxy server reports it.\<close>

definition vm_on_idle :: "udp_gateway \<Rightarrow> udp_gateway" where
  "vm_on_idle s = s\<lparr>gw_fin := True, gw_result := Some (Inr ())\<rparr>"

definition srv_on_idle :: "udp_gateway \<Rightarrow> udp_gateway" where
  "srv_on_idle s = s\<lparr>gw_result := Some (Inl (IoError TimedOut (lit ''UDP flow idle'')))\<rparr>"

text \<open>The branch \<open>Err(_)\<close> of the downlink: \<open>recv\<close> did not return within \<open>idle\<close>.\<close>

definition gw_on_elapsed :: "(udp_gateway \<Rightarrow> udp_gateway) \<Rightarrow> udp_gateway \<Rightarrow> udp_gateway" where
  "gw_on_elapsed on_idle s =
     (if gw_activity s = gw_seen s then on_idle s else gw_load_seen s)"

text \<open>A datagram went out on the socket.\<close>

definition gw_on_sent :: "bytes \<Rightarrow> udp_gateway \<Rightarrow> udp_gateway" where
  "gw_on_sent d s =
     s\<lparr>gw_up := UpReading, gw_sent := gw_sent s @ [d], gw_activity := gw_activity s + 1,
       gw_moved := gw_clock s\<rparr>"

inductive gw_step :: "(udp_gateway \<Rightarrow> udp_gateway) \<Rightarrow> nat \<Rightarrow> udp_gateway \<Rightarrow> udp_gateway \<Rightarrow> bool"
  for on_idle idle where
  Tick: "gw_result s = None \<Longrightarrow> gw_step on_idle idle s (s\<lparr>gw_clock := gw_clock s + 1\<rparr>)"
| UpRead: "\<lbrakk>gw_result s = None; gw_up s = UpReading;
     read_datagram stream_rx (gw_in s) = (Done d, in')\<rbrakk> \<Longrightarrow>
   gw_step on_idle idle s (s\<lparr>gw_in := in', gw_up := UpSending d\<rparr>)"
| UpReadFails: "\<lbrakk>gw_result s = None; gw_up s = UpReading;
     read_datagram stream_rx (gw_in s) = (Failed e, in')\<rbrakk> \<Longrightarrow>
   gw_step on_idle idle s (s\<lparr>gw_in := in', gw_result := Some (Inl e)\<rparr>)"
| UpSend: "\<lbrakk>gw_result s = None; gw_up s = UpSending d\<rbrakk> \<Longrightarrow>
   gw_step on_idle idle s (gw_on_sent d s)"
| UpSendFails: "\<lbrakk>gw_result s = None; gw_up s = UpSending d\<rbrakk> \<Longrightarrow>
   gw_step on_idle idle s (s\<lparr>gw_result := Some (Inl e)\<rparr>)"
| DownStart: "\<lbrakk>gw_result s = None; gw_down s = DownStarting\<rbrakk> \<Longrightarrow>
   gw_step on_idle idle s (gw_load_seen s)"
| DownRecv: "\<lbrakk>gw_result s = None; gw_down s = DownReceiving t; length d \<le> 65535\<rbrakk> \<Longrightarrow>
   gw_step on_idle idle s
     (s\<lparr>gw_received := gw_received s @ [d], gw_down := DownWriting d, gw_moved := gw_clock s\<rparr>)"
| DownRecvFails: "\<lbrakk>gw_result s = None; gw_down s = DownReceiving t\<rbrakk> \<Longrightarrow>
   gw_step on_idle idle s (s\<lparr>gw_result := Some (Inl e)\<rparr>)"
| DownWrite: "\<lbrakk>gw_result s = None; gw_down s = DownWriting d;
     write_datagram vec_tx d (gw_out s) = (Done (), out')\<rbrakk> \<Longrightarrow>
   gw_step on_idle idle s (s\<lparr>gw_out := out', gw_down := DownReceiving (gw_clock s)\<rparr>)"
| DownWriteFails: "\<lbrakk>gw_result s = None; gw_down s = DownWriting d\<rbrakk> \<Longrightarrow>
   gw_step on_idle idle s
     (s\<lparr>gw_out := gw_out s @ take k (datagram_bytes d), gw_result := Some (Inl e)\<rparr>)"
| DownElapsed: "\<lbrakk>gw_result s = None; gw_down s = DownReceiving t; t + idle \<le> gw_clock s\<rbrakk> \<Longrightarrow>
   gw_step on_idle idle s (gw_on_elapsed on_idle s)"

definition gw_reachable :: "(udp_gateway \<Rightarrow> udp_gateway) \<Rightarrow> nat \<Rightarrow> stream \<Rightarrow> udp_gateway \<Rightarrow> bool" where
  "gw_reachable on_idle idle tunnel s \<longleftrightarrow> (gw_step on_idle idle)\<^sup>*\<^sup>* (gw_start tunnel) s"

text \<open>
  The states that the two relays pass through when they are called with a deadline and a tunnel
  from which \<open>tunnel\<close> will be read.
\<close>

definition vm_udp_relay :: "nat \<Rightarrow> stream \<Rightarrow> udp_gateway \<Rightarrow> bool" where
  "vm_udp_relay idle tunnel s \<longleftrightarrow> gw_reachable vm_on_idle idle tunnel s"

definition srv_udp_relay :: "nat \<Rightarrow> stream \<Rightarrow> udp_gateway \<Rightarrow> bool" where
  "srv_udp_relay idle tunnel s \<longleftrightarrow> gw_reachable srv_on_idle idle tunnel s"

subsection \<open>What a reachable gateway state satisfies\<close>

fun up_pending :: "up_pc \<Rightarrow> bytes list" where
  "up_pending UpReading = []"
| "up_pending (UpSending d) = [d]"

fun down_pending :: "down_pc \<Rightarrow> bytes list" where
  "down_pending (DownWriting d) = [d]"
| "down_pending _ = []"

abbreviation frames :: "bytes list \<Rightarrow> bytes" where
  "frames ds \<equiv> concat (map datagram_bytes ds)"

text \<open>
  Towards the socket: what was sent, and the datagram about to be sent, are the first frames of
  the tunnel's stream; while the session runs the rest of the stream is still unread.
\<close>

definition uplink_inv :: "stream \<Rightarrow> udp_gateway \<Rightarrow> bool" where
  "uplink_inv tunnel s \<longleftrightarrow>
     (\<forall>d \<in> set (gw_sent s @ up_pending (gw_up s)). good_datagram d) \<and>
     (\<exists>rest. frames (gw_sent s @ up_pending (gw_up s)) @ rest = s_bytes tunnel \<and>
        (gw_result s = None \<longrightarrow> gw_in s = stream_of rest (s_end tunnel)))"

text \<open>
  Towards the tunnel: the bytes written are the frames of the datagrams received, in order, and of
  the one being written a prefix if its write failed.
\<close>

definition downlink_inv :: "udp_gateway \<Rightarrow> bool" where
  "downlink_inv s \<longleftrightarrow>
     (\<forall>d \<in> set (gw_received s). good_datagram d) \<and>
     (\<exists>written k. gw_received s = written @ down_pending (gw_down s) \<and>
        gw_out s = frames written @ take k (frames (down_pending (gw_down s))) \<and>
        (gw_result s = None \<longrightarrow> k = 0))"

definition activity_inv :: "udp_gateway \<Rightarrow> bool" where
  "activity_inv s \<longleftrightarrow>
     gw_activity s = of_nat (length (gw_sent s)) \<and> gw_seen s = of_nat (gw_seen_sent s) \<and>
     gw_seen_sent s \<le> length (gw_sent s) \<and> gw_moved s \<le> gw_clock s \<and>
     (\<forall>t. gw_down s = DownReceiving t \<longrightarrow>
        t \<le> gw_clock s \<and> (length (gw_sent s) = gw_seen_sent s \<longrightarrow> gw_moved s \<le> t))"

text \<open>
  When the session closes for idleness, nothing moved for the whole of \<open>idle\<close>; the one exception
  is the counter coming full circle, \<open>2\<^sup>6\<^sup>4\<close> sends between two looks at it.
\<close>

definition idle_for :: "nat \<Rightarrow> udp_gateway \<Rightarrow> bool" where
  "idle_for idle s \<longleftrightarrow> gw_moved s + idle \<le> gw_clock s"

definition counter_wrapped :: "udp_gateway \<Rightarrow> bool" where
  "counter_wrapped s \<longleftrightarrow> 2 ^ 64 \<le> length (gw_sent s) - gw_seen_sent s"

lemma datagram_bytes_nonempty: "datagram_bytes d \<noteq> []"
  by (auto simp: datagram_bytes_def dest!: arg_cong [where f = length])

lemma of_nat_u64_eq:
  assumes "m \<le> n" and "(of_nat n :: u64) = of_nat m"
  shows "n = m \<or> 2 ^ 64 \<le> n - m"
proof -
  from assms have "(of_nat (n - m) :: u64) = 0" by (simp add: of_nat_diff)
  then have "2 ^ 64 dvd n - m" by (simp add: word_of_nat_eq_0_iff)
  with assms(1) show ?thesis by (auto dest: dvd_imp_le)
qed

locale gateway_idle =
  fixes on_idle :: "udp_gateway \<Rightarrow> udp_gateway"
  assumes on_idle_frame [simp]:
    "gw_in (on_idle s) = gw_in s" "gw_out (on_idle s) = gw_out s" "gw_up (on_idle s) = gw_up s"
    "gw_down (on_idle s) = gw_down s" "gw_sent (on_idle s) = gw_sent s"
    "gw_received (on_idle s) = gw_received s" "gw_activity (on_idle s) = gw_activity s"
    "gw_seen (on_idle s) = gw_seen s" "gw_clock (on_idle s) = gw_clock s"
    "gw_moved (on_idle s) = gw_moved s" "gw_seen_sent (on_idle s) = gw_seen_sent s"
    and on_idle_result: "gw_result (on_idle s) \<noteq> None"
begin

lemma on_elapsed_frame [simp]:
  "gw_in (gw_on_elapsed on_idle s) = gw_in s" "gw_out (gw_on_elapsed on_idle s) = gw_out s"
  "gw_up (gw_on_elapsed on_idle s) = gw_up s" "gw_sent (gw_on_elapsed on_idle s) = gw_sent s"
  "gw_received (gw_on_elapsed on_idle s) = gw_received s"
  by (simp_all add: gw_on_elapsed_def gw_load_seen_def)

lemma uplink_step:
  "gw_step on_idle idle s s' \<Longrightarrow> uplink_inv tunnel s \<Longrightarrow> uplink_inv tunnel s'"
proof (induction rule: gw_step.induct)
  case (UpRead s d in')
  then show ?case
    by (auto simp: uplink_inv_def datagram_codec.dec_iff)
next
  case (UpReadFails s e in')
  then show ?case by (auto simp: uplink_inv_def)
next
  case (DownElapsed s t)
  then show ?case by (auto simp: uplink_inv_def)
qed (auto simp: uplink_inv_def gw_on_sent_def gw_load_seen_def)

lemma downlink_step:
  "gw_step on_idle idle s s' \<Longrightarrow> downlink_inv s \<Longrightarrow> downlink_inv s'"
proof (induction rule: gw_step.induct)
  case (DownRecv s t d)
  then show ?case by (auto simp: downlink_inv_def good_datagram_def)
next
  case (DownWrite s d out')
  then have "out' = gw_out s @ datagram_bytes d"
    by (auto simp: write_datagram_def act_simps split: if_splits)
  with DownWrite show ?case by (auto simp: downlink_inv_def)
next
  case (DownWriteFails s d k e)
  then show ?case by (auto simp: downlink_inv_def)
next
  case (DownElapsed s t)
  then show ?case
    by (auto simp: downlink_inv_def gw_on_elapsed_def gw_load_seen_def)
qed (auto simp: downlink_inv_def gw_on_sent_def gw_load_seen_def)

lemma activity_step:
  "gw_step on_idle idle s s' \<Longrightarrow> activity_inv s \<Longrightarrow> activity_inv s'"
proof (induction rule: gw_step.induct)
  case (DownElapsed s t)
  then show ?case
    by (auto simp: activity_inv_def gw_on_elapsed_def gw_load_seen_def)
qed (auto simp: activity_inv_def gw_on_sent_def gw_load_seen_def add.commute)

lemma reachable_invs:
  assumes "gw_reachable on_idle idle tunnel s"
  shows "uplink_inv tunnel s \<and> downlink_inv s \<and> activity_inv s"
  using assms unfolding gw_reachable_def
proof (induction rule: rtranclp_induct)
  case base
  then show ?case
    by (auto simp: uplink_inv_def downlink_inv_def activity_inv_def gw_start_def stream_of_def)
next
  case (step s s')
  then show ?case using uplink_step downlink_step activity_step by blast
qed

text \<open>Datagrams go out in the order of their frames, none twice, none lost before one sent.\<close>

lemma sent_are_frames:
  assumes "gw_reachable on_idle idle (stream_of (take n (frames ds)) e) s"
    and "\<forall>d \<in> set ds. good_datagram d"
  shows "gw_sent s = take (length (gw_sent s)) ds"
proof -
  from reachable_invs [OF assms(1)] obtain rest where
      good: "\<forall>d \<in> set (gw_sent s). good_datagram d"
      and rest: "frames (gw_sent s) @ rest = take n (frames ds)"
    by (auto simp: uplink_inv_def)
  from rest have "frames (gw_sent s) @ (rest @ drop n (frames ds)) = frames ds"
    by (metis append.assoc append_take_drop_id)
  from datagram_codec.sequence_prefix_le [OF this good assms(2) datagram_bytes_nonempty]
  show ?thesis .
qed

lemma out_is_frames:
  assumes "gw_reachable on_idle idle tunnel s"
  shows "\<exists>n. gw_out s = take n (frames (gw_received s))"
proof -
  from reachable_invs [OF assms] obtain written k where
    "gw_received s = written @ down_pending (gw_down s)"
    "gw_out s = frames written @ take k (frames (down_pending (gw_down s)))"
    by (auto simp: downlink_inv_def)
  then have "gw_out s = take (length (frames written) + k) (frames (gw_received s))" by simp
  then show ?thesis ..
qed

lemma idle_close_safe:
  assumes "gw_reachable on_idle idle tunnel s" and "gw_result s = None"
    and "gw_down s = DownReceiving t" and "t + idle \<le> gw_clock s"
    and "gw_result (gw_on_elapsed on_idle s) \<noteq> None"
  shows "idle_for idle s \<or> counter_wrapped s"
proof -
  from assms(2,5) have "gw_activity s = gw_seen s"
    by (auto simp: gw_on_elapsed_def gw_load_seen_def split: if_splits)
  with reachable_invs [OF assms(1)] assms(3,4) of_nat_u64_eq show ?thesis
    by (fastforce simp: activity_inv_def idle_for_def counter_wrapped_def)
qed

text \<open>And a session in which nothing moves any more closes at the second look at the latest.\<close>

lemma quiet_closes:
  assumes "gw_result (gw_on_elapsed on_idle s) = None"
  shows "gw_result (gw_on_elapsed on_idle ((gw_on_elapsed on_idle s)\<lparr>gw_clock := c\<rparr>)) \<noteq> None"
proof -
  let ?t = "(gw_on_elapsed on_idle s)\<lparr>gw_clock := c\<rparr>"
  from assms on_idle_result [of s] have "gw_on_elapsed on_idle s = gw_load_seen s"
    by (auto simp: gw_on_elapsed_def)
  then have "gw_activity ?t = gw_seen ?t" by (simp add: gw_load_seen_def)
  with on_idle_result show ?thesis by (simp add: gw_on_elapsed_def)
qed

end

interpretation vm_udp: gateway_idle vm_on_idle
  by unfold_locales (simp_all add: vm_on_idle_def)

interpretation srv_udp: gateway_idle srv_on_idle
  by unfold_locales (simp_all add: srv_on_idle_def)

lemmas gw_step_intros = gw_step.intros

text \<open>
  The agent's session ends in good order for no other reason than idleness, so an \<open>Ok\<close> result of
  its pumps says that nothing moved for \<open>idle\<close>.
\<close>

lemma vm_ok_is_idle_step:
  assumes "gw_step vm_on_idle idle s s'" and "gw_reachable vm_on_idle idle tunnel s"
    and "gw_result s' = Some (Inr ())"
  shows "idle_for idle s' \<or> counter_wrapped s'"
  using assms
proof (cases rule: gw_step.cases)
  case (DownElapsed t)
  with vm_udp.idle_close_safe [OF assms(2)] assms(3) have "idle_for idle s \<or> counter_wrapped s"
    by simp
  moreover from DownElapsed assms(3) have "s' = vm_on_idle s"
    by (auto simp: gw_on_elapsed_def gw_load_seen_def split: if_splits)
  ultimately show ?thesis by (simp add: idle_for_def counter_wrapped_def vm_on_idle_def)
qed (auto simp: gw_on_sent_def gw_load_seen_def)

lemma gw_step_running: "gw_step on_idle idle s s' \<Longrightarrow> gw_result s = None"
  by (erule gw_step.cases) auto

lemma vm_ok_is_idle:
  assumes "gw_reachable vm_on_idle idle tunnel s" and "gw_result s = Some (Inr ())"
  shows "idle_for idle s \<or> counter_wrapped s"
  using assms(1) unfolding gw_reachable_def
proof (cases rule: rtranclp.cases)
  case rtrancl_refl
  with assms(2) show ?thesis by (simp add: gw_start_def)
next
  case (rtrancl_into_rtrancl s1)
  with vm_ok_is_idle_step [of idle s1 s tunnel] assms(2) show ?thesis
    by (simp add: gw_reachable_def)
qed

subsection \<open>The near end\<close>

datatype local_up_pc =
    LocalReading               \<comment> \<open>in \<open>local_rx.read(&mut buf)\<close>\<close>
  | FrameWriting bytes         \<comment> \<open>in \<open>write_datagram(..)\<close>\<close>

datatype local_down_pc =
    FrameReading               \<comment> \<open>in \<open>read_datagram(..)\<close>\<close>
  | LocalWriting bytes         \<comment> \<open>in \<open>local_tx.write_all(..)\<close>\<close>

record udp_local =
  lo_in :: stream
  lo_out :: bytes
  lo_fin :: bool
  lo_up :: local_up_pc
  lo_down :: local_down_pc
  lo_read :: "bytes list"
  lo_written :: "bytes list"
  lo_result :: "(io_error + unit) option"

definition lo_start :: "stream \<Rightarrow> udp_local" where
  "lo_start s =
     \<lparr>lo_in = s, lo_out = [], lo_fin = False, lo_up = LocalReading, lo_down = FrameReading,
      lo_read = [], lo_written = [], lo_result = None\<rparr>"

text \<open>
  A read of length zero: the tunnel is shut down, with result \<open>r\<close>. The host drops the result, the
  proxy client returns it.
\<close>

definition host_on_eof :: "io_error + unit \<Rightarrow> io_error + unit" where
  "host_on_eof r = Inr ()"

definition client_on_eof :: "io_error + unit \<Rightarrow> io_error + unit" where
  "client_on_eof r = r"

text \<open>\<open>write_all\<close> of an empty buffer returns at once: the stack is not asked to send anything.\<close>

definition lo_deliver :: "bytes \<Rightarrow> udp_local \<Rightarrow> udp_local" where
  "lo_deliver d s =
     s\<lparr>lo_down := FrameReading, lo_written := (if d = [] then lo_written s else lo_written s @ [d])\<rparr>"

inductive local_step :: "(io_error + unit \<Rightarrow> io_error + unit) \<Rightarrow> udp_local \<Rightarrow> udp_local \<Rightarrow> bool"
  for on_eof where
  Read: "\<lbrakk>lo_result s = None; lo_up s = LocalReading; d \<noteq> []; length d \<le> 65535\<rbrakk> \<Longrightarrow>
   local_step on_eof s (s\<lparr>lo_read := lo_read s @ [d], lo_up := FrameWriting d\<rparr>)"
| ReadFails: "\<lbrakk>lo_result s = None; lo_up s = LocalReading\<rbrakk> \<Longrightarrow>
   local_step on_eof s (s\<lparr>lo_result := Some (Inl e)\<rparr>)"
| ReadEof: "\<lbrakk>lo_result s = None; lo_up s = LocalReading\<rbrakk> \<Longrightarrow>
   local_step on_eof s (s\<lparr>lo_fin := (r = Inr ()), lo_result := Some (on_eof r)\<rparr>)"
| WriteFrame: "\<lbrakk>lo_result s = None; lo_up s = FrameWriting d;
     write_datagram vec_tx d (lo_out s) = (Done (), out')\<rbrakk> \<Longrightarrow>
   local_step on_eof s (s\<lparr>lo_out := out', lo_up := LocalReading\<rparr>)"
| WriteFrameFails: "\<lbrakk>lo_result s = None; lo_up s = FrameWriting d\<rbrakk> \<Longrightarrow>
   local_step on_eof s
     (s\<lparr>lo_out := lo_out s @ take k (datagram_bytes d), lo_result := Some (Inl e)\<rparr>)"
| ReadFrame: "\<lbrakk>lo_result s = None; lo_down s = FrameReading;
     read_datagram stream_rx (lo_in s) = (Done d, in')\<rbrakk> \<Longrightarrow>
   local_step on_eof s (s\<lparr>lo_in := in', lo_down := LocalWriting d\<rparr>)"
| ReadFrameFails: "\<lbrakk>lo_result s = None; lo_down s = FrameReading;
     read_datagram stream_rx (lo_in s) = (Failed e, in')\<rbrakk> \<Longrightarrow>
   local_step on_eof s (s\<lparr>lo_in := in', lo_result := Some (Inl e)\<rparr>)"
| Deliver: "\<lbrakk>lo_result s = None; lo_down s = LocalWriting d\<rbrakk> \<Longrightarrow>
   local_step on_eof s (lo_deliver d s)"
| DeliverFails: "\<lbrakk>lo_result s = None; lo_down s = LocalWriting d; d \<noteq> []\<rbrakk> \<Longrightarrow>
   local_step on_eof s (s\<lparr>lo_result := Some (Inl e)\<rparr>)"

definition lo_reachable ::
    "(io_error + unit \<Rightarrow> io_error + unit) \<Rightarrow> stream \<Rightarrow> udp_local \<Rightarrow> bool" where
  "lo_reachable on_eof tunnel s \<longleftrightarrow> (local_step on_eof)\<^sup>*\<^sup>* (lo_start tunnel) s"

definition host_udp_relay :: "stream \<Rightarrow> udp_local \<Rightarrow> bool" where
  "host_udp_relay tunnel s \<longleftrightarrow> lo_reachable host_on_eof tunnel s"

definition client_udp_relay :: "stream \<Rightarrow> udp_local \<Rightarrow> bool" where
  "client_udp_relay tunnel s \<longleftrightarrow> lo_reachable client_on_eof tunnel s"

fun local_up_pending :: "local_up_pc \<Rightarrow> bytes list" where
  "local_up_pending (FrameWriting d) = [d]"
| "local_up_pending LocalReading = []"

fun local_down_pending :: "local_down_pc \<Rightarrow> bytes list" where
  "local_down_pending (LocalWriting d) = [d]"
| "local_down_pending FrameReading = []"

definition local_up_inv :: "udp_local \<Rightarrow> bool" where
  "local_up_inv s \<longleftrightarrow>
     (\<forall>d \<in> set (lo_read s). good_datagram d \<and> d \<noteq> []) \<and>
     (\<exists>written k. lo_read s = written @ local_up_pending (lo_up s) \<and>
        lo_out s = frames written @ take k (frames (local_up_pending (lo_up s))) \<and>
        (lo_result s = None \<longrightarrow> k = 0))"

definition local_down_inv :: "stream \<Rightarrow> udp_local \<Rightarrow> bool" where
  "local_down_inv tunnel s \<longleftrightarrow>
     (\<exists>ds rest. lo_written s = filter (\<lambda>d. d \<noteq> []) ds \<and> (\<forall>d \<in> set ds. good_datagram d) \<and>
        (\<forall>d \<in> set (local_down_pending (lo_down s)). good_datagram d) \<and>
        frames (ds @ local_down_pending (lo_down s)) @ rest = s_bytes tunnel \<and>
        (lo_result s = None \<longrightarrow> lo_in s = stream_of rest (s_end tunnel)))"

lemma local_up_step: "local_step on_eof s s' \<Longrightarrow> local_up_inv s \<Longrightarrow> local_up_inv s'"
proof (induction rule: local_step.induct)
  case (Read s d)
  then show ?case by (auto simp: local_up_inv_def good_datagram_def)
next
  case (WriteFrame s d out')
  then have "out' = lo_out s @ datagram_bytes d"
    by (auto simp: write_datagram_def act_simps split: if_splits)
  with WriteFrame show ?case by (auto simp: local_up_inv_def)
qed (auto simp: local_up_inv_def lo_deliver_def)

lemma local_down_step:
  "local_step on_eof s s' \<Longrightarrow> local_down_inv tunnel s \<Longrightarrow> local_down_inv tunnel s'"
proof (induction rule: local_step.induct)
  case (ReadFrame s d in')
  then obtain ds where "lo_written s = filter (\<lambda>d. d \<noteq> []) ds" "\<forall>d \<in> set ds. good_datagram d"
      "good_datagram d" "frames (ds @ [d]) @ s_bytes in' = s_bytes tunnel"
      "s_end in' = s_end tunnel"
    by (auto simp: local_down_inv_def datagram_codec.dec_iff)
  then show ?case
    by (auto simp: local_down_inv_def intro!: exI [of _ ds] exI [of _ "s_bytes in'"])
next
  case (ReadFrameFails s e in')
  then show ?case by (auto simp: local_down_inv_def)
next
  case (Deliver s d)
  then obtain ds rest where "lo_written s = filter (\<lambda>d. d \<noteq> []) ds" "\<forall>d \<in> set ds. good_datagram d"
      "good_datagram d" "frames (ds @ [d]) @ rest = s_bytes tunnel"
      "lo_in s = stream_of rest (s_end tunnel)"
    by (auto simp: local_down_inv_def)
  then show ?case
    by (auto simp: local_down_inv_def lo_deliver_def
        intro!: exI [of _ "ds @ [d]"] exI [of _ rest])
qed (auto simp: local_down_inv_def)

lemma local_reachable_invs:
  assumes "lo_reachable on_eof tunnel s"
  shows "local_up_inv s \<and> local_down_inv tunnel s"
  using assms unfolding lo_reachable_def
proof (induction rule: rtranclp_induct)
  case base
  show ?case
    by (auto simp: local_up_inv_def local_down_inv_def lo_start_def
        intro!: exI [of _ "[]"] exI [of _ "s_bytes tunnel"])
next
  case (step s s')
  then show ?case using local_up_step local_down_step by blast
qed

lemma local_out_is_frames:
  assumes "lo_reachable on_eof tunnel s"
  shows "\<exists>n. lo_out s = take n (frames (lo_read s))"
proof -
  from local_reachable_invs [OF assms] obtain written k where
    "lo_read s = written @ local_up_pending (lo_up s)"
    "lo_out s = frames written @ take k (frames (local_up_pending (lo_up s)))"
    by (auto simp: local_up_inv_def)
  then have "lo_out s = take (length (frames written) + k) (frames (lo_read s))" by simp
  then show ?thesis ..
qed

subsection \<open>From end to end\<close>

text \<open>The tunnel delivers in order what was written to it, all of it or a beginning.\<close>

context gateway_idle
begin

lemma uplink_end_to_end:
  assumes "lo_reachable on_eof t l"
    and "gw_reachable on_idle idle (stream_of (take n (lo_out l)) e) s"
  shows "gw_sent s = take (length (gw_sent s)) (lo_read l)"
proof -
  from local_out_is_frames [OF assms(1)] obtain m where "lo_out l = take m (frames (lo_read l))" ..
  with assms(2) have "gw_reachable on_idle idle (stream_of (take (min n m) (frames (lo_read l))) e) s"
    by simp
  moreover from local_reachable_invs [OF assms(1)] have "\<forall>d \<in> set (lo_read l). good_datagram d"
    by (auto simp: local_up_inv_def)
  ultimately show ?thesis by (rule sent_are_frames)
qed

lemma downlink_end_to_end:
  assumes "gw_reachable on_idle idle t s"
    and "lo_reachable on_eof (stream_of (take n (gw_out s)) e) l"
  shows "\<exists>k. lo_written l = filter (\<lambda>d. d \<noteq> []) (take k (gw_received s))"
proof -
  from out_is_frames [OF assms(1)] obtain m where m: "gw_out s = take m (frames (gw_received s))" ..
  from local_reachable_invs [OF assms(2)] m obtain ds rest where
      ds: "lo_written l = filter (\<lambda>d. d \<noteq> []) ds" "\<forall>d \<in> set ds. good_datagram d"
        "frames ds @ rest = take (min n m) (frames (gw_received s))"
    by (auto simp: local_down_inv_def)
  from ds(3) have "frames ds @ (rest @ drop (min n m) (frames (gw_received s))) = frames (gw_received s)"
    by (metis append.assoc append_take_drop_id)
  moreover from reachable_invs [OF assms(1)] have "\<forall>d \<in> set (gw_received s). good_datagram d"
    by (auto simp: downlink_inv_def)
  ultimately have "ds = take (length ds) (gw_received s)"
    using datagram_codec.sequence_prefix_le [OF _ ds(2) _ datagram_bytes_nonempty] by blast
  with ds(1) show ?thesis by metis
qed

end

subsection \<open>An abstract channel\<close>

text \<open>
  What a relay of datagrams promises, without frames, buffers or pumps: a channel holds datagrams
  still to be delivered and those delivered; it delivers the next one or does nothing.
\<close>

type_synonym channel = "bytes list \<times> bytes list"

inductive channel_step :: "channel \<Rightarrow> channel \<Rightarrow> bool" where
  Idle: "channel_step c c"
| Delivers: "channel_step (d # todo, delivered) (todo, delivered @ [d])"

inductive_simps channel_step_iff: "channel_step (todo, delivered) c"

text \<open>The channel a gateway realises towards the socket, when \<open>ds\<close> were framed for it.\<close>

definition uplink_channel :: "bytes list \<Rightarrow> udp_gateway \<Rightarrow> channel" where
  "uplink_channel ds s = (drop (length (gw_sent s)) ds, gw_sent s)"

lemma gw_step_sent:
  "gw_step on_idle idle s s' \<Longrightarrow> (\<And>s. gw_sent (on_idle s) = gw_sent s) \<Longrightarrow>
    gw_sent s' = gw_sent s \<or> (\<exists>d. gw_sent s' = gw_sent s @ [d])"
  by (induction rule: gw_step.induct) (auto simp: gw_on_sent_def gw_load_seen_def gw_on_elapsed_def)

context gateway_idle
begin

lemma refines_channel:
  assumes reach: "gw_reachable on_idle idle (stream_of (take n (frames ds)) e) s"
    and good: "\<forall>d \<in> set ds. good_datagram d" and step: "gw_step on_idle idle s s'"
  shows "channel_step (uplink_channel ds s) (uplink_channel ds s')"
proof -
  have reach': "gw_reachable on_idle idle (stream_of (take n (frames ds)) e) s'"
    using reach step unfolding gw_reachable_def by (rule rtranclp.rtrancl_into_rtrancl)
  from gw_step_sent [OF step on_idle_frame(5)] show ?thesis
  proof
    assume "\<exists>d. gw_sent s' = gw_sent s @ [d]"
    then obtain d where d: "gw_sent s' = gw_sent s @ [d]" ..
    let ?n = "length (gw_sent s)"
    from sent_are_frames [OF reach' good] d have "gw_sent s @ [d] = take (Suc ?n) ds" by simp
    then have "?n < length ds" "d = ds ! ?n"
      by (metis length_append_singleton length_take min.absorb_iff2 not_less_eq_eq nat_le_linear
          length_take min_def lessI not_less)
        (metis \<open>gw_sent s @ [d] = take (Suc ?n) ds\<close> lessI nth_append_length nth_take)
    with d show ?thesis
      by (simp add: uplink_channel_def channel_step_iff Cons_nth_drop_Suc)
  qed (simp add: uplink_channel_def Idle)
qed

end

subsection \<open>Properties of the relays\<close>

text \<open>A short exchange, for the examples: one datagram each way.\<close>

definition example_gateway :: udp_gateway where
  "example_gateway =
     \<lparr>gw_in = stream_of [] Stalls, gw_out = [0, 1, 9], gw_fin = False, gw_up = UpReading,
      gw_down = DownReceiving 0, gw_sent = [[7]], gw_received = [[9]], gw_activity = 1, gw_seen = 0,
      gw_clock = 0, gw_result = None, gw_moved = 0, gw_seen_sent = 0\<rparr>"

definition example_local :: udp_local where
  "example_local =
     \<lparr>lo_in = stream_of [] Stalls, lo_out = [0, 1, 7], lo_fin = False, lo_up = LocalReading,
      lo_down = FrameReading, lo_read = [[7]], lo_written = [[9]], lo_result = None\<rparr>"

lemma example_frames: "datagram_bytes [7] = [0, 1, 7]" "datagram_bytes [9] = [0, 1, 9]"
  by code_simp+

lemma read_example_frames:
  "read_datagram stream_rx (stream_of [0, 1, 7] Stalls) = (Done [7], stream_of [] Stalls)"
  "read_datagram stream_rx (stream_of [0, 1, 9] Stalls) = (Done [9], stream_of [] Stalls)"
  by code_simp+

lemma write_example_frames:
  "write_datagram vec_tx [7] [] = (Done (), [0, 1, 7])"
  "write_datagram vec_tx [9] [] = (Done (), [0, 1, 9])"
  by code_simp+

lemma example_gateway_reachable:
  "gw_reachable on_idle idle (stream_of [0, 1, 7] Stalls) example_gateway"
proof -
  let ?s0 = "gw_start (stream_of [0, 1, 7] Stalls)"
  let ?s1 = "gw_load_seen ?s0"
  let ?s2 = "?s1\<lparr>gw_in := stream_of [] Stalls, gw_up := UpSending [7]\<rparr>"
  let ?s3 = "gw_on_sent [7] ?s2"
  let ?s4 = "?s3\<lparr>gw_received := gw_received ?s3 @ [[9]], gw_down := DownWriting [9],
    gw_moved := gw_clock ?s3\<rparr>"
  let ?s5 = "?s4\<lparr>gw_out := [0, 1, 9], gw_down := DownReceiving (gw_clock ?s4)\<rparr>"
  have "gw_step on_idle idle ?s0 ?s1" by (rule DownStart) (simp_all add: gw_start_def)
  moreover have "gw_step on_idle idle ?s1 ?s2"
    by (rule UpRead) (simp_all add: gw_start_def gw_load_seen_def read_example_frames)
  moreover have "gw_step on_idle idle ?s2 ?s3"
    by (rule UpSend) (simp_all add: gw_start_def gw_load_seen_def)
  moreover have "gw_step on_idle idle ?s3 ?s4"
    by (rule DownRecv) (simp_all add: gw_start_def gw_load_seen_def gw_on_sent_def)
  moreover have "gw_step on_idle idle ?s4 ?s5"
    by (rule DownWrite)
      (simp_all add: gw_start_def gw_load_seen_def gw_on_sent_def, rule write_example_frames)
  ultimately have "(gw_step on_idle idle)\<^sup>*\<^sup>* ?s0 ?s5"
    by (meson rtranclp.rtrancl_into_rtrancl rtranclp.rtrancl_refl)
  moreover have "?s5 = example_gateway"
    by (simp add: example_gateway_def gw_start_def gw_load_seen_def gw_on_sent_def)
  ultimately show ?thesis by (simp add: gw_reachable_def)
qed

lemma example_local_reachable:
  "lo_reachable on_eof (stream_of [0, 1, 9] Stalls) example_local"
proof -
  let ?s0 = "lo_start (stream_of [0, 1, 9] Stalls)"
  let ?s1 = "?s0\<lparr>lo_read := lo_read ?s0 @ [[7]], lo_up := FrameWriting [7]\<rparr>"
  let ?s2 = "?s1\<lparr>lo_out := [0, 1, 7], lo_up := LocalReading\<rparr>"
  let ?s3 = "?s2\<lparr>lo_in := stream_of [] Stalls, lo_down := LocalWriting [9]\<rparr>"
  let ?s4 = "lo_deliver [9] ?s3"
  have "local_step on_eof ?s0 ?s1" by (rule Read) (simp_all add: lo_start_def)
  moreover have "local_step on_eof ?s1 ?s2"
    by (rule WriteFrame) (simp_all add: lo_start_def, rule write_example_frames)
  moreover have "local_step on_eof ?s2 ?s3"
    by (rule ReadFrame) (simp_all add: lo_start_def read_example_frames)
  moreover have "local_step on_eof ?s3 ?s4"
    by (rule Deliver) (simp_all add: lo_start_def)
  ultimately have "(local_step on_eof)\<^sup>*\<^sup>* ?s0 ?s4"
    by (meson rtranclp.rtrancl_into_rtrancl rtranclp.rtrancl_refl)
  moreover have "?s4 = example_local"
    by (simp add: example_local_def lo_start_def lo_deliver_def)
  ultimately show ?thesis by (simp add: lo_reachable_def)
qed

text \<open>
  C14: from the host to the VPN, datagrams leave the agent's socket in the order in which the host
  read them from the device, none twice, none changed, none skipped, however far the tunnel got
  and whatever failed.
\<close>

theorem vm_uplink_in_order:
  assumes "host_udp_relay t l" and "vm_udp_relay idle (stream_of (take n (lo_out l)) e) s"
  shows "gw_sent s = take (length (gw_sent s)) (lo_read l)"
  using assms unfolding host_udp_relay_def vm_udp_relay_def by (rule vm_udp.uplink_end_to_end)

theorem vm_uplink_in_order_witness:
  "gw_sent example_gateway = take (length (gw_sent example_gateway)) (lo_read example_local)"
proof (rule vm_uplink_in_order)
  show "host_udp_relay (stream_of [0, 1, 9] Stalls) example_local"
    unfolding host_udp_relay_def by (rule example_local_reachable)
  show "vm_udp_relay 5 (stream_of (take 3 (lo_out example_local)) Stalls) example_gateway"
    using example_gateway_reachable [of vm_on_idle 5]
    by (simp add: vm_udp_relay_def example_local_def)
qed

text \<open>
  From the VPN to the host, what the host hands to the device is a beginning of what the
  agent's socket received, in order; only empty datagrams are left out.
\<close>

lemma vm_downlink_in_order:
  assumes "vm_udp_relay idle t s" and "host_udp_relay (stream_of (take n (gw_out s)) e) l"
  shows "\<exists>k. lo_written l = filter (\<lambda>d. d \<noteq> []) (take k (gw_received s))"
  using assms unfolding host_udp_relay_def vm_udp_relay_def by (rule vm_udp.downlink_end_to_end)

lemma vm_downlink_in_order_witness:
  "\<exists>k. lo_written example_local = filter (\<lambda>d. d \<noteq> []) (take k (gw_received example_gateway))"
proof (rule vm_downlink_in_order)
  show "vm_udp_relay 5 (stream_of [0, 1, 7] Stalls) example_gateway"
    unfolding vm_udp_relay_def by (rule example_gateway_reachable)
  show "host_udp_relay (stream_of (take 3 (gw_out example_gateway)) Stalls) example_local"
    using example_local_reachable [of host_on_eof]
    by (simp add: host_udp_relay_def example_gateway_def)
qed

text \<open>
  C15: the same between the proxy client and the proxy server, both ways at once: the server's
  datagrams are the client's in order, and the client delivers the server's in order.
\<close>

theorem proxy_datagrams_in_order:
  assumes "client_udp_relay (stream_of (take m (gw_out s)) e1) l"
    and "srv_udp_relay idle (stream_of (take n (lo_out l)) e2) s"
  shows "gw_sent s = take (length (gw_sent s)) (lo_read l) \<and>
    (\<exists>k. lo_written l = filter (\<lambda>d. d \<noteq> []) (take k (gw_received s)))"
  using assms srv_udp.uplink_end_to_end srv_udp.downlink_end_to_end
  unfolding client_udp_relay_def srv_udp_relay_def by blast

theorem proxy_datagrams_in_order_witness:
  "gw_sent example_gateway = take (length (gw_sent example_gateway)) (lo_read example_local) \<and>
    (\<exists>k. lo_written example_local = filter (\<lambda>d. d \<noteq> []) (take k (gw_received example_gateway)))"
proof (rule proxy_datagrams_in_order)
  show "client_udp_relay (stream_of (take 3 (gw_out example_gateway)) Stalls) example_local"
    using example_local_reachable [of client_on_eof]
    by (simp add: client_udp_relay_def example_gateway_def)
  show "srv_udp_relay 5 (stream_of (take 3 (lo_out example_local)) Stalls) example_gateway"
    using example_gateway_reachable [of srv_on_idle 5]
    by (simp add: srv_udp_relay_def example_local_def)
qed




lemma idle_example:
  "gw_reachable on_idle 0 tunnel (gw_on_elapsed on_idle (gw_load_seen (gw_start tunnel)))"
proof -
  have "gw_step on_idle 0 (gw_start tunnel) (gw_load_seen (gw_start tunnel))"
    by (rule DownStart) (simp_all add: gw_start_def)
  moreover have "gw_step on_idle 0 (gw_load_seen (gw_start tunnel))
      (gw_on_elapsed on_idle (gw_load_seen (gw_start tunnel)))"
    by (rule DownElapsed) (simp_all add: gw_start_def gw_load_seen_def)
  ultimately show ?thesis
    unfolding gw_reachable_def by (meson converse_rtranclp_into_rtranclp r_into_rtranclp)
qed


text \<open>
  The proxy server's watchdog is as safe, and it is live: when it fires, nothing moved for
  \<open>idle\<close>; and where nothing moves any more it fires at the second look at the latest.
\<close>

lemma srv_idle_watchdog:
  assumes "srv_udp_relay idle tunnel s" and "gw_result s = None"
    and "gw_down s = DownReceiving t" and "t + idle \<le> gw_clock s"
  shows "if gw_result (gw_on_elapsed srv_on_idle s) \<noteq> None then idle_for idle s \<or> counter_wrapped s
    else \<forall>c. gw_result (gw_on_elapsed srv_on_idle ((gw_on_elapsed srv_on_idle s)\<lparr>gw_clock := c\<rparr>))
      = Some (Inl (IoError TimedOut (lit ''UDP flow idle'')))"
proof (cases "gw_result (gw_on_elapsed srv_on_idle s) = None")
  case True
  then have "gw_on_elapsed srv_on_idle s = gw_load_seen s"
    by (auto simp: gw_on_elapsed_def srv_on_idle_def split: if_splits)
  with True show ?thesis
    by (auto simp: gw_on_elapsed_def srv_on_idle_def gw_load_seen_def split: if_splits)
next
  case False
  with assms srv_udp.idle_close_safe show ?thesis unfolding srv_udp_relay_def by auto
qed

lemma srv_idle_watchdog_witness:
  "if gw_result (gw_on_elapsed srv_on_idle example_gateway) \<noteq> None
    then idle_for 0 example_gateway \<or> counter_wrapped example_gateway
    else \<forall>c. gw_result (gw_on_elapsed srv_on_idle
        ((gw_on_elapsed srv_on_idle example_gateway)\<lparr>gw_clock := c\<rparr>))
      = Some (Inl (IoError TimedOut (lit ''UDP flow idle'')))"
  by (rule srv_idle_watchdog [where tunnel = "stream_of [0, 1, 7] Stalls" and t = 0])
    (simp_all add: srv_udp_relay_def example_gateway_reachable, simp_all add: example_gateway_def)

end
