(* ===== verification/Tcp_Relay.thy ===== *)
theory Tcp_Relay
  imports World
begin

text \<open>
  The relays of TCP flows as step relations. \<open>copy_step\<close> is one direction, \<open>copy_with_activity\<close> of
  \<open>crates/proxy-server/src/server.rs\<close>; \<open>tcp_step\<close> is its \<open>relay_tcp\<close>: both directions under
  \<open>try_join!\<close>, raced against the watchdog \<open>wait_for_idle\<close>. \<open>client_tcp_step\<close> is \<open>relay_tcp\<close> of
  \<open>crates/proxy-client/src/relay.rs\<close>, the same two directions without a watchdog, over
  \<open>tokio::io::copy\<close>, which moves the same bytes in chunks of its own size.
\<close>

subsection \<open>One direction\<close>

datatype copy_pc =
    CopyReading                \<comment> \<open>in \<open>reader.read(&mut buffer)\<close>\<close>
  | CopyWriting bytes          \<comment> \<open>in \<open>writer.write_all(&buffer[..length])\<close>\<close>
  | CopyClosing                \<comment> \<open>in \<open>writer.shutdown()\<close>\<close>
  | CopyDone                   \<comment> \<open>returned \<open>Ok(())\<close>\<close>
  | CopyFailed io_error        \<comment> \<open>returned an error\<close>

record copier =
  cp_src :: bytes
  cp_dst :: bytes
  cp_fin :: bool
  cp_pc :: copy_pc

definition cp_start :: "bytes \<Rightarrow> copier" where
  "cp_start bs = \<lparr>cp_src = bs, cp_dst = [], cp_fin = False, cp_pc = CopyReading\<rparr>"

definition COPY_BUFFER :: nat where
  "COPY_BUFFER = 16 * 1024"

text \<open>
  \<open>cp_src\<close> is what the reader will still deliver before its end. A read returns some of it, at most
  a buffer; at the end it returns zero, and the writer is shut down. The boolean says whether the
  step completed a write, upon which \<open>copy_with_activity\<close> notifies the watchdog.
\<close>

inductive copy_step :: "nat \<Rightarrow> copier \<Rightarrow> bool \<Rightarrow> copier \<Rightarrow> bool" for buffer where
  Chunk: "\<lbrakk>cp_pc c = CopyReading; 0 < n; n \<le> buffer; n \<le> length (cp_src c)\<rbrakk> \<Longrightarrow>
   copy_step buffer c False
     (c\<lparr>cp_src := drop n (cp_src c), cp_pc := CopyWriting (take n (cp_src c))\<rparr>)"
| EndOfSource: "\<lbrakk>cp_pc c = CopyReading; cp_src c = []\<rbrakk> \<Longrightarrow>
   copy_step buffer c False (c\<lparr>cp_pc := CopyClosing\<rparr>)"
| ChunkFails: "cp_pc c = CopyReading \<Longrightarrow>
   copy_step buffer c False (c\<lparr>cp_pc := CopyFailed e\<rparr>)"
| Written: "cp_pc c = CopyWriting bs \<Longrightarrow>
   copy_step buffer c True (c\<lparr>cp_dst := cp_dst c @ bs, cp_pc := CopyReading\<rparr>)"
| WriteFails: "cp_pc c = CopyWriting bs \<Longrightarrow>
   copy_step buffer c False (c\<lparr>cp_dst := cp_dst c @ take k bs, cp_pc := CopyFailed e\<rparr>)"
| Closed: "cp_pc c = CopyClosing \<Longrightarrow>
   copy_step buffer c False (c\<lparr>cp_fin := True, cp_pc := CopyDone\<rparr>)"
| CloseFails: "cp_pc c = CopyClosing \<Longrightarrow>
   copy_step buffer c False (c\<lparr>cp_pc := CopyFailed e\<rparr>)"

inductive_cases copy_stepE: "copy_step buffer c wrote c'"

fun copy_pending :: "copy_pc \<Rightarrow> bytes" where
  "copy_pending (CopyWriting bs) = bs"
| "copy_pending _ = []"

text \<open>
  The bytes written are the first bytes of the source; unless the direction failed, nothing read is
  ever lost; and once the source's end was passed on, it was passed on complete.
\<close>

definition copy_inv :: "bytes \<Rightarrow> copier \<Rightarrow> bool" where
  "copy_inv src c \<longleftrightarrow>
     (\<exists>rest. cp_dst c @ rest = src) \<and>
     ((\<forall>e. cp_pc c \<noteq> CopyFailed e) \<longrightarrow> cp_dst c @ copy_pending (cp_pc c) @ cp_src c = src) \<and>
     (cp_pc c = CopyClosing \<or> cp_pc c = CopyDone \<longrightarrow> cp_src c = []) \<and>
     (cp_fin c \<longleftrightarrow> cp_pc c = CopyDone)"

lemma copy_inv_start: "copy_inv src (cp_start src)"
  by (simp add: copy_inv_def cp_start_def)

lemma copy_inv_step: "copy_step buffer c wrote c' \<Longrightarrow> copy_inv src c \<Longrightarrow> copy_inv src c'"
proof (induction rule: copy_step.induct)
  case (WriteFails c bs e k)
  then have "cp_dst c @ bs @ cp_src c = src" by (simp add: copy_inv_def)
  then have "(cp_dst c @ take k bs) @ drop k bs @ cp_src c = src"
    by (metis append.assoc append_take_drop_id)
  with WriteFails show ?case unfolding copy_inv_def by auto
qed (auto simp: copy_inv_def)

lemma copy_done_all: "copy_inv src c \<Longrightarrow> cp_pc c = CopyDone \<Longrightarrow> cp_dst c = src"
  by (auto simp: copy_inv_def)

text \<open>A direction whose reads, writes and shutdown succeed makes progress: the measure goes down.\<close>

definition copy_work :: "copier \<Rightarrow> nat" where
  "copy_work c = (case cp_pc c of
      CopyReading \<Rightarrow> 2 * length (cp_src c) + 2
    | CopyWriting bs \<Rightarrow> 2 * length (cp_src c) + 3
    | CopyClosing \<Rightarrow> 1
    | _ \<Rightarrow> 0)"

lemma copy_step_work: "copy_step buffer c wrote c' \<Longrightarrow> copy_work c' < copy_work c"
  by (induction rule: copy_step.induct) (auto simp: copy_work_def)

lemma copy_step_exists:
  assumes "0 < buffer" and "copy_work c \<noteq> 0"
  obtains wrote c' where "copy_step buffer c wrote c'" "\<forall>e. cp_pc c' \<noteq> CopyFailed e"
proof (cases "cp_pc c")
  case CopyReading
  show ?thesis
  proof (cases "cp_src c")
    case Nil
    with CopyReading show ?thesis by (intro that [OF EndOfSource]) auto
  next
    case (Cons b bs)
    with CopyReading assms(1) show ?thesis by (intro that [OF Chunk [where n = 1]]) auto
  qed
next
  case (CopyWriting bs)
  then show ?thesis by (intro that [OF Written]) auto
next
  case CopyClosing
  then show ?thesis by (intro that [OF Closed]) auto
qed (use assms in \<open>auto simp: copy_work_def\<close>)

subsection \<open>The proxy server's relay\<close>

text \<open>
  \<open>tr_permit\<close> is the permit of the \<open>Notify\<close>: \<open>notify_one\<close> stores at most one, \<open>notified()\<close> takes it.
  \<open>tr_deadline\<close> is the deadline of the pinned \<open>sleep\<close>. \<open>tr_moved\<close> is a history variable, the time
  at which the last write completed.
\<close>

record tcp_relay =
  tr_upload :: copier
  tr_download :: copier
  tr_permit :: bool
  tr_deadline :: nat
  tr_clock :: nat
  tr_result :: "(io_error + unit) option"
  tr_moved :: nat

definition tr_start :: "nat \<Rightarrow> bytes \<Rightarrow> bytes \<Rightarrow> tcp_relay" where
  "tr_start idle from_proxy from_upstream =
     \<lparr>tr_upload = cp_start from_proxy, tr_download = cp_start from_upstream,
      tr_permit = False, tr_deadline = idle, tr_clock = 0, tr_result = None, tr_moved = 0\<rparr>"

definition tr_wrote :: "bool \<Rightarrow> tcp_relay \<Rightarrow> tcp_relay" where
  "tr_wrote wrote s =
     (if wrote then s\<lparr>tr_permit := True, tr_moved := tr_clock s\<rparr> else s)"

text \<open>
  The two branches of \<open>wait_for_idle\<close>: a notification restarts the timer, its end ends the relay.
\<close>

definition tr_notified :: "nat \<Rightarrow> tcp_relay \<Rightarrow> tcp_relay" where
  "tr_notified idle s = s\<lparr>tr_permit := False, tr_deadline := tr_clock s + idle\<rparr>"

definition tr_elapsed :: "tcp_relay \<Rightarrow> tcp_relay" where
  "tr_elapsed s = s\<lparr>tr_result := Some (Inl (IoError TimedOut (lit ''TCP flow idle'')))\<rparr>"

text \<open>\<open>try_join!\<close>: the first error at once, success when both directions are done.\<close>

definition join_result :: "copier \<Rightarrow> copier \<Rightarrow> (io_error + unit) option" where
  "join_result up down = (case (cp_pc up, cp_pc down) of
      (CopyFailed e, _) \<Rightarrow> Some (Inl e)
    | (_, CopyFailed e) \<Rightarrow> Some (Inl e)
    | (CopyDone, CopyDone) \<Rightarrow> Some (Inr ())
    | _ \<Rightarrow> None)"

inductive tcp_step :: "nat \<Rightarrow> tcp_relay \<Rightarrow> tcp_relay \<Rightarrow> bool" for idle where
  Pass: "tr_result s = None \<Longrightarrow> tcp_step idle s (s\<lparr>tr_clock := tr_clock s + 1\<rparr>)"
| Upload: "\<lbrakk>tr_result s = None; copy_step COPY_BUFFER (tr_upload s) wrote up\<rbrakk> \<Longrightarrow>
   tcp_step idle s (tr_wrote wrote (s\<lparr>tr_upload := up\<rparr>))"
| Download: "\<lbrakk>tr_result s = None; copy_step COPY_BUFFER (tr_download s) wrote down\<rbrakk> \<Longrightarrow>
   tcp_step idle s (tr_wrote wrote (s\<lparr>tr_download := down\<rparr>))"
| Joined: "\<lbrakk>tr_result s = None; join_result (tr_upload s) (tr_download s) = Some r\<rbrakk> \<Longrightarrow>
   tcp_step idle s (s\<lparr>tr_result := Some r\<rparr>)"
| Notified: "\<lbrakk>tr_result s = None; tr_permit s\<rbrakk> \<Longrightarrow>
   tcp_step idle s (tr_notified idle s)"
| TimerFired: "\<lbrakk>tr_result s = None; \<not> tr_permit s; tr_deadline s \<le> tr_clock s\<rbrakk> \<Longrightarrow>
   tcp_step idle s (tr_elapsed s)"

definition tcp_reachable :: "nat \<Rightarrow> bytes \<Rightarrow> bytes \<Rightarrow> tcp_relay \<Rightarrow> bool" where
  "tcp_reachable idle from_proxy from_upstream s \<longleftrightarrow>
     (tcp_step idle)\<^sup>*\<^sup>* (tr_start idle from_proxy from_upstream) s"

definition watch_inv :: "nat \<Rightarrow> tcp_relay \<Rightarrow> bool" where
  "watch_inv idle s \<longleftrightarrow>
     tr_moved s \<le> tr_clock s \<and> (tr_permit s \<or> tr_moved s + idle \<le> tr_deadline s)"

definition streams_inv :: "bytes \<Rightarrow> bytes \<Rightarrow> tcp_relay \<Rightarrow> bool" where
  "streams_inv from_proxy from_upstream s \<longleftrightarrow>
     copy_inv from_proxy (tr_upload s) \<and> copy_inv from_upstream (tr_download s) \<and>
     (tr_result s = Some (Inr ()) \<longrightarrow>
        cp_pc (tr_upload s) = CopyDone \<and> cp_pc (tr_download s) = CopyDone)"

lemma watch_inv_step: "tcp_step idle s s' \<Longrightarrow> watch_inv idle s \<Longrightarrow> watch_inv idle s'"
  by (induction rule: tcp_step.induct)
    (auto simp: watch_inv_def tr_wrote_def tr_notified_def tr_elapsed_def)

lemma join_result_Ok:
  "join_result up down = Some (Inr ()) \<Longrightarrow> cp_pc up = CopyDone \<and> cp_pc down = CopyDone"
  by (auto simp: join_result_def split: copy_pc.splits)

lemma tr_wrote_sel [simp]:
  "tr_upload (tr_wrote w s) = tr_upload s" "tr_download (tr_wrote w s) = tr_download s"
  "tr_result (tr_wrote w s) = tr_result s"
  by (simp_all add: tr_wrote_def)

lemma streams_inv_step:
  "tcp_step idle s s' \<Longrightarrow> streams_inv a b s \<Longrightarrow> streams_inv a b s'"
  by (induction rule: tcp_step.induct)
    (auto simp: streams_inv_def tr_notified_def tr_elapsed_def
      dest: join_result_Ok intro: copy_inv_step)

lemma tcp_reachable_invs:
  "tcp_reachable idle a b s \<Longrightarrow> watch_inv idle s \<and> streams_inv a b s"
  unfolding tcp_reachable_def
proof (induction rule: rtranclp_induct)
  case base
  then show ?case
    by (simp add: watch_inv_def streams_inv_def tr_start_def copy_inv_start)
next
  case (step s s')
  then show ?case using watch_inv_step streams_inv_step by blast
qed

text \<open>The watchdog fires only when no write completed for \<open>idle\<close>.\<close>

lemma timer_safe:
  assumes "tcp_reachable idle a b s" and "\<not> tr_permit s" and "tr_deadline s \<le> tr_clock s"
  shows "tr_moved s + idle \<le> tr_clock s"
  using tcp_reachable_invs [OF assms(1)] assms(2,3) by (auto simp: watch_inv_def)

text \<open>What a relay that ends well has done.\<close>

lemma tcp_ok_complete:
  assumes "tcp_reachable idle a b s" and "tr_result s = Some (Inr ())"
  shows "cp_dst (tr_upload s) = a \<and> cp_dst (tr_download s) = b"
  using tcp_reachable_invs [OF assms(1)] assms(2) by (auto simp: streams_inv_def copy_done_all)

lemma tcp_prefix:
  assumes "tcp_reachable idle a b s"
  shows "(\<exists>x. cp_dst (tr_upload s) @ x = a) \<and> (\<exists>y. cp_dst (tr_download s) @ y = b)"
  using tcp_reachable_invs [OF assms] by (auto simp: streams_inv_def copy_inv_def)

text \<open>
  A direction that is done leaves the other alone: the flow goes on half closed until both are.
\<close>

lemma half_close_continues:
  assumes "cp_pc (tr_upload s) = CopyDone" and "copy_work (tr_download s) \<noteq> 0"
  shows "join_result (tr_upload s) (tr_download s) = None"
  using assms by (auto simp: join_result_def copy_work_def split: copy_pc.splits)

subsection \<open>The proxy client's relay\<close>

record client_relay =
  cr_upload :: copier
  cr_download :: copier
  cr_result :: "(io_error + unit) option"

definition cr_start :: "bytes \<Rightarrow> bytes \<Rightarrow> client_relay" where
  "cr_start from_local from_tunnel =
     \<lparr>cr_upload = cp_start from_local, cr_download = cp_start from_tunnel, cr_result = None\<rparr>"

inductive client_tcp_step :: "nat \<Rightarrow> client_relay \<Rightarrow> client_relay \<Rightarrow> bool" for buffer where
  ClientUpload: "\<lbrakk>cr_result s = None; copy_step buffer (cr_upload s) wrote up\<rbrakk> \<Longrightarrow>
   client_tcp_step buffer s (s\<lparr>cr_upload := up\<rparr>)"
| ClientDownload: "\<lbrakk>cr_result s = None; copy_step buffer (cr_download s) wrote down\<rbrakk> \<Longrightarrow>
   client_tcp_step buffer s (s\<lparr>cr_download := down\<rparr>)"
| ClientJoined: "\<lbrakk>cr_result s = None; join_result (cr_upload s) (cr_download s) = Some r\<rbrakk> \<Longrightarrow>
   client_tcp_step buffer s (s\<lparr>cr_result := Some r\<rparr>)"

definition client_tcp_relay :: "nat \<Rightarrow> bytes \<Rightarrow> bytes \<Rightarrow> client_relay \<Rightarrow> bool" where
  "client_tcp_relay buffer from_local from_tunnel s \<longleftrightarrow>
     (client_tcp_step buffer)\<^sup>*\<^sup>* (cr_start from_local from_tunnel) s"

definition client_streams_inv :: "bytes \<Rightarrow> bytes \<Rightarrow> client_relay \<Rightarrow> bool" where
  "client_streams_inv a b s \<longleftrightarrow>
     copy_inv a (cr_upload s) \<and> copy_inv b (cr_download s) \<and>
     (cr_result s = Some (Inr ()) \<longrightarrow>
        cp_pc (cr_upload s) = CopyDone \<and> cp_pc (cr_download s) = CopyDone)"

lemma client_streams_step:
  "client_tcp_step buffer s s' \<Longrightarrow> client_streams_inv a b s \<Longrightarrow> client_streams_inv a b s'"
  by (induction rule: client_tcp_step.induct)
    (auto simp: client_streams_inv_def dest: join_result_Ok intro: copy_inv_step)

lemma client_reachable_inv:
  "(client_tcp_step buffer)\<^sup>*\<^sup>* (cr_start a b) s \<Longrightarrow> client_streams_inv a b s"
proof (induction rule: rtranclp_induct)
  case base
  then show ?case by (simp add: client_streams_inv_def cr_start_def copy_inv_start)
next
  case (step s s')
  then show ?case using client_streams_step by blast
qed

text \<open>
  Every run ends: no schedule of the two directions goes on for ever, since each step does some of
  the work that is left.
\<close>

definition relay_work :: "client_relay \<Rightarrow> nat" where
  "relay_work s = copy_work (cr_upload s) + copy_work (cr_download s)
     + (if cr_result s = None then 1 else 0)"

lemma client_step_work: "client_tcp_step buffer s s' \<Longrightarrow> relay_work s' < relay_work s"
  by (induction rule: client_tcp_step.induct)
    (auto simp: relay_work_def dest: copy_step_work)

text \<open>And a run can always be completed, unless it already has a result.\<close>

lemma client_no_deadlock:
  assumes "0 < buffer" and "cr_result s = None"
  shows "\<exists>s'. client_tcp_step buffer s s'"
proof (cases "copy_work (cr_upload s) = 0 \<and> copy_work (cr_download s) = 0")
  case True
  then obtain r where "join_result (cr_upload s) (cr_download s) = Some r"
    by (auto simp: copy_work_def join_result_def split: copy_pc.splits)
  with assms(2) show ?thesis by (blast intro: ClientJoined)
next
  case False
  with assms show ?thesis
    by (metis copy_step_exists ClientUpload ClientDownload)
qed

lemma client_completes:
  assumes "0 < buffer"
  shows "\<exists>s'. (client_tcp_step buffer)\<^sup>*\<^sup>* s s' \<and> cr_result s' \<noteq> None"
proof (induction "relay_work s" arbitrary: s rule: less_induct)
  case less
  show ?case
  proof (cases "cr_result s")
    case None
    from client_no_deadlock [OF assms None] obtain s1 where "client_tcp_step buffer s s1" ..
    with less [OF client_step_work [OF this]] show ?thesis
      by (meson converse_rtranclp_into_rtranclp)
  qed auto
qed

subsection \<open>Properties of the relays\<close>

text \<open>A copied byte, for the examples: the states one direction passes through.\<close>

lemma copy_one_byte:
  assumes "0 < buffer"
  shows "copy_step buffer (cp_start [b]) False ((cp_start [b])\<lparr>cp_src := [], cp_pc := CopyWriting [b]\<rparr>)"
    "copy_step buffer ((cp_start [b])\<lparr>cp_src := [], cp_pc := CopyWriting [b]\<rparr>) True
      ((cp_start [])\<lparr>cp_dst := [b]\<rparr>)"
    "copy_step buffer ((cp_start [])\<lparr>cp_dst := bs\<rparr>) False
      ((cp_start [])\<lparr>cp_dst := bs, cp_pc := CopyClosing\<rparr>)"
    "copy_step buffer ((cp_start [])\<lparr>cp_dst := bs, cp_pc := CopyClosing\<rparr>) False
      ((cp_start [])\<lparr>cp_dst := bs, cp_pc := CopyDone, cp_fin := True\<rparr>)"
proof -
  show "copy_step buffer (cp_start [b]) False ((cp_start [b])\<lparr>cp_src := [], cp_pc := CopyWriting [b]\<rparr>)"
    using Chunk [of "cp_start [b]" 1 buffer] assms by (simp add: cp_start_def)
  show "copy_step buffer ((cp_start [b])\<lparr>cp_src := [], cp_pc := CopyWriting [b]\<rparr>) True
      ((cp_start [])\<lparr>cp_dst := [b]\<rparr>)"
    using Written [of "(cp_start [b])\<lparr>cp_src := [], cp_pc := CopyWriting [b]\<rparr>" "[b]" buffer]
    by (simp add: cp_start_def)
  show "copy_step buffer ((cp_start [])\<lparr>cp_dst := bs\<rparr>) False
      ((cp_start [])\<lparr>cp_dst := bs, cp_pc := CopyClosing\<rparr>)"
    using EndOfSource [of "(cp_start [])\<lparr>cp_dst := bs\<rparr>" buffer] by (simp add: cp_start_def)
  show "copy_step buffer ((cp_start [])\<lparr>cp_dst := bs, cp_pc := CopyClosing\<rparr>) False
      ((cp_start [])\<lparr>cp_dst := bs, cp_pc := CopyDone, cp_fin := True\<rparr>)"
    using Closed [of "(cp_start [])\<lparr>cp_dst := bs, cp_pc := CopyClosing\<rparr>" buffer]
    by (simp add: cp_start_def)
qed

definition tcp_example :: tcp_relay where
  "tcp_example =
     \<lparr>tr_upload = \<lparr>cp_src = [], cp_dst = [1], cp_fin = True, cp_pc = CopyDone\<rparr>,
      tr_download = \<lparr>cp_src = [], cp_dst = [], cp_fin = True, cp_pc = CopyDone\<rparr>,
      tr_permit = True, tr_deadline = 5, tr_clock = 0, tr_result = Some (Inr ()), tr_moved = 0\<rparr>"

lemma tcp_example_reachable: "tcp_reachable 5 [1] [] tcp_example"
proof -
  let ?s0 = "tr_start 5 [1] []"
  let ?s1 = "tr_wrote False (?s0\<lparr>tr_upload := (cp_start [1])\<lparr>cp_src := [], cp_pc := CopyWriting [1]\<rparr>\<rparr>)"
  let ?s2 = "tr_wrote True (?s1\<lparr>tr_upload := (cp_start [])\<lparr>cp_dst := [1]\<rparr>\<rparr>)"
  let ?s3 = "tr_wrote False (?s2\<lparr>tr_upload := (cp_start [])\<lparr>cp_dst := [1], cp_pc := CopyClosing\<rparr>\<rparr>)"
  let ?s4 = "tr_wrote False (?s3\<lparr>tr_upload :=
    (cp_start [])\<lparr>cp_dst := [1], cp_pc := CopyDone, cp_fin := True\<rparr>\<rparr>)"
  let ?s5 = "tr_wrote False (?s4\<lparr>tr_download := (cp_start [])\<lparr>cp_dst := [], cp_pc := CopyClosing\<rparr>\<rparr>)"
  let ?s6 = "tr_wrote False (?s5\<lparr>tr_download :=
    (cp_start [])\<lparr>cp_dst := [], cp_pc := CopyDone, cp_fin := True\<rparr>\<rparr>)"
  have pos: "0 < COPY_BUFFER" by (simp add: COPY_BUFFER_def)
  note moves = copy_one_byte [OF pos]
  have "tcp_step 5 ?s0 ?s1" by (rule Upload) (use moves(1) in \<open>simp_all add: tr_start_def\<close>)
  moreover have "tcp_step 5 ?s1 ?s2" by (rule Upload) (use moves(2) in \<open>simp_all add: tr_start_def\<close>)
  moreover have "tcp_step 5 ?s2 ?s3" by (rule Upload) (use moves(3) in \<open>simp_all add: tr_start_def\<close>)
  moreover have "tcp_step 5 ?s3 ?s4" by (rule Upload) (use moves(4) in \<open>simp_all add: tr_start_def\<close>)
  moreover have "tcp_step 5 ?s4 ?s5"
    by (rule Download) (use moves(3) [of "[]"] in \<open>simp_all add: tr_start_def cp_start_def\<close>)
  moreover have "tcp_step 5 ?s5 ?s6"
    by (rule Download) (use moves(4) in \<open>simp_all add: tr_start_def\<close>)
  moreover have "tcp_step 5 ?s6 (?s6\<lparr>tr_result := Some (Inr ())\<rparr>)"
    by (rule Joined) (simp_all add: tr_start_def join_result_def)
  ultimately have "(tcp_step 5)\<^sup>*\<^sup>* ?s0 (?s6\<lparr>tr_result := Some (Inr ())\<rparr>)"
    by (meson rtranclp.rtrancl_into_rtrancl rtranclp.rtrancl_refl)
  moreover have "?s6\<lparr>tr_result := Some (Inr ())\<rparr> = tcp_example"
    by (simp add: tcp_example_def tr_wrote_def tr_start_def cp_start_def)
  ultimately show ?thesis by (simp add: tcp_reachable_def)
qed

text \<open>
  A TCP relay of the proxy server that ends with success has delivered both streams
  completely and unchanged, and at every moment of every relay what was delivered is a beginning
  of what was sent.
\<close>

lemma srv_tcp_faithful:
  assumes "tcp_reachable idle from_proxy from_upstream s"
  shows "(\<exists>x. cp_dst (tr_upload s) @ x = from_proxy) \<and>
    (\<exists>y. cp_dst (tr_download s) @ y = from_upstream) \<and>
    (tr_result s = Some (Inr ()) \<longrightarrow>
      cp_dst (tr_upload s) = from_proxy \<and> cp_dst (tr_download s) = from_upstream)"
  using tcp_prefix [OF assms] tcp_ok_complete [OF assms] by blast

lemma srv_tcp_faithful_witness:
  "(\<exists>x. cp_dst (tr_upload tcp_example) @ x = [1]) \<and>
    (\<exists>y. cp_dst (tr_download tcp_example) @ y = []) \<and>
    cp_dst (tr_upload tcp_example) = [1] \<and> cp_dst (tr_download tcp_example) = []"
proof -
  have "tr_result tcp_example = Some (Inr ())" by (simp add: tcp_example_def)
  with srv_tcp_faithful [OF tcp_example_reachable] show ?thesis by blast
qed

text \<open>
  C19: the watchdog of the proxy server's relay kills a flow only when no write completed in
  either direction for the whole of \<open>idle\<close>, whatever the order in which notification
  and timer are seen.
\<close>

theorem srv_watchdog_safe:
  assumes "tcp_reachable idle from_proxy from_upstream s" and "tcp_step idle s s'"
    and "tr_result s' = Some (Inl (IoError TimedOut (lit ''TCP flow idle'')))"
    and "join_result (tr_upload s) (tr_download s) = None"
  shows "tr_moved s + idle \<le> tr_clock s"
  using assms(2)
proof (cases rule: tcp_step.cases)
  case TimerFired
  with timer_safe [OF assms(1)] show ?thesis by simp
qed (use assms(3,4) in \<open>auto simp: tr_notified_def\<close>)

theorem srv_watchdog_safe_witness:
  "tr_moved (tr_start 0 [1] []) + 0 \<le> tr_clock (tr_start 0 [1] [])"
proof (rule srv_watchdog_safe)
  show "tcp_reachable 0 [1] [] (tr_start 0 [1] [])" by (simp add: tcp_reachable_def)
  show "tcp_step 0 (tr_start 0 [1] []) (tr_elapsed (tr_start 0 [1] []))"
    by (rule TimerFired) (simp_all add: tr_start_def)
qed (simp_all add: tr_elapsed_def tr_start_def join_result_def cp_start_def)



end
