(* ===== verification/Tcp_Flow.thy ===== *)
theory Tcp_Flow
  imports Tcp_Relay
begin

text \<open>
  A TCP flow from one end to the other: \<open>relay_tcp\<close> of the proxy client
  (\<open>crates/proxy-client/src/relay.rs\<close>) and \<open>relay_tcp\<close> of the proxy server
  (\<open>crates/proxy-server/src/server.rs\<close>) at work at the same time, each reading what the other writes
  into the tunnel. Both relays own their halves of the tunnel and drop them when they return, also
  with an error; the peer then reads an end like that of a shutdown (quinn finishes a stream that
  is dropped, and both gRPC pumps take an error for the end).
\<close>

subsection \<open>Two relays over a tunnel\<close>

record proxy_flow =
  pf_client :: client_relay
  pf_server :: tcp_relay

definition pf_start :: "nat \<Rightarrow> bytes \<Rightarrow> bytes \<Rightarrow> proxy_flow" where
  "pf_start idle from_app from_target =
     \<lparr>pf_client = cr_start from_app [], pf_server = tr_start idle [] from_target\<rparr>"

text \<open>
  What a writer wrote between two states is added to what the reader at the other end of the
  tunnel has still to read; and whether a step of the reader took an end for the end of the stream.
\<close>

definition fed :: "copier \<Rightarrow> copier \<Rightarrow> copier \<Rightarrow> copier" where
  "fed w w' r = r\<lparr>cp_src := cp_src r @ drop (length (cp_dst w)) (cp_dst w')\<rparr>"

definition saw_end :: "copier \<Rightarrow> copier \<Rightarrow> bool" where
  "saw_end r r' \<longleftrightarrow> cp_pc r = CopyReading \<and> cp_pc r' = CopyClosing"

inductive flow_step :: "nat \<Rightarrow> nat \<Rightarrow> proxy_flow \<Rightarrow> proxy_flow \<Rightarrow> bool" for idle buffer where
  ClientSide: "\<lbrakk>client_tcp_step buffer (pf_client f) c';
     saw_end (cr_download (pf_client f)) (cr_download c') \<Longrightarrow>
       cp_fin (tr_download (pf_server f)) \<or> tr_result (pf_server f) \<noteq> None\<rbrakk> \<Longrightarrow>
   flow_step idle buffer f \<lparr>pf_client = c', pf_server = (pf_server f)\<lparr>tr_upload :=
     fed (cr_upload (pf_client f)) (cr_upload c') (tr_upload (pf_server f))\<rparr>\<rparr>"
| ServerSide: "\<lbrakk>tcp_step idle (pf_server f) s';
     saw_end (tr_upload (pf_server f)) (tr_upload s') \<Longrightarrow>
       cp_fin (cr_upload (pf_client f)) \<or> cr_result (pf_client f) \<noteq> None\<rbrakk> \<Longrightarrow>
   flow_step idle buffer f \<lparr>pf_client = (pf_client f)\<lparr>cr_download :=
     fed (tr_download (pf_server f)) (tr_download s') (cr_download (pf_client f))\<rparr>, pf_server = s'\<rparr>"

definition flow_reachable :: "nat \<Rightarrow> nat \<Rightarrow> bytes \<Rightarrow> bytes \<Rightarrow> proxy_flow \<Rightarrow> bool" where
  "flow_reachable idle buffer from_app from_target f \<longleftrightarrow>
     (flow_step idle buffer)\<^sup>*\<^sup>* (pf_start idle from_app from_target) f"

text \<open>What the target and the application have been given, and whether they were given an end.\<close>

definition target_got :: "proxy_flow \<Rightarrow> bytes" where
  "target_got f = cp_dst (tr_upload (pf_server f))"

definition target_closed :: "proxy_flow \<Rightarrow> bool" where
  "target_closed f \<longleftrightarrow> cp_fin (tr_upload (pf_server f))"

definition app_got :: "proxy_flow \<Rightarrow> bytes" where
  "app_got f = cp_dst (cr_download (pf_client f))"

definition app_closed :: "proxy_flow \<Rightarrow> bool" where
  "app_closed f \<longleftrightarrow> cp_fin (cr_download (pf_client f))"

subsection \<open>One direction across the tunnel\<close>

text \<open>
  \<open>w\<close> writes into the tunnel what it reads from \<open>src\<close>, and \<open>r\<close> reads it there. \<open>gone\<close> says that the
  relay of \<open>w\<close> has returned.
\<close>

definition chain_inv :: "bytes \<Rightarrow> bool \<Rightarrow> copier \<Rightarrow> copier \<Rightarrow> bool" where
  "chain_inv src gone w r \<longleftrightarrow> copy_inv src w \<and> copy_inv (cp_dst w) r \<and>
     (cp_pc r = CopyClosing \<or> cp_pc r = CopyDone \<longrightarrow> cp_fin w \<or> gone)"

lemma chain_inv_start: "chain_inv src False (cp_start src) (cp_start [])"
  by (simp add: chain_inv_def copy_inv_def cp_start_def)

lemma fed_same [simp]: "fed w w r = r"
  by (simp add: fed_def)

lemma fed_sel [simp]: "cp_dst (fed w w' r) = cp_dst r" "cp_pc (fed w w' r) = cp_pc r"
  "cp_fin (fed w w' r) = cp_fin r"
  by (simp_all add: fed_def)

lemma copy_step_appends: "copy_step buffer w wrote w' \<Longrightarrow> \<exists>bs. cp_dst w' = cp_dst w @ bs"
  by (induction rule: copy_step.induct) auto

lemma copy_step_not_done: "copy_step buffer w wrote w' \<Longrightarrow> cp_pc w \<noteq> CopyDone"
  by (induction rule: copy_step.induct) auto

lemma chain_writes:
  assumes "copy_step buffer w wrote w'" and "chain_inv src False w r"
  shows "chain_inv src False w' (fed w w' r)"
proof -
  from copy_step_appends [OF assms(1)] obtain bs where bs: "cp_dst w' = cp_dst w @ bs" ..
  from copy_step_not_done [OF assms(1)] assms(2) have "\<not> cp_fin w"
    by (simp add: chain_inv_def copy_inv_def)
  with assms(2) have open_r: "cp_pc r \<noteq> CopyClosing" "cp_pc r \<noteq> CopyDone" "copy_inv (cp_dst w) r"
    by (auto simp: chain_inv_def)
  from open_r(3) obtain rest where "cp_dst r @ rest = cp_dst w" by (auto simp: copy_inv_def)
  then have "cp_dst r @ (rest @ bs) = cp_dst w @ bs" by (metis append.assoc)
  then have "\<exists>rest. cp_dst r @ rest = cp_dst w @ bs" ..
  with open_r have "copy_inv (cp_dst w') (fed w w' r)"
    unfolding copy_inv_def bs by (auto simp: fed_def bs)
  with open_r copy_inv_step [OF assms(1)] assms(2) show ?thesis by (auto simp: chain_inv_def)
qed

lemma closing_or_end:
  "copy_step buffer r wrote r' \<Longrightarrow> cp_pc r' = CopyClosing \<or> cp_pc r' = CopyDone \<Longrightarrow>
    cp_pc r = CopyClosing \<or> saw_end r r'"
  by (induction rule: copy_step.induct) (auto simp: saw_end_def)

lemma chain_reads:
  assumes "copy_step buffer r wrote r'" and "chain_inv src gone w r"
    and "saw_end r r' \<Longrightarrow> cp_fin w \<or> gone"
  shows "chain_inv src gone w r'"
  using assms copy_inv_step [OF assms(1)] closing_or_end [OF assms(1)]
  by (auto simp: chain_inv_def)

lemma chain_gone: "chain_inv src False w r \<Longrightarrow> chain_inv src gone w r"
  by (auto simp: chain_inv_def)

lemma chain_delivers:
  assumes "chain_inv src gone w r"
  shows "\<exists>x. cp_dst r @ x = src" and "cp_fin r \<Longrightarrow> cp_fin w \<or> \<not> gone \<Longrightarrow> cp_dst r = src"
proof -
  from assms obtain x y where "cp_dst r @ x = cp_dst w" "cp_dst w @ y = src"
    unfolding chain_inv_def copy_inv_def by blast
  then have "cp_dst r @ (x @ y) = src" by (metis append.assoc)
  then show "\<exists>x. cp_dst r @ x = src" ..
  assume "cp_fin r" "cp_fin w \<or> \<not> gone"
  with assms have "copy_inv (cp_dst w) r" "copy_inv src w" "cp_fin w" "cp_pc r = CopyDone"
    unfolding chain_inv_def copy_inv_def by blast+
  moreover from this have "cp_pc w = CopyDone" by (simp add: copy_inv_def)
  ultimately show "cp_dst r = src" by (simp add: copy_done_all)
qed

lemma chain_fin:
  assumes "chain_inv src gone w r"
  shows "cp_fin w \<longleftrightarrow> cp_pc w = CopyDone" "cp_fin r \<longleftrightarrow> cp_pc r = CopyDone"
  using assms unfolding chain_inv_def copy_inv_def by blast+

subsection \<open>Both directions\<close>

definition flow_inv :: "bytes \<Rightarrow> bytes \<Rightarrow> client_relay \<Rightarrow> tcp_relay \<Rightarrow> bool" where
  "flow_inv from_app from_target c s \<longleftrightarrow>
     chain_inv from_app (cr_result c \<noteq> None) (cr_upload c) (tr_upload s) \<and>
     chain_inv from_target (tr_result s \<noteq> None) (tr_download s) (cr_download c) \<and>
     (cr_result c = Some (Inr ()) \<longrightarrow> cp_pc (cr_upload c) = CopyDone \<and> cp_pc (cr_download c) = CopyDone) \<and>
     (tr_result s = Some (Inr ()) \<longrightarrow> cp_pc (tr_upload s) = CopyDone \<and> cp_pc (tr_download s) = CopyDone)"

lemma client_side_inv:
  assumes "client_tcp_step buffer c c'" and "flow_inv a b c s"
    and "saw_end (cr_download c) (cr_download c') \<Longrightarrow> cp_fin (tr_download s) \<or> tr_result s \<noteq> None"
  shows "flow_inv a b c' (s\<lparr>tr_upload := fed (cr_upload c) (cr_upload c') (tr_upload s)\<rparr>)"
  using assms(1)
proof cases
  case (ClientUpload wrote up)
  with assms(2) chain_writes [of buffer "cr_upload c" wrote up] show ?thesis
    by (auto simp: flow_inv_def)
next
  case (ClientDownload wrote down)
  with assms(2,3) chain_reads [of buffer "cr_download c" wrote down] show ?thesis
    by (auto simp: flow_inv_def)
next
  case (ClientJoined r)
  with assms(2) show ?thesis
    by (auto simp: flow_inv_def dest: join_result_Ok intro: chain_gone)
qed

lemma server_side_inv:
  assumes "tcp_step idle s s'" and "flow_inv a b c s"
    and "saw_end (tr_upload s) (tr_upload s') \<Longrightarrow> cp_fin (cr_upload c) \<or> cr_result c \<noteq> None"
  shows "flow_inv a b (c\<lparr>cr_download := fed (tr_download s) (tr_download s') (cr_download c)\<rparr>) s'"
  using assms(1)
proof cases
  case (Upload wrote up)
  with assms(2,3) chain_reads [of COPY_BUFFER "tr_upload s" wrote up] show ?thesis
    by (auto simp: flow_inv_def)
next
  case (Download wrote down)
  with assms(2) chain_writes [of COPY_BUFFER "tr_download s" wrote down] show ?thesis
    by (auto simp: flow_inv_def)
next
  case (Joined r)
  with assms(2) show ?thesis
    by (auto simp: flow_inv_def dest: join_result_Ok intro: chain_gone)
next
  case TimerFired
  with assms(2) show ?thesis by (auto simp: flow_inv_def tr_elapsed_def intro: chain_gone)
qed (use assms(2) in \<open>auto simp: flow_inv_def tr_notified_def\<close>)

lemma flow_step_inv:
  "flow_step idle buffer f f' \<Longrightarrow> flow_inv a b (pf_client f) (pf_server f) \<Longrightarrow>
    flow_inv a b (pf_client f') (pf_server f')"
  by (induction rule: flow_step.induct) (simp_all add: client_side_inv server_side_inv)

lemma flow_reachable_inv:
  "flow_reachable idle buffer a b f \<Longrightarrow> flow_inv a b (pf_client f) (pf_server f)"
  unfolding flow_reachable_def
proof (induction rule: rtranclp_induct)
  case base
  then show ?case
    by (simp add: pf_start_def flow_inv_def cr_start_def tr_start_def chain_inv_start)
next
  case (step f f')
  then show ?case by (blast intro: flow_step_inv)
qed

subsection \<open>Runs\<close>

text \<open>One direction that is left to itself drains its source; and such moves are moves of the flow.\<close>

definition copy_moves :: "nat \<Rightarrow> copier \<Rightarrow> copier \<Rightarrow> bool" where
  "copy_moves buffer c c' \<longleftrightarrow> (\<exists>wrote. copy_step buffer c wrote c')"

definition drained :: "copier \<Rightarrow> copier" where
  "drained c = c\<lparr>cp_src := [], cp_dst := cp_dst c @ cp_src c, cp_fin := True, cp_pc := CopyDone\<rparr>"

lemma drained_sel [simp]: "cp_dst (drained c) = cp_dst c @ cp_src c" "cp_fin (drained c)"
  "cp_pc (drained c) = CopyDone"
  by (simp_all add: drained_def)

lemma copy_closes:
  assumes "cp_pc c = CopyReading" and "cp_src c = []"
  shows "(copy_moves buffer)\<^sup>*\<^sup>* c (drained c)"
proof -
  have "copy_moves buffer c (c\<lparr>cp_pc := CopyClosing\<rparr>)"
    using EndOfSource [OF assms] by (auto simp: copy_moves_def)
  moreover have "copy_moves buffer (c\<lparr>cp_pc := CopyClosing\<rparr>) (drained c)"
    using Closed [of "c\<lparr>cp_pc := CopyClosing\<rparr>" buffer] assms(2)
    by (cases c) (auto simp: copy_moves_def drained_def)
  ultimately show ?thesis by (meson r_into_rtranclp rtranclp_trans)
qed

lemma copy_forwards:
  assumes "cp_pc c = CopyReading" and "cp_src c = b # bs" and "0 < buffer"
  shows "(copy_moves buffer)\<^sup>*\<^sup>* c (c\<lparr>cp_src := bs, cp_dst := cp_dst c @ [b]\<rparr>)"
proof -
  have "copy_moves buffer c (c\<lparr>cp_src := bs, cp_pc := CopyWriting [b]\<rparr>)"
    using Chunk [of c 1 buffer] assms by (auto simp: copy_moves_def)
  moreover have "copy_moves buffer (c\<lparr>cp_src := bs, cp_pc := CopyWriting [b]\<rparr>)
      (c\<lparr>cp_src := bs, cp_dst := cp_dst c @ [b]\<rparr>)"
    using Written [of "c\<lparr>cp_src := bs, cp_pc := CopyWriting [b]\<rparr>" "[b]" buffer] assms(1)
    by (cases c) (auto simp: copy_moves_def)
  ultimately show ?thesis by (meson r_into_rtranclp rtranclp_trans)
qed

lemma copy_drains:
  assumes "0 < buffer"
  shows "cp_pc c = CopyReading \<Longrightarrow> (copy_moves buffer)\<^sup>*\<^sup>* c (drained c)"
proof (induction "cp_src c" arbitrary: c)
  case Nil
  then show ?case by (simp add: copy_closes)
next
  case (Cons b bs)
  let ?c = "c\<lparr>cp_src := bs, cp_dst := cp_dst c @ [b]\<rparr>"
  from Cons.hyps(2) have src: "cp_src c = b # bs" ..
  from Cons.hyps(1) [of ?c] Cons.prems have "(copy_moves buffer)\<^sup>*\<^sup>* ?c (drained ?c)" by simp
  moreover from src have "drained ?c = drained c" by (simp add: drained_def)
  ultimately show ?case using copy_forwards [OF Cons.prems src assms] by simp
qed

lemma copy_moves_append: "(copy_moves buffer)\<^sup>*\<^sup>* w w' \<Longrightarrow> \<exists>bs. cp_dst w' = cp_dst w @ bs"
proof (induction rule: rtranclp_induct)
  case (step w' w'')
  then show ?case using copy_step_appends by (fastforce simp: copy_moves_def)
qed simp

lemma fed_fed:
  assumes "(copy_moves buffer)\<^sup>*\<^sup>* w w'" and "copy_moves buffer w' w''"
  shows "fed w' w'' (fed w w' r) = fed w w'' r"
proof -
  from copy_moves_append [OF assms(1)] obtain xs where "cp_dst w' = cp_dst w @ xs" ..
  moreover from copy_moves_append [OF r_into_rtranclp, OF assms(2)] obtain ys where
      "cp_dst w'' = cp_dst w' @ ys" ..
  ultimately show ?thesis by (simp add: fed_def)
qed

lemma saw_end_same [simp]: "\<not> saw_end r r"
  by (auto simp: saw_end_def)

lemma client_uploads:
  assumes "(copy_moves buffer)\<^sup>*\<^sup>* (cr_upload c) w" and "cr_result c = None"
  shows "(flow_step idle buffer)\<^sup>*\<^sup>* \<lparr>pf_client = c, pf_server = s\<rparr>
    \<lparr>pf_client = c\<lparr>cr_upload := w\<rparr>, pf_server = s\<lparr>tr_upload := fed (cr_upload c) w (tr_upload s)\<rparr>\<rparr>"
  using assms(1)
proof (induction rule: rtranclp_induct)
  case (step w w')
  from step.hyps(2) obtain wrote where "copy_step buffer w wrote w'" by (auto simp: copy_moves_def)
  with assms(2) have "client_tcp_step buffer (c\<lparr>cr_upload := w\<rparr>) (c\<lparr>cr_upload := w'\<rparr>)"
    using client_tcp_step.ClientUpload [of "c\<lparr>cr_upload := w\<rparr>" buffer wrote w'] by simp
  from flow_step.ClientSide [where idle = idle and f = "\<lparr>pf_client = c\<lparr>cr_upload := w\<rparr>,
      pf_server = s\<lparr>tr_upload := fed (cr_upload c) w (tr_upload s)\<rparr>\<rparr>", simplified, OF this]
  have "flow_step idle buffer
      \<lparr>pf_client = c\<lparr>cr_upload := w\<rparr>, pf_server = s\<lparr>tr_upload := fed (cr_upload c) w (tr_upload s)\<rparr>\<rparr>
      \<lparr>pf_client = c\<lparr>cr_upload := w'\<rparr>, pf_server = s\<lparr>tr_upload := fed (cr_upload c) w' (tr_upload s)\<rparr>\<rparr>"
    by (simp add: fed_fed [OF step.hyps(1,2)])
  with step.IH show ?case by (rule rtranclp.rtrancl_into_rtrancl)
qed simp

lemma client_downloads:
  assumes "(copy_moves buffer)\<^sup>*\<^sup>* (cr_download c) w" and "cr_result c = None" and "cp_fin (tr_download s)"
  shows "(flow_step idle buffer)\<^sup>*\<^sup>* \<lparr>pf_client = c, pf_server = s\<rparr>
    \<lparr>pf_client = c\<lparr>cr_download := w\<rparr>, pf_server = s\<rparr>"
  using assms(1)
proof (induction rule: rtranclp_induct)
  case (step w w')
  from step.hyps(2) obtain wrote where "copy_step buffer w wrote w'" by (auto simp: copy_moves_def)
  with assms(2) have "client_tcp_step buffer (c\<lparr>cr_download := w\<rparr>) (c\<lparr>cr_download := w'\<rparr>)"
    using client_tcp_step.ClientDownload [of "c\<lparr>cr_download := w\<rparr>" buffer wrote w'] by simp
  from flow_step.ClientSide [where idle = idle and f = "\<lparr>pf_client = c\<lparr>cr_download := w\<rparr>, pf_server = s\<rparr>",
      simplified, OF this] assms(3)
  have "flow_step idle buffer \<lparr>pf_client = c\<lparr>cr_download := w\<rparr>, pf_server = s\<rparr>
      \<lparr>pf_client = c\<lparr>cr_download := w'\<rparr>, pf_server = s\<rparr>"
    by simp
  with step.IH show ?case by (rule rtranclp.rtrancl_into_rtrancl)
qed simp

lemma server_uploads:
  assumes "(copy_moves COPY_BUFFER)\<^sup>*\<^sup>* (tr_upload s) w" and "tr_result s = None"
    and "cp_fin (cr_upload c) \<or> cr_result c \<noteq> None"
  shows "\<exists>s'. (flow_step idle buffer)\<^sup>*\<^sup>* \<lparr>pf_client = c, pf_server = s\<rparr> \<lparr>pf_client = c, pf_server = s'\<rparr> \<and>
    tr_upload s' = w \<and> tr_download s' = tr_download s \<and> tr_result s' = None"
  using assms(1)
proof (induction rule: rtranclp_induct)
  case base
  with assms(2) show ?case by blast
next
  case (step w w')
  from step.IH obtain s' where s': "(flow_step idle buffer)\<^sup>*\<^sup>* \<lparr>pf_client = c, pf_server = s\<rparr>
      \<lparr>pf_client = c, pf_server = s'\<rparr>" "tr_upload s' = w" "tr_download s' = tr_download s"
      "tr_result s' = None"
    by blast
  from step.hyps(2) s'(2) obtain wrote where "copy_step COPY_BUFFER (tr_upload s') wrote w'"
    by (auto simp: copy_moves_def)
  from tcp_step.Upload [OF s'(4) this, of idle] assms(3)
  have "flow_step idle buffer \<lparr>pf_client = c, pf_server = s'\<rparr>
      \<lparr>pf_client = c, pf_server = tr_wrote wrote (s'\<lparr>tr_upload := w'\<rparr>)\<rparr>"
    using flow_step.ServerSide [where f = "\<lparr>pf_client = c, pf_server = s'\<rparr>" and buffer = buffer
        and idle = idle and s' = "tr_wrote wrote (s'\<lparr>tr_upload := w'\<rparr>)"] by simp
  with s' show ?case
    by (intro exI [of _ "tr_wrote wrote (s'\<lparr>tr_upload := w'\<rparr>)"])
      (auto intro: rtranclp.rtrancl_into_rtrancl)
qed

lemma server_downloads:
  assumes "(copy_moves COPY_BUFFER)\<^sup>*\<^sup>* (tr_download s) w" and "tr_result s = None"
  shows "\<exists>s'. (flow_step idle buffer)\<^sup>*\<^sup>* \<lparr>pf_client = c, pf_server = s\<rparr>
      \<lparr>pf_client = c\<lparr>cr_download := fed (tr_download s) w (cr_download c)\<rparr>, pf_server = s'\<rparr> \<and>
    tr_download s' = w \<and> tr_upload s' = tr_upload s \<and> tr_result s' = None"
  using assms(1)
proof (induction rule: rtranclp_induct)
  case base
  from assms(2) show ?case by (intro exI [of _ s]) simp
next
  case (step w w')
  let ?c = "c\<lparr>cr_download := fed (tr_download s) w (cr_download c)\<rparr>"
  from step.IH obtain s' where s': "(flow_step idle buffer)\<^sup>*\<^sup>* \<lparr>pf_client = c, pf_server = s\<rparr>
      \<lparr>pf_client = ?c, pf_server = s'\<rparr>" "tr_download s' = w" "tr_upload s' = tr_upload s"
      "tr_result s' = None"
    by blast
  from step.hyps(2) s'(2) obtain wrote where "copy_step COPY_BUFFER (tr_download s') wrote w'"
    by (auto simp: copy_moves_def)
  from tcp_step.Download [OF s'(4) this, of idle]
  have "flow_step idle buffer \<lparr>pf_client = ?c, pf_server = s'\<rparr>
      \<lparr>pf_client = c\<lparr>cr_download := fed (tr_download s) w' (cr_download c)\<rparr>,
       pf_server = tr_wrote wrote (s'\<lparr>tr_download := w'\<rparr>)\<rparr>"
    using flow_step.ServerSide [where f = "\<lparr>pf_client = ?c, pf_server = s'\<rparr>" and buffer = buffer
        and idle = idle and s' = "tr_wrote wrote (s'\<lparr>tr_download := w'\<rparr>)"] s'(2)
    by (simp add: fed_fed [OF step.hyps(1,2)])
  with s' show ?case
    by (intro exI [of _ "tr_wrote wrote (s'\<lparr>tr_download := w'\<rparr>)"])
      (auto intro: rtranclp.rtrancl_into_rtrancl)
qed

lemma fed_start [simp]: "fed (cp_start bs) (drained (cp_start bs)) (cp_start []) = cp_start bs"
  by (simp add: fed_def drained_def cp_start_def)

lemma cp_start_reading [simp]: "cp_pc (cp_start bs) = CopyReading" "cp_src (cp_start bs) = bs"
  "cp_dst (cp_start bs) = []"
  by (simp_all add: cp_start_def)

lemma flow_joins:
  assumes "cr_result c = None" "tr_result s = None"
    and "join_result (cr_upload c) (cr_download c) = Some r"
    and "join_result (tr_upload s) (tr_download s) = Some r'"
  shows "(flow_step idle buffer)\<^sup>*\<^sup>* \<lparr>pf_client = c, pf_server = s\<rparr>
    \<lparr>pf_client = c\<lparr>cr_result := Some r\<rparr>, pf_server = s\<lparr>tr_result := Some r'\<rparr>\<rparr>"
proof -
  have "flow_step idle buffer \<lparr>pf_client = c, pf_server = s\<rparr>
      \<lparr>pf_client = c\<lparr>cr_result := Some r\<rparr>, pf_server = s\<rparr>"
    using flow_step.ClientSide [where f = "\<lparr>pf_client = c, pf_server = s\<rparr>" and idle = idle,
        OF client_tcp_step.ClientJoined, of r buffer] assms(1,3) by simp
  moreover have "flow_step idle buffer \<lparr>pf_client = c\<lparr>cr_result := Some r\<rparr>, pf_server = s\<rparr>
      \<lparr>pf_client = c\<lparr>cr_result := Some r\<rparr>, pf_server = s\<lparr>tr_result := Some r'\<rparr>\<rparr>"
    using flow_step.ServerSide [where f = "\<lparr>pf_client = c\<lparr>cr_result := Some r\<rparr>, pf_server = s\<rparr>"
        and buffer = buffer, OF tcp_step.Joined, of r' idle] assms(2,4) by simp
  ultimately show ?thesis by (meson r_into_rtranclp rtranclp_trans)
qed

text \<open>Whatever the two streams are, they can be relayed completely, and both relays end well.\<close>

lemma flow_completes:
  assumes "0 < buffer"
  obtains f where "flow_reachable idle buffer a b f" "target_got f = a" "target_closed f"
    "app_got f = b" "app_closed f" "cr_result (pf_client f) = Some (Inr ())"
    "tr_result (pf_server f) = Some (Inr ())"
proof -
  have pos: "0 < COPY_BUFFER" by (simp add: COPY_BUFFER_def)
  let ?c0 = "cr_start a []" and ?s0 = "tr_start idle [] b"
  let ?c1 = "?c0\<lparr>cr_upload := drained (cp_start a)\<rparr>" and ?s1 = "?s0\<lparr>tr_upload := cp_start a\<rparr>"
  have one: "(flow_step idle buffer)\<^sup>*\<^sup>* \<lparr>pf_client = ?c0, pf_server = ?s0\<rparr>
      \<lparr>pf_client = ?c1, pf_server = ?s1\<rparr>"
    using client_uploads [of buffer ?c0 "drained (cp_start a)" idle ?s0] copy_drains [OF assms, of "cp_start a"]
    by (simp add: cr_start_def tr_start_def)
  obtain s2 where two: "(flow_step idle buffer)\<^sup>*\<^sup>* \<lparr>pf_client = ?c1, pf_server = ?s1\<rparr>
      \<lparr>pf_client = ?c1, pf_server = s2\<rparr>" "tr_upload s2 = drained (cp_start a)"
      "tr_download s2 = cp_start b" "tr_result s2 = None"
    using server_uploads [of ?s1 "drained (cp_start a)" ?c1 idle buffer] copy_drains [OF pos, of "cp_start a"]
    by (auto simp: cr_start_def tr_start_def)
  let ?c3 = "?c1\<lparr>cr_download := cp_start b\<rparr>"
  obtain s3 where three: "(flow_step idle buffer)\<^sup>*\<^sup>* \<lparr>pf_client = ?c1, pf_server = s2\<rparr>
      \<lparr>pf_client = ?c3, pf_server = s3\<rparr>" "tr_download s3 = drained (cp_start b)"
      "tr_upload s3 = drained (cp_start a)" "tr_result s3 = None"
    using server_downloads [of s2 "drained (cp_start b)" idle buffer ?c1] two(2-4)
      copy_drains [OF pos, of "cp_start b"]
    by (auto simp: cr_start_def)
  let ?c4 = "?c3\<lparr>cr_download := drained (cp_start b)\<rparr>"
  have four: "(flow_step idle buffer)\<^sup>*\<^sup>* \<lparr>pf_client = ?c3, pf_server = s3\<rparr>
      \<lparr>pf_client = ?c4, pf_server = s3\<rparr>"
    by (rule client_downloads) (simp_all add: three(2) copy_drains [OF assms] cr_start_def)
  have five: "(flow_step idle buffer)\<^sup>*\<^sup>* \<lparr>pf_client = ?c4, pf_server = s3\<rparr>
      \<lparr>pf_client = ?c4\<lparr>cr_result := Some (Inr ())\<rparr>, pf_server = s3\<lparr>tr_result := Some (Inr ())\<rparr>\<rparr>"
    by (rule flow_joins) (simp_all add: three join_result_def cr_start_def)
  from one two(1) three(1) four five have "flow_reachable idle buffer a b
      \<lparr>pf_client = ?c4\<lparr>cr_result := Some (Inr ())\<rparr>, pf_server = s3\<lparr>tr_result := Some (Inr ())\<rparr>\<rparr>"
    unfolding flow_reachable_def pf_start_def by (meson rtranclp_trans)
  then show thesis
    by (rule that) (simp_all add: target_got_def target_closed_def app_got_def app_closed_def three)
qed

text \<open>
  When the application's stream breaks off, the client's relay fails and drops the tunnel; the
  target is given the bytes so far, and then an end like that of a complete stream.
\<close>

lemma reset_looks_complete:
  assumes "0 < buffer"
  shows "\<exists>f. flow_reachable idle buffer (b # bs) from_target f \<and> target_got f = [b] \<and> target_closed f \<and>
    cr_result (pf_client f) = Some (Inl e)"
proof -
  let ?c0 = "cr_start (b # bs) []" and ?s0 = "tr_start idle [] from_target"
  let ?w = "(cp_start (b # bs))\<lparr>cp_src := bs, cp_dst := [b], cp_pc := CopyFailed e\<rparr>"
  let ?c1 = "?c0\<lparr>cr_upload := ?w\<rparr>" and ?s1 = "?s0\<lparr>tr_upload := cp_start [b]\<rparr>"
  have "(copy_moves buffer)\<^sup>*\<^sup>* (cp_start (b # bs)) ((cp_start (b # bs))\<lparr>cp_src := bs, cp_dst := [b]\<rparr>)"
    using copy_forwards [of "cp_start (b # bs)" b bs buffer] assms by simp
  moreover have "copy_moves buffer ((cp_start (b # bs))\<lparr>cp_src := bs, cp_dst := [b]\<rparr>) ?w"
    using ChunkFails [of "(cp_start (b # bs))\<lparr>cp_src := bs, cp_dst := [b]\<rparr>" buffer e]
    by (auto simp: copy_moves_def)
  ultimately have "(copy_moves buffer)\<^sup>*\<^sup>* (cp_start (b # bs)) ?w" by (rule rtranclp.rtrancl_into_rtrancl)
  then have one: "(flow_step idle buffer)\<^sup>*\<^sup>* \<lparr>pf_client = ?c0, pf_server = ?s0\<rparr>
      \<lparr>pf_client = ?c1, pf_server = ?s1\<rparr>"
    using client_uploads [of buffer ?c0 ?w idle ?s0]
    by (simp add: cr_start_def tr_start_def fed_def cp_start_def)
  let ?c2 = "?c1\<lparr>cr_result := Some (Inl e)\<rparr>"
  have two: "flow_step idle buffer \<lparr>pf_client = ?c1, pf_server = ?s1\<rparr> \<lparr>pf_client = ?c2, pf_server = ?s1\<rparr>"
    using flow_step.ClientSide [where f = "\<lparr>pf_client = ?c1, pf_server = ?s1\<rparr>" and idle = idle,
        OF client_tcp_step.ClientJoined, of "Inl e" buffer]
    by (simp add: cr_start_def join_result_def)
  have pos: "0 < COPY_BUFFER" by (simp add: COPY_BUFFER_def)
  obtain s where three: "(flow_step idle buffer)\<^sup>*\<^sup>* \<lparr>pf_client = ?c2, pf_server = ?s1\<rparr>
      \<lparr>pf_client = ?c2, pf_server = s\<rparr>" "tr_upload s = drained (cp_start [b])"
    using server_uploads [of ?s1 "drained (cp_start [b])" ?c2 idle buffer] copy_drains [OF pos, of "cp_start [b]"]
    by (auto simp: tr_start_def)
  from one two three(1) have "flow_reachable idle buffer (b # bs) from_target
      \<lparr>pf_client = ?c2, pf_server = s\<rparr>"
    unfolding flow_reachable_def pf_start_def by (meson rtranclp.rtrancl_into_rtrancl rtranclp_trans)
  then show ?thesis
    by (intro exI [of _ "\<lparr>pf_client = ?c2, pf_server = s\<rparr>"])
      (simp add: target_got_def target_closed_def three)
qed

subsection \<open>Properties\<close>

text \<open>
  C18: a TCP flow through the proxy, with both relays at work: at every moment the target has been
  given a beginning of what the application sent, and the application a beginning of what the
  target sent; a side that has been given the end has been given everything before it, unless the
  relay at the far end of the tunnel failed; and when both relays have ended well, both streams
  have been delivered completely.
\<close>

theorem tcp_flow_faithful:
  assumes "flow_reachable idle buffer from_app from_target f"
  shows "(\<exists>x. target_got f @ x = from_app) \<and> (\<exists>y. app_got f @ y = from_target) \<and>
    (target_closed f \<and> (\<forall>e. cr_result (pf_client f) \<noteq> Some (Inl e)) \<longrightarrow> target_got f = from_app) \<and>
    (app_closed f \<and> (\<forall>e. tr_result (pf_server f) \<noteq> Some (Inl e)) \<longrightarrow> app_got f = from_target) \<and>
    (cr_result (pf_client f) = Some (Inr ()) \<and> tr_result (pf_server f) = Some (Inr ()) \<longrightarrow>
      target_got f = from_app \<and> app_got f = from_target)"
proof -
  let ?c = "pf_client f" and ?s = "pf_server f"
  note inv = flow_reachable_inv [OF assms, unfolded flow_inv_def]
  have up: "chain_inv from_app (cr_result ?c \<noteq> None) (cr_upload ?c) (tr_upload ?s)"
    and down: "chain_inv from_target (tr_result ?s \<noteq> None) (tr_download ?s) (cr_download ?c)"
    using inv by blast+
  have done_c: "cp_fin (cr_upload ?c) \<and> app_closed f" if "cr_result ?c = Some (Inr ())"
    using that inv chain_fin [OF up] chain_fin [OF down] unfolding app_closed_def by blast
  have done_s: "target_closed f \<and> cp_fin (tr_download ?s)" if "tr_result ?s = Some (Inr ())"
    using that inv chain_fin [OF up] chain_fin [OF down] unfolding target_closed_def by blast
  have ended: "r = None \<or> r = Some (Inr ())" if "\<forall>e. r \<noteq> Some (Inl e)" for r :: "(io_error + unit) option"
    using that by (metis not_Some_eq old.unit.exhaust sum.exhaust)
  have target: "target_got f = from_app" if "target_closed f" "\<forall>e. cr_result ?c \<noteq> Some (Inl e)"
    using that(1) ended [OF that(2)] chain_delivers(2) [OF up] done_c
    unfolding target_got_def target_closed_def by blast
  have app: "app_got f = from_target" if "app_closed f" "\<forall>e. tr_result ?s \<noteq> Some (Inl e)"
    using that(1) ended [OF that(2)] chain_delivers(2) [OF down] done_s
    unfolding app_got_def app_closed_def by blast
  have "target_got f = from_app \<and> app_got f = from_target"
    if "cr_result ?c = Some (Inr ())" "tr_result ?s = Some (Inr ())"
    using that done_c done_s target app by simp
  with target app chain_delivers(1) [OF up] chain_delivers(1) [OF down] show ?thesis
    unfolding target_got_def app_got_def by blast
qed

theorem tcp_flow_faithful_witness:
  "\<exists>f. flow_reachable 5 8192 [1, 2] [3] f \<and> cr_result (pf_client f) = Some (Inr ()) \<and>
    tr_result (pf_server f) = Some (Inr ()) \<and> target_got f = [1, 2] \<and> app_got f = [3]"
proof -
  obtain f where f: "flow_reachable 5 8192 [1, 2] [3] f" "cr_result (pf_client f) = Some (Inr ())"
      "tr_result (pf_server f) = Some (Inr ())"
    by (rule flow_completes [of 8192 5 "[1, 2]" "[3]"]) simp_all
  with tcp_flow_faithful [OF f(1)] show ?thesis by blast
qed

end
