(* ===== verification/Deadlines.thy ===== *)
theory Deadlines
  imports Vm_Server Server_Handler Client_Transport
begin

text \<open>
  How long the programs can wait. A task waits in the calls that are made under a timer, for no longer
  than the timer, and in all others for as long as the system takes. \<open>ends_within d m Q\<close> says that \<open>m\<close>
  returns whatever the timed calls do, that the timers it arms add up to at most \<open>d\<close> milliseconds,
  and that what it returns satisfies \<open>Q\<close>.
\<close>

named_theorems deadline_intros "rules of the waiting logic"

subsection \<open>The timers of a trace\<close>

fun timer_ms :: "call \<Rightarrow> nat" where
  "timer_ms (Timer d) = d"
| "timer_ms _ = 0"

definition armed :: "call list \<Rightarrow> nat" where
  "armed h = sum_list (map timer_ms h)"

lemma armed_simps [simp]: "armed [] = 0" "armed (c # cs) = timer_ms c + armed cs"
  "armed (h @ h') = armed h + armed h'"
  by (simp_all add: armed_def)

lemma armed_none: "\<forall>c \<in> set cs. timer_ms c = 0 \<Longrightarrow> armed cs = 0"
  by (simp add: armed_def)

definition ends_within :: "nat \<Rightarrow> ('e, 'a) io \<Rightarrow> ('a \<Rightarrow> bool) \<Rightarrow> bool" where
  "ends_within d m Q \<longleftrightarrow> (\<forall>h. \<exists>cs. snd (m h) = h @ cs \<and> armed cs \<le> d \<and> fst (m h) \<noteq> Pending \<and>
     (\<forall>a. fst (m h) = Done a \<longrightarrow> Q a))"

lemma ends_withinD:
  assumes "ends_within d m Q" and "m h = (r, h')"
  obtains cs where "h' = h @ cs" "armed cs \<le> d" "r \<noteq> Pending" "\<forall>a. r = Done a \<longrightarrow> Q a"
proof -
  from assms(1) obtain cs where "snd (m h) = h @ cs" "armed cs \<le> d" "fst (m h) \<noteq> Pending"
      "\<forall>a. fst (m h) = Done a \<longrightarrow> Q a"
    unfolding ends_within_def by blast
  with assms(2) that show thesis by simp
qed

lemma ends_within_weaken:
  "ends_within d m Q \<Longrightarrow> d \<le> d' \<Longrightarrow> (\<And>a. Q a \<Longrightarrow> Q' a) \<Longrightarrow> ends_within d' m Q'"
  unfolding ends_within_def by (meson le_trans)

lemma ends_within_ret [deadline_intros]: "Q a \<Longrightarrow> ends_within d (ret a) Q"
  by (simp add: ends_within_def ret_def)

lemma ends_within_raise [deadline_intros]: "ends_within d (raise e) Q"
  by (simp add: ends_within_def raise_def)

lemma ends_within_sys:
  assumes "timer_ms c \<le> d" and "\<And>h. reply h \<noteq> Pending" and "\<And>h a. reply h = Done a \<Longrightarrow> Q a"
  shows "ends_within d (sys c reply) Q"
  using assms by (auto simp: ends_within_def sys_def)

text \<open>A call that is not under a timer has to be answered by the system.\<close>

lemma ends_within_do_call [deadline_intros]:
  "timer_ms c = 0 \<Longrightarrow> (\<And>h. os_unit os h c \<noteq> Pending) \<Longrightarrow> ends_within d (do_call os c) (\<lambda>_. True)"
  unfolding do_call_def by (rule ends_within_sys) auto

lemma ends_within_and_then:
  assumes m: "ends_within d m R" and f: "\<And>a. R a \<Longrightarrow> ends_within d' (f a) Q"
  shows "ends_within (d + d') (and_then m f) Q"
  unfolding ends_within_def
proof
  fix h
  obtain r h' where mh: "m h = (r, h')" by (cases "m h")
  from m mh obtain cs where cs: "h' = h @ cs" "armed cs \<le> d" "r \<noteq> Pending" "\<forall>a. r = Done a \<longrightarrow> R a"
    by (rule ends_withinD)
  show "\<exists>cs. snd (and_then m f h) = h @ cs \<and> armed cs \<le> d + d' \<and> fst (and_then m f h) \<noteq> Pending \<and>
      (\<forall>a. fst (and_then m f h) = Done a \<longrightarrow> Q a)"
  proof (cases r)
    case (Done a)
    with cs(4) f have fa: "ends_within d' (f a) Q" by blast
    obtain r2 h2 where fh: "f a h' = (r2, h2)" by (cases "f a h'")
    from fa fh obtain ds where "h2 = h' @ ds" "armed ds \<le> d'" "r2 \<noteq> Pending" "\<forall>b. r2 = Done b \<longrightarrow> Q b"
      by (rule ends_withinD)
    with Done mh fh cs show ?thesis
      by (intro exI [of _ "cs @ ds"]) (auto simp: act_simps)
  qed (use mh cs in \<open>auto simp: act_simps\<close>)
qed

text \<open>Most steps arm no timer.\<close>

lemma ends_within_bind [deadline_intros]:
  "ends_within 0 m (\<lambda>_. True) \<Longrightarrow> (\<And>a. ends_within d (f a) Q) \<Longrightarrow> ends_within d (and_then m f) Q"
  using ends_within_and_then [of 0 m "\<lambda>_. True" d f Q] by simp

lemma ends_within_attempt:
  assumes "ends_within d m R" and "\<And>e. Q (Inl e)" and "\<And>a. R a \<Longrightarrow> Q (Inr a)"
  shows "ends_within d (attempt m) Q"
  unfolding ends_within_def
proof
  fix h
  obtain r h' where mh: "m h = (r, h')" by (cases "m h")
  from assms(1) mh obtain cs where "h' = h @ cs" "armed cs \<le> d" "r \<noteq> Pending" "\<forall>a. r = Done a \<longrightarrow> R a"
    by (rule ends_withinD)
  with mh assms(2,3) show "\<exists>cs. snd (attempt m h) = h @ cs \<and> armed cs \<le> d \<and>
      fst (attempt m h) \<noteq> Pending \<and> (\<forall>a. fst (attempt m h) = Done a \<longrightarrow> Q a)"
    by (intro exI [of _ cs]) (auto simp: attempt_def split: outcome.splits)
qed

lemma ends_within_attempt_any [deadline_intros]:
  "ends_within d m (\<lambda>_. True) \<Longrightarrow> ends_within d (attempt m) (\<lambda>_. True)"
  by (rule ends_within_attempt) auto

lemma ends_within_ignore [deadline_intros]:
  "ends_within 0 m (\<lambda>_. True) \<Longrightarrow> ends_within d (ignore m) (\<lambda>_. True)"
  unfolding ignore_def by (intro deadline_intros TrueI)

lemma ends_within_map_err [deadline_intros]:
  assumes "ends_within d m Q"
  shows "ends_within d (map_err g m) Q"
  unfolding ends_within_def
proof
  fix h
  obtain r h' where mh: "m h = (r, h')" by (cases "m h")
  from assms mh obtain cs where "h' = h @ cs" "armed cs \<le> d" "r \<noteq> Pending" "\<forall>a. r = Done a \<longrightarrow> Q a"
    by (rule ends_withinD)
  with mh show "\<exists>cs. snd (map_err g m h) = h @ cs \<and> armed cs \<le> d \<and> fst (map_err g m h) \<noteq> Pending \<and>
      (\<forall>a. fst (map_err g m h) = Done a \<longrightarrow> Q a)"
    by (intro exI [of _ cs]) (auto simp: map_err_def split: outcome.splits)
qed

text \<open>What is under a timer may hang; it must not arm another.\<close>

lemma ends_within_timeout:
  assumes "issues (\<lambda>c. timer_ms c = 0) m R" and "d \<le> d'"
    and "Q None" and "\<And>e. Q (Some (Inl e))" and "\<And>a. R a \<Longrightarrow> Q (Some (Inr a))"
  shows "ends_within d' (with_timeout d m) Q"
  unfolding ends_within_def
proof
  fix h
  obtain r h' where mh: "m (h @ [Timer d]) = (r, h')" by (cases "m (h @ [Timer d])")
  from assms(1) mh obtain cs where "h' = (h @ [Timer d]) @ cs" "\<forall>c \<in> set cs. timer_ms c = 0"
      "\<forall>a. r = Done a \<longrightarrow> R a"
    by (rule issuesD)
  with mh assms(2-) show "\<exists>cs. snd (with_timeout d m h) = h @ cs \<and> armed cs \<le> d' \<and>
      fst (with_timeout d m h) \<noteq> Pending \<and> (\<forall>a. fst (with_timeout d m h) = Done a \<longrightarrow> Q a)"
    by (intro exI [of _ "Timer d # cs"])
      (auto simp: with_timeout_def timeout_def and_then_def sys_def armed_none split: outcome.splits)
qed

lemma ends_within_if [deadline_intros]:
  "(b \<Longrightarrow> ends_within d m Q) \<Longrightarrow> (\<not> b \<Longrightarrow> ends_within d m' Q) \<Longrightarrow>
    ends_within d (if b then m else m') Q"
  by simp

lemma ends_within_case_option [deadline_intros]:
  "(x = None \<Longrightarrow> ends_within d m Q) \<Longrightarrow> (\<And>a. x = Some a \<Longrightarrow> ends_within d (f a) Q) \<Longrightarrow>
    ends_within d (case x of None \<Rightarrow> m | Some a \<Rightarrow> f a) Q"
  by (cases x) auto

lemma ends_within_case_sum [deadline_intros]:
  "(\<And>e. x = Inl e \<Longrightarrow> ends_within d (f e) Q) \<Longrightarrow> (\<And>a. x = Inr a \<Longrightarrow> ends_within d (g a) Q) \<Longrightarrow>
    ends_within d (case x of Inl e \<Rightarrow> f e | Inr a \<Rightarrow> g a) Q"
  by (cases x) auto

subsection \<open>Requests and responses\<close>

text \<open>
  A world that takes what it is given: writes complete, and so do the calls \<open>P\<close>; what comes from the
  network may never come.
\<close>

definition takes :: "os \<Rightarrow> (call \<Rightarrow> bool) \<Rightarrow> bool" where
  "takes os P \<longleftrightarrow> (\<forall>h bs. os_write os h bs \<noteq> Pending) \<and> (\<forall>h. os_unit os h Flush \<noteq> Pending) \<and>
     (\<forall>h c. P c \<longrightarrow> os_unit os h c \<noteq> Pending)"

lemma takesD: "takes os P \<Longrightarrow> P c \<Longrightarrow> os_unit os h c \<noteq> Pending"
  "takes os P \<Longrightarrow> os_write os h bs \<noteq> Pending" "takes os P \<Longrightarrow> os_unit os h Flush \<noteq> Pending"
  by (simp_all add: takes_def)

lemma reads_no_timer: "is_read c \<Longrightarrow> timer_ms c = 0"
  by (auto simp: is_read_def)

lemma ends_within_write [deadline_intros]:
  "takes os P \<Longrightarrow> ends_within d (write_all (peer_tx os) bs) (\<lambda>_. True)"
  unfolding peer_tx_sel by (rule ends_within_sys) (auto simp: takesD)

lemma ends_within_flush [deadline_intros]:
  "takes os P \<Longrightarrow> ends_within d (flush (peer_tx os)) (\<lambda>_. True)"
  unfolding peer_tx_sel by (rule ends_within_do_call) (auto simp: takesD)

lemma request_write_ends [deadline_intros]:
  "takes os P \<Longrightarrow> ends_within d (request_write_to (peer_tx os) req) (\<lambda>_. True)"
  unfolding request_write_to_def by (intro deadline_intros TrueI)

lemma response_write_ends [deadline_intros]:
  "takes os P \<Longrightarrow> ends_within d (response_write_to (peer_tx os) resp) (\<lambda>_. True)"
  unfolding response_write_to_def by (intro deadline_intros TrueI)

lemma request_read_timed:
  "d \<le> d' \<Longrightarrow> ends_within d' (with_timeout d (request_read_from (peer_rx os))) (\<lambda>_. True)"
  by (rule ends_within_timeout [OF issues_weaken [OF issues_request_read]]) (auto simp: reads_no_timer)

lemma response_read_timed:
  "d \<le> d' \<Longrightarrow> ends_within d' (with_timeout d (response_read_from (peer_rx os))) (\<lambda>_. True)"
  by (rule ends_within_timeout [OF issues_weaken [OF issues_response_read]]) (auto simp: reads_no_timer)

subsection \<open>Opening a flow of the proxy client\<close>

text \<open>The calls of an open that are not under a timer: quinn's and tonic's, on this side of the network.\<close>

definition quic_untimed :: "call \<Rightarrow> bool" where
  "quic_untimed c \<longleftrightarrow> (\<exists>a name. c = QuicStart a name) \<or> (\<exists>n. c = QuicOpenBi n)"

definition grpc_untimed :: "call \<Rightarrow> bool" where
  "grpc_untimed c \<longleftrightarrow> (\<exists>bs. c = GrpcSendFrame bs)"

abbreviation open_timeout :: "'net client_config \<Rightarrow> nat" where
  "open_timeout cfg \<equiv> unat (cli_connect_timeout_ms cfg)"

lemma quic_dial_ends:
  assumes "takes os quic_untimed"
  shows "ends_within (open_timeout cfg) (quic_dial os cfg slot) (\<lambda>_. True)"
proof -
  have connect: "ends_within (open_timeout cfg)
      (with_timeout (open_timeout cfg) (sys QuicConnect (\<lambda>h. os_handle os h QuicConnect))) (\<lambda>_. True)"
    by (rule ends_within_timeout [OF issues_sys]) auto
  note rest = ends_within_and_then [where d' = 0, OF connect ends_within_ret, unfolded add_0_right]
  have start: "ends_within 0 (attempt (do_call os (QuicStart a name))) (\<lambda>_. True)" for a name
    using assms by (intro deadline_intros) (auto simp: takesD quic_untimed_def)
  show ?thesis
    unfolding quic_dial_def
    by (rule ends_within_bind [OF start]) (auto intro!: rest ends_within_ret split: sum.split)
qed

lemma quic_connection_ends:
  "takes os quic_untimed \<Longrightarrow> ends_within (open_timeout cfg) (quic_connection os cfg slot) (\<lambda>_. True)"
  unfolding quic_connection_def quic_is_open_def
  by (intro deadline_intros quic_dial_ends TrueI ends_within_sys) auto

lemma quic_use_ends:
  assumes "takes os quic_untimed"
  shows "ends_within (open_timeout cfg) (quic_use os cfg c target connection) (\<lambda>_. True)"
proof -
  note rest = ends_within_and_then [where d' = 0, OF response_read_timed [OF order_refl] ends_within_ret,
      unfolded add_0_right]
  have "ends_within (open_timeout cfg) (quic_handshake os cfg c target slot) (\<lambda>_. True)" for slot
    unfolding quic_handshake_def
    by (rule ends_within_bind [OF ends_within_attempt_any [OF request_write_ends [OF assms]]])
      (auto intro!: rest ends_within_ret split: sum.split)
  moreover have "ends_within 0 (attempt (do_call os (QuicOpenBi n))) (\<lambda>_. True)" for n
    using assms by (intro deadline_intros) (auto simp: takesD quic_untimed_def)
  ultimately show ?thesis
    unfolding quic_use_def
    by (auto intro!: ends_within_ret ends_within_bind split: prod.split sum.split)
qed

lemma quic_open_ends:
  "takes os quic_untimed \<Longrightarrow> ends_within (2 * open_timeout cfg) (quic_open os cfg c target slot) (\<lambda>_. True)"
  unfolding quic_open_def mult_2
  by (rule ends_within_and_then [OF quic_connection_ends quic_use_ends])

lemma grpc_open_ends:
  assumes "takes os grpc_untimed"
  shows "ends_within (2 * open_timeout cfg) (grpc_open os cfg c target) (\<lambda>_. True)"
proof -
  have response: "ends_within (open_timeout cfg + 0)
      (and_then (with_timeout (open_timeout cfg) (response_read_from (peer_rx os))) f) (\<lambda>_. True)"
    if "\<And>r. ends_within 0 (f r) (\<lambda>_. True)" for f :: "_ \<Rightarrow> (grpc_error, unit) io"
    by (rule ends_within_and_then [OF response_read_timed that]) simp
  have opened: "ends_within (open_timeout cfg)
      (with_timeout (open_timeout cfg) (do_call os GrpcOpen)) (\<lambda>_. True)"
    by (rule ends_within_timeout [OF issues_do_call]) auto
  show ?thesis
    unfolding grpc_open_def mult_2
    by (cases "grpc_encode (cli_request cfg c target)")
      (use assms in \<open>auto intro!: deadline_intros ends_within_and_then [OF opened]
         response [unfolded add_0_right] simp: takesD grpc_untimed_def\<close>)
qed

text \<open>Both transports together, over the two traces of a flow.\<close>

definition waited :: "transport_state \<Rightarrow> nat" where
  "waited s = armed (ts_quic s) + armed (ts_grpc s)"

definition opens_within :: "nat \<Rightarrow> (transport_state, 'e, 'a) act \<Rightarrow> bool" where
  "opens_within d m \<longleftrightarrow> (\<forall>s. waited (snd (m s)) \<le> waited s + d \<and> fst (m s) \<noteq> Pending)"

lemma opens_withinD:
  "opens_within d m \<Longrightarrow> m s = (r, s') \<Longrightarrow> waited s' \<le> waited s + d \<and> r \<noteq> Pending"
  unfolding opens_within_def by (metis fst_conv snd_conv)

lemma opens_within_ret: "opens_within d (ret a)"
  by (simp add: opens_within_def ret_def)

lemma opens_within_and_then:
  assumes "opens_within d m" and "\<And>a. opens_within d' (f a)"
  shows "opens_within (d + d') (and_then m f)"
  unfolding opens_within_def
proof
  fix s
  obtain r s' where m: "m s = (r, s')" by (cases "m s")
  note first = opens_withinD [OF assms(1) m]
  show "waited (snd (and_then m f s)) \<le> waited s + (d + d') \<and> fst (and_then m f s) \<noteq> Pending"
  proof (cases r)
    case (Done a)
    obtain r2 s2 where "f a s' = (r2, s2)" by (cases "f a s'")
    with opens_withinD [OF assms(2) this] first m Done show ?thesis by (simp add: and_then_def)
  qed (use first m in \<open>auto simp: and_then_def\<close>)
qed

lemma opens_within_attempt: "opens_within d m \<Longrightarrow> opens_within d (attempt m)"
  unfolding opens_within_def [of d "attempt m"] attempt_def
  by (auto split: prod.split outcome.split dest: opens_withinD)

lemma opens_within_weaken: "opens_within d m \<Longrightarrow> d \<le> d' \<Longrightarrow> opens_within d' m"
  unfolding opens_within_def by (meson add_left_mono le_trans)

lemma run_quic_within:
  assumes "takes os quic_untimed"
  shows "opens_within (2 * open_timeout cfg) (run_quic os cfg c target)"
  unfolding opens_within_def
proof
  fix s :: transport_state
  obtain r h where q: "(quic_open os cfg c target (ts_slot s) :: (unit, _) io) (ts_quic s) = (r, h)"
    by (cases "(quic_open os cfg c target (ts_slot s) :: (unit, _) io) (ts_quic s)")
  from quic_open_ends [OF assms] q obtain cs where
      "h = ts_quic s @ cs" "armed cs \<le> 2 * open_timeout cfg" "r \<noteq> Pending"
    by (rule ends_withinD)
  with q show "waited (snd (run_quic os cfg c target s)) \<le> waited s + 2 * open_timeout cfg \<and>
      fst (run_quic os cfg c target s) \<noteq> Pending"
    by (auto simp: run_quic_def waited_def split: outcome.split sum.split prod.split)
qed

lemma run_grpc_within:
  assumes "takes os grpc_untimed"
  shows "opens_within (2 * open_timeout cfg) (run_grpc os cfg c target)"
  unfolding opens_within_def
proof
  fix s :: transport_state
  obtain r h where g: "grpc_open os cfg c target (ts_grpc s) = (r, h)"
    by (cases "grpc_open os cfg c target (ts_grpc s)")
  from grpc_open_ends [OF assms] g obtain cs where
      "h = ts_grpc s @ cs" "armed cs \<le> 2 * open_timeout cfg" "r \<noteq> Pending"
    by (rule ends_withinD)
  with g show "waited (snd (run_grpc os cfg c target s)) \<le> waited s + 2 * open_timeout cfg \<and>
      fst (run_grpc os cfg c target s) \<noteq> Pending"
    by (auto simp: run_grpc_def waited_def)
qed

lemma opens_within_cases:
  "(\<And>e. r = Inl e \<Longrightarrow> opens_within d (f e)) \<Longrightarrow> (\<And>a. r = Inr a \<Longrightarrow> opens_within d (g a)) \<Longrightarrow>
    opens_within d (case r of Inl e \<Rightarrow> f e | Inr a \<Rightarrow> g a)"
  by (cases r) auto

lemma opens_within_bind:
  "opens_within d m \<Longrightarrow> (\<And>a. opens_within d' (f a)) \<Longrightarrow> d + d' \<le> d'' \<Longrightarrow> opens_within d'' (and_then m f)"
  by (rule opens_within_weaken [OF opens_within_and_then])

lemma clock_within: "opens_within 0 (read_clock (\<lambda>s. (now s, s)))"
  by (simp add: opens_within_def read_clock_def)

lemma open_with_fallback_within:
  assumes "\<And>c target. opens_within d (quic c target)" "\<And>c target. opens_within d (grpc c target)"
  shows "opens_within (2 * d) (open_with_fallback quic grpc (\<lambda>s. (now s, s)) retry c target fb)"
proof -
  note grpc_last = opens_within_bind [OF opens_within_attempt [OF assms(2)], where d' = 0 and d'' = d]
  note clock_first = opens_within_bind [OF clock_within, where d' = d and d'' = d]
  show ?thesis
    unfolding open_with_fallback_def
    by (rule opens_within_bind [OF opens_within_attempt [OF assms(1)], where d' = d])
      (auto intro!: opens_within_ret clock_first grpc_last split: sum.split quic_open_error.split)
qed

lemma transport_open_within:
  assumes "\<And>q c target. quic = Some q \<Longrightarrow> opens_within d (q c target)"
    and "\<And>g c target. grpc = Some g \<Longrightarrow> opens_within d (g c target)"
  shows "opens_within (3 * d) (transport_open quic grpc (\<lambda>s. (now s, s)) retry c target fb)"
proof (cases quic)
  case None
  with assms(2) show ?thesis
    by (auto simp: transport_open_def intro!: opens_within_ret opens_within_bind [where d' = 0]
        opens_within_attempt split: option.split)
next
  case (Some q)
  show ?thesis
  proof (cases grpc)
    case None
    with Some assms(1) show ?thesis
      by (auto simp: transport_open_def intro!: opens_within_ret opens_within_bind [where d' = 0]
          opens_within_attempt)
  next
    case (Some g)
    have suppressed: "opens_within 0 (is_suppressed (\<lambda>s. (now s, s)) fb)"
      by (auto simp: is_suppressed_def opens_within_def read_clock_def ret_def and_then_def split: option.split)
    have fallback: "opens_within (2 * d) (open_with_fallback q g (\<lambda>s. (now s, s)) retry c target fb')" for fb'
      using assms \<open>quic = Some q\<close> Some by (intro open_with_fallback_within) auto
    have first: "opens_within d (attempt (g c target))"
      using assms(2) Some by (intro opens_within_attempt) auto
    have "opens_within (3 * d) (and_then (attempt (g c target)) (\<lambda>r. case r of
        Inr flow \<Rightarrow> ret (Inr (flow, Grpc), fb)
      | Inl _ \<Rightarrow> open_with_fallback q g (\<lambda>s. (now s, s)) retry c target None))"
      by (rule opens_within_bind [OF first, where d' = "2 * d"])
        (auto intro: opens_within_ret fallback split: sum.split)
    moreover have "opens_within (3 * d) (open_with_fallback q g (\<lambda>s. (now s, s)) retry c target fb)"
      by (rule opens_within_weaken [OF fallback]) simp
    ultimately show ?thesis
      using \<open>quic = Some q\<close> Some unfolding transport_open_def
      by (auto intro!: opens_within_bind [OF suppressed, where d' = "3 * d"])
  qed
qed

lemma transport_client_within:
  assumes "takes quic_os quic_untimed" and "takes grpc_os grpc_untimed"
  shows "opens_within (6 * open_timeout cfg) (transport_client_open quic_os grpc_os cfg c target fb)"
proof -
  have "opens_within (3 * (2 * open_timeout cfg)) (transport_client_open quic_os grpc_os cfg c target fb)"
    unfolding transport_client_open_def
    by (rule transport_open_within [where now = "\<lambda>s. os_now quic_os (ts_quic s)"])
      (auto intro: run_quic_within [OF assms(1)] run_grpc_within [OF assms(2)] split: if_splits)
  then show ?thesis by simp
qed

subsection \<open>The verdict of a server\<close>

context dial_candidates
begin

lemma loop_ends: "ends_within (length addrs * deadline cfg) (loop os cfg addrs l) (\<lambda>_. True)"
proof (induction addrs arbitrary: l)
  case Nil
  then show ?case by (simp add: loop_Nil ends_within_ret)
next
  case (Cons addr addrs)
  have dial: "ends_within (deadline cfg) (with_timeout (deadline cfg) (dial os cfg addr)) (\<lambda>_. True)"
    by (rule ends_within_timeout [OF issues_weaken [OF dial_issues]]) (auto simp: dial_calls_def)
  from ends_within_and_then [OF dial] Cons.IH show ?case
    unfolding loop_Cons length_Cons mult_Suc
    by (auto intro!: ends_within_and_then [OF dial] ends_within_ret split: option.split sum.split)
qed

end

definition few_names :: "os \<Rightarrow> nat \<Rightarrow> bool" where
  "few_names os k \<longleftrightarrow> 0 < k \<and> (\<forall>h host p as. os_lookup os h host p = Done as \<longrightarrow> length as \<le> k)"

definition relay_or_local :: "call \<Rightarrow> bool" where
  "relay_or_local c \<longleftrightarrow> c = Shutdown \<or> (\<exists>a. c = UdpBind a) \<or> (\<exists>a. c = UdpConnect a) \<or>
     (\<exists>b. c = SetNodelay b) \<or> (\<exists>b. c = UpstreamNodelay b) \<or> c = UpstreamShutdown \<or>
     c = CopyBidirectional \<or> (\<exists>d. c = RaceTcpPumps d) \<or> (\<exists>d. c = RaceUdpPumps d)"

lemma relay_or_local_simps [simp]: "relay_or_local Shutdown" "relay_or_local (UdpBind a)"
  "relay_or_local (UdpConnect a)" "relay_or_local (SetNodelay b)" "relay_or_local (UpstreamNodelay b)"
  "relay_or_local UpstreamShutdown" "relay_or_local CopyBidirectional" "relay_or_local (RaceTcpPumps d)"
  "relay_or_local (RaceUdpPumps d)"
  by (simp_all add: relay_or_local_def)

lemma srv_resolve_ends:
  assumes "few_names os k"
  shows "ends_within d (with_timeout d (srv_resolve os target))
    (\<lambda>r. case r of Some (Inr as) \<Rightarrow> length as \<le> k | _ \<Rightarrow> True)"
proof -
  have "issues (\<lambda>c. timer_ms c = 0) (srv_resolve os target) (\<lambda>as. length as \<le> k)"
    using assms unfolding srv_resolve_def few_names_def
    by (cases target) (auto intro!: issues_intros)
  then show ?thesis by (rule ends_within_timeout) auto
qed

lemma local_call_ends [deadline_intros]:
  "takes os relay_or_local \<Longrightarrow> timer_ms c = 0 \<Longrightarrow> relay_or_local c \<Longrightarrow>
    ends_within d (do_call os c) (\<lambda>_. True)"
  by (rule ends_within_do_call) (auto simp: takesD)

lemma shutdown_ends [deadline_intros]:
  "takes os relay_or_local \<Longrightarrow> ends_within d (shutdown (peer_tx os)) (\<lambda>_. True)"
  unfolding peer_tx_sel by (rule local_call_ends) simp_all

lemma srv_reject_ends [deadline_intros]:
  "takes os relay_or_local \<Longrightarrow> ends_within d (srv_reject os st message) (\<lambda>_. True)"
  unfolding srv_reject_def by (intro deadline_intros)

lemma srv_serve_udp_ends:
  "takes os relay_or_local \<Longrightarrow> ends_within d (srv_serve_udp os cfg destination) (\<lambda>_. True)"
  unfolding srv_serve_udp_def by (intro deadline_intros) simp_all

lemma srv_serve_tcp_ends:
  assumes "takes os relay_or_local"
  shows "ends_within (length candidates * unat (srv_connect_timeout_ms cfg))
    (srv_serve_tcp os cfg candidates) (\<lambda>_. True)"
proof -
  have "ends_within 0 (case r of (upstream, last_error) \<Rightarrow> if \<not> upstream then
         srv_reject os Unreachable (case last_error of Some msg \<Rightarrow> msg | None \<Rightarrow> lit ''connect failed'')
       else and_then (response_write_to (peer_tx os) response_ok) (\<lambda>_.
         do_call os (RaceTcpPumps (unat (srv_tcp_idle_timeout_secs cfg) * 1000)))) (\<lambda>_. True)" for r
    using assms
    by (cases r) (auto intro!: ends_within_bind response_write_ends local_call_ends srv_reject_ends)
  from ends_within_and_then [OF srv_dialling.loop_ends this] show ?thesis
    unfolding srv_serve_tcp_def by simp
qed

lemma srv_handle_request_ends:
  assumes "takes os relay_or_local" and "few_names os k"
  shows "ends_within (unat (srv_dns_timeout_ms cfg) + k * unat (srv_connect_timeout_ms cfg))
    (srv_handle_request N os cfg req) (\<lambda>_. True)"
proof -
  let ?T = "k * unat (srv_connect_timeout_ms cfg)"
  have serve: "ends_within ?T (case filter (\<lambda>sa. srv_permits N cfg (ip sa)) as of
       [] \<Rightarrow> srv_reject os Forbidden (lit ''destination not allowed'')
     | first # rest \<Rightarrow> (case req_cmd req of
           ConnectTcp \<Rightarrow> srv_serve_tcp os cfg (first # rest)
         | BindUdp \<Rightarrow> srv_serve_udp os cfg first)) (\<lambda>_. True)" if "length as \<le> k" for as
  proof (cases "filter (\<lambda>sa. srv_permits N cfg (ip sa)) as")
    case Nil
    with assms(1) show ?thesis by (simp add: srv_reject_ends)
  next
    case (Cons first rest)
    have "length (first # rest) \<le> k"
      using that length_filter_le [of "\<lambda>sa. srv_permits N cfg (ip sa)" as] Cons by simp
    then have "length (first # rest) * unat (srv_connect_timeout_ms cfg) \<le> ?T" by (rule mult_le_mono1)
    from ends_within_weaken [OF srv_serve_tcp_ends [OF assms(1)] this, of "\<lambda>_. True"] Cons show ?thesis
      by (auto intro: srv_serve_udp_ends [OF assms(1)] split: cmd.split)
  qed
  show ?thesis
    unfolding srv_handle_request_def
    by (rule ends_within_if)
      (use assms(1) serve in \<open>auto intro!: ends_within_bind response_write_ends local_call_ends
        srv_reject_ends ends_within_and_then [OF srv_resolve_ends [OF assms(2)]]
        split: option.split sum.split\<close>)
qed

lemma srv_handle_stream_ends:
  assumes "takes os relay_or_local" and "few_names os k"
  shows "ends_within (SRV_REQUEST_TIMEOUT + (unat (srv_dns_timeout_ms cfg)
      + k * unat (srv_connect_timeout_ms cfg))) (srv_handle_stream N os cfg) (\<lambda>_. True)"
  unfolding srv_handle_stream_def
  by (rule ends_within_and_then [OF request_read_timed [OF order_refl]])
    (auto intro!: ends_within_raise srv_handle_request_ends [OF assms] split: option.split sum.split)

text \<open>The agent is the same but for the name, which it resolves without a timer.\<close>

lemma vm_reject_ends [deadline_intros]:
  "takes os P \<Longrightarrow> ends_within d (vm_reject os st message) (\<lambda>_. True)"
  unfolding vm_reject_def by (intro deadline_intros)

lemma vm_serve_udp_ends:
  "takes os relay_or_local \<Longrightarrow> ends_within d (vm_serve_udp os cfg addr) (\<lambda>_. True)"
  unfolding vm_serve_udp_def vm_relay_udp_def by (intro deadline_intros) simp_all

lemma vm_serve_tcp_ends:
  assumes "takes os relay_or_local"
  shows "ends_within (length candidates * unat (vm_connect_timeout_ms cfg))
    (vm_serve_tcp os cfg candidates) (\<lambda>_. True)"
proof -
  have "ends_within 0 (case r of (upstream, last_err) \<Rightarrow> if \<not> upstream then
         vm_reject os Unreachable (case last_err of Some msg \<Rightarrow> msg | None \<Rightarrow> lit ''connect failed'')
       else and_then (ignore (do_call os (UpstreamNodelay (vm_tcp_nodelay cfg)))) (\<lambda>_.
         and_then (response_write_to (peer_tx os) response_ok) (\<lambda>_.
         and_then (do_call os CopyBidirectional) (\<lambda>_.
         ignore (do_call os UpstreamShutdown))))) (\<lambda>_. True)" for r
    using assms
    by (cases r) (auto intro!: ends_within_bind ends_within_ignore response_write_ends local_call_ends
        vm_reject_ends)
  from ends_within_and_then [OF vm_dialling.loop_ends this] show ?thesis
    unfolding vm_serve_tcp_def by simp
qed

lemma vm_handle_request_ends:
  assumes "takes os relay_or_local" and "few_names os k" and "\<And>h host p. os_lookup os h host p \<noteq> Pending"
  shows "ends_within (k * unat (vm_connect_timeout_ms cfg)) (vm_handle_request N os cfg req) (\<lambda>_. True)"
proof -
  let ?T = "k * unat (vm_connect_timeout_ms cfg)"
  have serve: "ends_within ?T (case filter (\<lambda>sa. vm_permits N cfg (ip sa)) as of
       [] \<Rightarrow> vm_reject os Forbidden (lit ''destination not allowed'')
     | first # rest \<Rightarrow> (case req_cmd req of
           ConnectTcp \<Rightarrow> vm_serve_tcp os cfg (first # rest)
         | BindUdp \<Rightarrow> vm_serve_udp os cfg first)) (\<lambda>_. True)" if "length as \<le> k" for as
  proof (cases "filter (\<lambda>sa. vm_permits N cfg (ip sa)) as")
    case Nil
    with assms(1) show ?thesis by (simp add: vm_reject_ends)
  next
    case (Cons first rest)
    have "length (first # rest) \<le> k"
      using that length_filter_le [of "\<lambda>sa. vm_permits N cfg (ip sa)" as] Cons by simp
    then have "length (first # rest) * unat (vm_connect_timeout_ms cfg) \<le> ?T" by (rule mult_le_mono1)
    from ends_within_weaken [OF vm_serve_tcp_ends [OF assms(1)] this, of "\<lambda>_. True"] Cons show ?thesis
      by (auto intro: vm_serve_udp_ends [OF assms(1)] split: cmd.split)
  qed
  have "ends_within 0 (vm_resolve os (req_target req)) (\<lambda>as. length as \<le> k)"
    using assms(2,3) unfolding vm_resolve_def few_names_def
    by (cases "req_target req") (auto intro!: ends_within_ret ends_within_sys)
  then have "ends_within 0 (attempt (vm_resolve os (req_target req)))
      (\<lambda>r. case r of Inr as \<Rightarrow> length as \<le> k | _ \<Rightarrow> True)"
    by (rule ends_within_attempt) simp_all
  note resolved = ends_within_and_then [where d = 0, OF this, unfolded add_0_left]
  show ?thesis
    unfolding vm_handle_request_def
    by (rule ends_within_if)
      (use assms(1) serve in \<open>auto intro!: response_write_ends vm_reject_ends resolved split: sum.split\<close>)
qed

lemma vm_handle_ends:
  assumes "takes os relay_or_local" and "few_names os k" and "\<And>h host p. os_lookup os h host p \<noteq> Pending"
  shows "ends_within (VM_HANDSHAKE_TIMEOUT + k * unat (vm_connect_timeout_ms cfg)) (vm_handle N os cfg)
    (\<lambda>_. True)"
proof -
  have nodelay: "ends_within 0 (ignore (do_call os (SetNodelay b))) (\<lambda>_. True)" for b
    by (rule ends_within_ignore, rule local_call_ends [OF assms(1)]) simp_all
  show ?thesis
    unfolding vm_handle_def
    by (rule ends_within_bind [OF nodelay], rule ends_within_and_then [OF request_read_timed [OF order_refl]])
      (auto intro!: ends_within_raise vm_handle_request_ends [OF assms] split: option.split sum.split)
qed

text \<open>A name server that does not answer holds a session of the agent for ever.\<close>

lemma vm_lookup_unbounded:
  assumes "vm_token_matches (vm_token cfg) (req_token req)" and "req_target req = Domain host p"
    and "os_lookup os h host p = Pending"
  shows "fst (vm_handle_request N os cfg req h) = Pending"
  using assms by (simp add: vm_handle_request_def vm_resolve_def and_then_def attempt_def sys_def)

text \<open>
  And a server that has as many streams open as it allows holds a flow of the client: \<open>open_bi\<close> waits
  for the peer without a timer, and gRPC is not tried.
\<close>

lemma stream_limit_holds_flow:
  assumes "os_flag quic_os (ts_quic s) (QuicCloseReason n)" and "ts_slot s = Some n"
    and "\<And>h. os_unit quic_os h (QuicOpenBi n) = Pending"
    and "cli_quic_enabled cfg"
  shows "fst (transport_client_open quic_os grpc_os cfg c target None s) = Pending"
proof -
  have "run_quic quic_os cfg c target s
      = (Pending, s\<lparr>ts_quic := ts_quic s @ [QuicCloseReason n, QuicOpenBi n]\<rparr>)"
    using assms(1-3)
    by (simp add: run_quic_def quic_open_def quic_connection_def quic_is_open_def quic_use_def and_then_def
        attempt_def do_call_def sys_def ret_def)
  with assms(4) show ?thesis
    by (simp add: transport_client_open_def transport_open_def is_suppressed_def open_with_fallback_def
        and_then_def attempt_def ret_def split: option.split)
qed

subsection \<open>Properties\<close>


text \<open>A network that swallows everything.\<close>

definition silent_network :: os where
  "silent_network = (willing_os (stream_of [] Stalls) [])\<lparr>os_handle := (\<lambda>h c. Pending)\<rparr>"



definition hanging_network :: os where
  "hanging_network = (willing_os (stream_of (request_bytes (cli_request cli_sample_config ConnectTcp
     (Domain (lit ''a'') 80))) Stalls) [])\<lparr>os_unit := (\<lambda>h c. case c of
       ConnectSocket a \<Rightarrow> Pending | _ \<Rightarrow> Done ())\<rparr>"


end
