(* ===== verification/Sessions.thy ===== *)
theory Sessions
  imports Vm_Server Server_Grpc Host_Tunnel Client_Quic
begin

text \<open>
  The two ends of a session together: \<open>Client::open\<close> of the host with \<open>handle\<close> of the VM agent, and
  \<open>open\<close> of the proxy client over QUIC with \<open>handle_stream\<close> of the proxy server, and over gRPC with the
  \<open>Open\<close> call of the server and the pumps between. Each end reads what the other one writes; anything
  may follow it.
\<close>

subsection \<open>What a successful verdict says\<close>

lemma open_verdict_tcp_Ok:
  "rsp_status (open_verdict local_ip net ConnectTcp as) = Ok \<longleftrightarrow>
     (\<exists>a \<in> set as. tcp_result net local_ip a = Done ())"
  by (auto simp: open_verdict_def response_ok_def response_err_def split: list.split)

lemma open_verdict_message:
  "rsp_status (open_verdict local_ip net c as) = Ok \<Longrightarrow> open_verdict local_ip net c as = response_ok"
  by (auto simp: open_verdict_def response_err_def split: list.splits cmd.splits outcome.splits if_splits)

lemma verdict_tcp_Ok:
  assumes "req_cmd req = ConnectTcp"
  shows "rsp_status (verdict denied token_ok permitted local_ip net dns req) = Ok \<longleftrightarrow>
    token_ok (req_token req) \<and> (\<exists>as. resolution dns (req_target req) = Done as \<and>
      (\<exists>a \<in> set as. permitted (ip a) \<and> tcp_result net local_ip a = Done ()))"
  using assms
  by (auto simp: verdict_def open_verdict_tcp_Ok response_err_def split: outcome.split)

lemma srv_tcp_opens:
  assumes "length (srv_token scfg) \<le> 255" and "length (cli_token cfg) \<le> 255"
  shows "rsp_status (verdict (lit ''invalid token'') (srv_token_matches (srv_token scfg))
      (srv_permits N scfg) (srv_bind_ip scfg) net dns (cli_request cfg ConnectTcp target)) = Ok \<longleftrightarrow>
    cli_token cfg = srv_token scfg \<and> (\<exists>as. resolution dns target = Done as \<and>
      (\<exists>a \<in> set as. srv_permits N scfg (ip a) \<and> tcp_result net (srv_bind_ip scfg) a = Done ()))"
  using srv_tokens.matches_exact [OF assms] by (auto simp: verdict_tcp_Ok cli_request_def)

subsection \<open>The proxy client's half of a QUIC session\<close>

definition warm :: "os \<Rightarrow> nat \<Rightarrow> bool" where
  "warm os n \<longleftrightarrow> (\<forall>h. os_flag os h (QuicCloseReason n))"

definition quic_asked :: "nat \<Rightarrow> 'net client_config \<Rightarrow> cmd \<Rightarrow> address \<Rightarrow> call list" where
  "quic_asked n cfg c target = [QuicCloseReason n, QuicOpenBi n,
     WriteAll (request_bytes (cli_request cfg c target)), Flush,
     Timer (unat (cli_connect_timeout_ms cfg))]"

lemma quic_asked_peer:
  "inbox_view s (quic_asked n cfg c target) = s"
  "writes_succeed os \<Longrightarrow>
     sent_to_peer os (quic_asked n cfg c target) = request_bytes (cli_request cfg c target)"
  by (simp_all add: quic_asked_def inbox_view_def sent_to_peer_def sent_by_def writes_succeed_def)

lemma quic_open_warm:
  assumes "writes_succeed os" and "warm os n" and "length (cli_token cfg) \<le> 255"
  shows "(quic_open os cfg c target (Some n) :: ('e, _) io) [] =
    (case response_read_from (peer_rx os) (quic_asked n cfg c target) of
       (Done resp, h') \<Rightarrow> (Done (if rsp_status resp \<noteq> Ok
          then Inl (Rejected (cli_refusal target resp)) else Inr (), Some n), h')
     | (Failed err, h') \<Rightarrow> (Done (Inl (Unavailable (ReadingResponse
          (lit ''reading QUIC proxy response for '' @ show_address target) err)), None), h')
     | (Pending, h') \<Rightarrow> (Done (Inl (Unavailable (ResponseTimedOut
          (lit ''QUIC proxy response timed out for '' @ show_address target))), None), h')
     | (Panicked, h') \<Rightarrow> (Panicked, h'))"
proof -
  have "request_write_to (peer_tx os) (cli_request cfg c target) [QuicCloseReason n, QuicOpenBi n]
      = (Done (), [QuicCloseReason n, QuicOpenBi n,
          WriteAll (request_bytes (cli_request cfg c target)), Flush])"
    using assms
    by (simp add: request_write_to_def and_then_def sys_def do_call_def writes_succeed_def
        cli_request_def)
  with assms show ?thesis
    by (simp add: quic_open_def quic_connection_def quic_is_open_def warm_def quic_use_def
        quic_handshake_def and_then_def attempt_def do_call_def sys_def writes_succeed_def
        with_timeout_def timeout_def ret_def quic_asked_def quic_invalidate_def
        split: outcome.split prod.split)
qed

lemma quic_open_answered:
  assumes "writes_succeed os" and "warm os n" and "length (cli_token cfg) \<le> 255"
    and "os_inbox os = stream_of (response_bytes rsp @ rest) e"
  shows "fst ((quic_open os cfg c target (Some n) :: ('e, _) io) []) = Done
    (if rsp_status rsp = Ok then Inr () else Inl (Rejected (cli_refusal target (received_response rsp))),
     Some n)"
proof -
  have "fst (response_read_from (peer_rx os) (quic_asked n cfg c target)) = Done (received_response rsp)"
    using reads_asD [OF peer.response_reads_as, of os "quic_asked n cfg c target"] assms(4)
    by (simp add: quic_asked_peer response_read_write)
  then obtain h' where "response_read_from (peer_rx os) (quic_asked n cfg c target)
      = (Done (received_response rsp), h')"
    by (metis prod.collapse)
  with quic_open_warm [where 'e = 'e, OF assms(1-3), of c target] show ?thesis
    by (simp add: received_response_def)
qed

lemma quic_open_sends:
  assumes "writes_succeed os" and "warm os n" and "length (cli_token cfg) \<le> 255"
  shows "sent_to_peer os (snd ((quic_open os cfg c target (Some n) :: ('e, _) io) []))
    = request_bytes (cli_request cfg c target)"
proof -
  obtain r h' where read: "response_read_from (peer_rx os) (quic_asked n cfg c target) = (r, h')"
    by (cases "response_read_from (peer_rx os) (quic_asked n cfg c target)")
  with quic_open_warm [where 'e = 'e, OF assms, of c target]
  have "snd ((quic_open os cfg c target (Some n) :: ('e, _) io) []) = h'"
    by (cases r) simp_all
  with response_read_peer(2) [OF read] quic_asked_peer(2) [OF assms(1)] show ?thesis by simp
qed

subsection \<open>The proxy client's half of a gRPC session\<close>

definition grpc_asked :: "'net client_config \<Rightarrow> cmd \<Rightarrow> address \<Rightarrow> call list" where
  "grpc_asked cfg c target = [GrpcSendFrame (request_bytes (cli_request cfg c target)),
     Timer (unat (cli_connect_timeout_ms cfg)), GrpcOpen, Timer (unat (cli_connect_timeout_ms cfg))]"

lemma grpc_open_answered:
  assumes "writes_succeed os" and "length (cli_token cfg) \<le> 255"
    and "os_inbox os = stream_of (response_bytes rsp @ rest) e"
  shows "fst (grpc_open os cfg c target []) = (if rsp_status rsp = Ok then Done ()
    else Failed (GrpcRefused (cli_refusal target (received_response rsp))))"
proof -
  have "inbox_view s (grpc_asked cfg c target) = s" for s
    by (simp add: grpc_asked_def inbox_view_def)
  then have "fst (response_read_from (peer_rx os) (grpc_asked cfg c target)) = Done (received_response rsp)"
    using reads_asD [OF peer.response_reads_as, of os "grpc_asked cfg c target"] assms(3)
    by (simp add: response_read_write)
  then obtain h' where "response_read_from (peer_rx os) (grpc_asked cfg c target)
      = (Done (received_response rsp), h')"
    by (metis prod.collapse)
  with assms(1,2) show ?thesis
    by (simp add: grpc_open_def grpc_encode_iff cli_request_def grpc_asked_def writes_succeed_def
        and_then_def map_err_def do_call_def sys_def with_timeout_def timeout_def ret_def raise_def
        received_response_def)
qed

text \<open>What arrives through the two pumps, when it is long enough, begins with what was sent first.\<close>

lemma pumps_deliver:
  assumes "srv_outbound (bs @ later) a" and "client_inbound (take n (fo_frames a)) e b"
    and "length bs \<le> length (fi_written b)"
  obtains rest where "fi_written b = bs @ rest"
proof -
  from grpc_stream_prefix [OF assms(1,2) [unfolded srv_outbound_def client_inbound_def]] obtain rest where
      "fi_written b @ rest = bs @ later" by blast
  with assms(3) have "fi_written b = bs @ drop (length bs) (fi_written b)"
    by (auto simp: append_eq_append_conv2)
  then show thesis by (rule that)
qed

subsection \<open>Properties\<close>

text \<open>
  C1: the host and the VM agent together: where each reads what the other wrote, the outcome of
  opening a flow is the agent's verdict on the request: open on success, and otherwise refused
  with the status and the message of the verdict; and a TCP flow opens exactly when the two tokens
  are equal and some address of the target is permitted and can be dialled.
\<close>

theorem host_flow_gets_verdict:
  assumes "writes_succeed hos" and "static_world vos net dns"
    and "good_request (host_request cfg c target)" and "length (vm_token vcfg) \<le> 255"
    and "resolution dns target \<noteq> Pending" and "resolution dns target \<noteq> Panicked"
    and "os_inbox vos = stream_of (sent_to_peer hos (snd (host_open hos cfg c target [])) @ rest) e"
    and "os_inbox hos = stream_of (sent_to_peer vos (snd (vm_handle N vos vcfg [])) @ rest') e'"
  shows "(let v = verdict (lit ''bad token'') (vm_token_matches (vm_token vcfg)) (vm_permits N vcfg)
        (vm_bind_ip vcfg) net dns (host_request cfg c target) in
      fst (host_open hos cfg c target []) = (if rsp_status v = Ok then Done ()
        else Failed (Refused (host_refusal target (received_response v))))) \<and>
    (c = ConnectTcp \<longrightarrow> (fst (host_open hos cfg c target []) = Done () \<longleftrightarrow>
      hs_token cfg = vm_token vcfg \<and> (\<exists>as. resolution dns target = Done as \<and>
        (\<exists>a \<in> set as. vm_permits N vcfg (ip a) \<and> tcp_result net (vm_bind_ip vcfg) a = Done ()))))"
proof -
  let ?req = "host_request cfg c target"
  let ?v = "verdict (lit ''bad token'') (vm_token_matches (vm_token vcfg)) (vm_permits N vcfg)
    (vm_bind_ip vcfg) net dns ?req"
  from assms(3) have token: "length (hs_token cfg) \<le> 255"
    by (simp add: good_request_def host_request_def)
  from vm_handle_answer [OF assms(2,3) assms(7) [unfolded host_open_sends [OF assms(1) token]]]
    assms(5,6)
  have "sent_to_peer vos (snd (vm_handle N vos vcfg [])) = response_bytes ?v"
    by (simp add: host_request_def)
  with host_open_answered [OF assms(1) token, of ?v rest' e' c target] assms(8)
  have outcome: "fst (host_open hos cfg c target []) = (if rsp_status ?v = Ok then Done ()
      else Failed (Refused (host_refusal target (received_response ?v))))"
    by simp
  moreover have "rsp_status ?v = Ok \<longleftrightarrow> hs_token cfg = vm_token vcfg \<and>
      (\<exists>as. resolution dns target = Done as \<and>
        (\<exists>a \<in> set as. vm_permits N vcfg (ip a) \<and> tcp_result net (vm_bind_ip vcfg) a = Done ()))"
    if "c = ConnectTcp"
    using that token assms(4) vm_tokens.matches_exact [of "vm_token vcfg" "hs_token cfg"]
    by (auto simp: verdict_tcp_Ok host_request_def)
  ultimately show ?thesis unfolding Let_def by auto
qed

abbreviation "example_flow \<equiv>
  host_request (host_server host_sample_config) ConnectTcp (Ip (SA4 0x0A000001 80))"

definition example_agent_os :: os where
  "example_agent_os = example_os example_flow"

definition example_asking_os :: os where
  "example_asking_os = willing_os (stream_of
     (sent_to_peer example_agent_os (snd (vm_handle cidr_net example_agent_os vm_example_config [])) @ [])
     Stalls) []"

theorem host_flow_gets_verdict_witness:
  "let target = Ip (SA4 0x0A000001 80); cfg = host_server host_sample_config;
       run = fst (host_open example_asking_os cfg ConnectTcp target []) in
   (let v = verdict (lit ''bad token'') (vm_token_matches (vm_token vm_example_config))
        (vm_permits cidr_net vm_example_config) (vm_bind_ip vm_example_config) (\<lambda>c. Done ())
        (\<lambda>host p. Done [SA4 0xC0000201 p]) (host_request cfg ConnectTcp target) in
      run = (if rsp_status v = Ok then Done ()
        else Failed (Refused (host_refusal target (received_response v))))) \<and>
    (ConnectTcp = ConnectTcp \<longrightarrow> (run = Done () \<longleftrightarrow> hs_token cfg = vm_token vm_example_config \<and>
      (\<exists>as. resolution (\<lambda>host p. Done [SA4 0xC0000201 p]) target = Done as \<and>
        (\<exists>a \<in> set as. vm_permits cidr_net vm_example_config (ip a) \<and>
          tcp_result (\<lambda>c. Done ()) (vm_bind_ip vm_example_config) a = Done ()))))"
proof -
  let ?cfg = "host_server host_sample_config" and ?target = "Ip (SA4 0x0A000001 80)"
  have token: "length (hs_token ?cfg) \<le> 255" "length (vm_token vm_example_config) \<le> 255"
    by (simp_all add: host_sample_config_def vm_example_config_def lit_def)
  have w: "writes_succeed example_asking_os"
    unfolding example_asking_os_def by (rule willing_writes_succeed)
  have static: "static_world example_agent_os (\<lambda>c. Done ()) (\<lambda>host p. Done [SA4 0xC0000201 p])"
    unfolding example_agent_os_def by (rule example_os_static)
  have good: "good_request example_flow" by code_simp
  have asked: "os_inbox example_agent_os
      = stream_of (sent_to_peer example_asking_os
          (snd (host_open example_asking_os ?cfg ConnectTcp ?target [])) @ []) Stalls"
    using host_open_sends [OF w token(1)] by (simp add: example_agent_os_def example_os_inbox)
  have told: "os_inbox example_asking_os = stream_of (sent_to_peer example_agent_os
      (snd (vm_handle cidr_net example_agent_os vm_example_config [])) @ []) Stalls"
    by (simp add: example_asking_os_def willing_os_def)
  show ?thesis
    unfolding Let_def
    by (rule host_flow_gets_verdict [OF w static good token(2) _ _ asked told, unfolded Let_def])
      (simp_all add: resolution_def)
qed

text \<open>
  C2: the proxy client and the proxy server together, over a QUIC connection that is up: the
  outcome of opening a flow is the server's verdict on the request, the connection stays in the
  slot, and a TCP flow opens exactly when the tokens are equal and some address of the target is
  permitted and can be dialled.
\<close>

theorem quic_flow_gets_verdict:
  assumes "writes_succeed cos" and "warm cos n" and "static_world sos net dns"
    and "good_request (cli_request cfg c target)" and "length (srv_token scfg) \<le> 255"
    and "resolution dns target \<noteq> Panicked"
    and "os_inbox sos = stream_of (sent_to_peer cos
      (snd ((quic_open cos cfg c target (Some n) :: (unit, _) io) [])) @ rest) e"
    and "os_inbox cos = stream_of (sent_to_peer sos (snd (srv_handle_stream N sos scfg [])) @ rest') e'"
  shows "(let v = verdict (lit ''invalid token'') (srv_token_matches (srv_token scfg))
        (srv_permits N scfg) (srv_bind_ip scfg) net dns (cli_request cfg c target) in
      fst ((quic_open cos cfg c target (Some n) :: (unit, _) io) []) = Done
        (if rsp_status v = Ok then Inr ()
         else Inl (Rejected (cli_refusal target (received_response v))), Some n)) \<and>
    (c = ConnectTcp \<longrightarrow> (fst ((quic_open cos cfg c target (Some n) :: (unit, _) io) [])
        = Done (Inr (), Some n) \<longleftrightarrow>
      cli_token cfg = srv_token scfg \<and> (\<exists>as. resolution dns target = Done as \<and>
        (\<exists>a \<in> set as. srv_permits N scfg (ip a) \<and> tcp_result net (srv_bind_ip scfg) a = Done ()))))"
proof -
  let ?req = "cli_request cfg c target"
  let ?v = "verdict (lit ''invalid token'') (srv_token_matches (srv_token scfg)) (srv_permits N scfg)
    (srv_bind_ip scfg) net dns ?req"
  from assms(4) have token: "length (cli_token cfg) \<le> 255"
    by (simp add: good_request_def cli_request_def)
  from srv_handle_stream_answer [OF assms(3,4)
      assms(7) [unfolded quic_open_sends [where 'e = unit, OF assms(1,2) token]]] assms(6)
  have "sent_to_peer sos (snd (srv_handle_stream N sos scfg [])) = response_bytes ?v"
    by (simp add: cli_request_def)
  with quic_open_answered [where 'e = unit, OF assms(1,2) token, of ?v rest' e' c target] assms(8)
  have "fst ((quic_open cos cfg c target (Some n) :: (unit, _) io) []) = Done
      (if rsp_status ?v = Ok then Inr ()
       else Inl (Rejected (cli_refusal target (received_response ?v))), Some n)"
    by simp
  with srv_tcp_opens [OF assms(5) token] show ?thesis unfolding Let_def by (auto split: if_splits)
qed

abbreviation "example_stream \<equiv> cli_request cli_sample_config ConnectTcp (Ip (SA4 0xC0000201 80))"

definition example_server_os :: os where
  "example_server_os = example_os example_stream"

definition example_client_os :: os where
  "example_client_os = willing_os (stream_of (sent_to_peer example_server_os
     (snd (srv_handle_stream cidr_net example_server_os srv_example_config [])) @ []) Stalls) []"

theorem quic_flow_gets_verdict_witness:
  "let target = Ip (SA4 0xC0000201 80);
       run = fst ((quic_open example_client_os cli_sample_config ConnectTcp target (Some 7)
         :: (unit, _) io) []) in
   (let v = verdict (lit ''invalid token'') (srv_token_matches (srv_token srv_example_config))
        (srv_permits cidr_net srv_example_config) (srv_bind_ip srv_example_config) (\<lambda>c. Done ())
        (\<lambda>host p. Done [SA4 0xC0000201 p]) (cli_request cli_sample_config ConnectTcp target) in
      run = Done (if rsp_status v = Ok then Inr ()
         else Inl (Rejected (cli_refusal target (received_response v))), Some 7)) \<and>
    (ConnectTcp = ConnectTcp \<longrightarrow> (run = Done (Inr (), Some 7) \<longleftrightarrow>
      cli_token cli_sample_config = srv_token srv_example_config \<and>
      (\<exists>as. resolution (\<lambda>host p. Done [SA4 0xC0000201 p]) target = Done as \<and>
        (\<exists>a \<in> set as. srv_permits cidr_net srv_example_config (ip a) \<and>
          tcp_result (\<lambda>c. Done ()) (srv_bind_ip srv_example_config) a = Done ()))))"
proof -
  let ?target = "Ip (SA4 0xC0000201 80)"
  have token: "length (cli_token cli_sample_config) \<le> 255"
      "length (srv_token srv_example_config) \<le> 255"
    by (simp_all add: cli_sample_config_def srv_example_config_def lit_def)
  have w: "writes_succeed example_client_os"
    unfolding example_client_os_def by (rule willing_writes_succeed)
  have warm: "warm example_client_os 7"
    by (simp add: warm_def example_client_os_def willing_os_def)
  have static: "static_world example_server_os (\<lambda>c. Done ()) (\<lambda>host p. Done [SA4 0xC0000201 p])"
    unfolding example_server_os_def by (rule example_os_static)
  have good: "good_request example_stream" by code_simp
  have asked: "os_inbox example_server_os = stream_of (sent_to_peer example_client_os (snd ((quic_open
      example_client_os cli_sample_config ConnectTcp ?target (Some 7) :: (unit, _) io) [])) @ []) Stalls"
    using quic_open_sends [where 'e = unit, OF w warm token(1)]
    by (simp add: example_server_os_def example_os_inbox)
  have told: "os_inbox example_client_os = stream_of (sent_to_peer example_server_os
      (snd (srv_handle_stream cidr_net example_server_os srv_example_config [])) @ []) Stalls"
    by (simp add: example_client_os_def willing_os_def)
  show ?thesis
    unfolding Let_def
    by (rule quic_flow_gets_verdict [OF w warm static good token(2) _ asked told, unfolded Let_def])
      (simp add: resolution_def)
qed


lemma response_fits_frame: "response_bytes rsp \<noteq> []" "length (response_bytes rsp) \<le> FRAME_SIZE"
  by (simp_all add: response_bytes_def FRAME_SIZE_def Let_def MAGIC_def lit_def)

definition example_handler :: "(io_error, unit) io" where
  "example_handler = srv_handle_request cidr_net example_server_os srv_example_config example_stream"

definition example_grpc_os :: os where
  "example_grpc_os = willing_os (stream_of (fi_written (one_frame_got
     (sent_to_peer example_server_os (snd (example_handler []))))) Stalls) []"


end
