(* ===== verification/Grpc_Flow.thy ===== *)
theory Grpc_Flow
  imports Grpc_Pump Udp_Relay Tcp_Flow
begin

text \<open>
  Flows over gRPC, from one relay to the other: between \<open>relay.rs\<close> of the proxy client and
  \<open>server.rs\<close> of the proxy server there are, in each direction, a pipe, the task that cuts what it
  reads there into frames, the gRPC stream, the task that writes the frames into a pipe, and that
  pipe. The client's side of the first frame, and the response that precedes the relayed bytes on
  the way back, are those of \<open>open\<close>.
\<close>

subsection \<open>The two directions of a tunnel\<close>

text \<open>
  \<open>carried_up src got\<close>: when the client's relay has written \<open>src\<close>, the server's may have been given
  \<open>got\<close>. How far each task has come, and what gRPC has delivered, is free.
\<close>

definition carried_up :: "bytes \<Rightarrow> bytes \<Rightarrow> bool" where
  "carried_up src got \<longleftrightarrow> (\<exists>i a n e b j. client_outbound (take i src) a \<and>
     srv_inbound (take n (fo_frames a)) e b \<and> got = take j (fi_written b))"

definition carried_down :: "bytes \<Rightarrow> bytes \<Rightarrow> bool" where
  "carried_down src got \<longleftrightarrow> (\<exists>i a n e b j. srv_outbound (take i src) a \<and>
     client_inbound (take n (fo_frames a)) e b \<and> got = take j (fi_written b))"

text \<open>And when every task on the way has seen the end.\<close>

definition carried_up_whole :: "bytes \<Rightarrow> bytes \<Rightarrow> bool" where
  "carried_up_whole src got \<longleftrightarrow> (\<exists>a e b. client_outbound src a \<and> fo_pc a = OutEnded \<and>
     srv_inbound (fo_frames a) e b \<and> fi_fin b \<and> got = fi_written b)"

definition carried_down_whole :: "bytes \<Rightarrow> bytes \<Rightarrow> bool" where
  "carried_down_whole src got \<longleftrightarrow> (\<exists>a e b. srv_outbound src a \<and> fo_pc a = OutEnded \<and>
     client_inbound (fo_frames a) e b \<and> fi_fin b \<and> got = fi_written b)"

lemmas pump_defs = client_outbound_def srv_outbound_def client_inbound_def srv_inbound_def

lemma prefix_is_take: "\<exists>rest. xs @ rest = ys \<Longrightarrow> xs = take (length xs) ys"
  by auto

lemma pumps_take:
  assumes "(frame_out_step on_error)\<^sup>*\<^sup>* (fo_start (take i src)) a"
    and "(frame_in_step fin)\<^sup>*\<^sup>* (fi_start (take n (fo_frames a)) e) b"
  shows "\<exists>k. take j (fi_written b) = take k src"
  using prefix_is_take [OF grpc_stream_prefix [OF assms]] by (metis take_take)

lemma carried_up_take: "carried_up src got \<Longrightarrow> \<exists>k. got = take k src"
  unfolding carried_up_def pump_defs using pumps_take by blast

lemma carried_down_take: "carried_down src got \<Longrightarrow> \<exists>k. got = take k src"
  unfolding carried_down_def pump_defs using pumps_take by blast

lemma carried_up_whole_eq: "carried_up_whole src got \<Longrightarrow> got = src"
  unfolding carried_up_whole_def pump_defs using grpc_stream_complete by blast

lemma carried_down_whole_eq: "carried_down_whole src got \<Longrightarrow> got = src"
  unfolding carried_down_whole_def pump_defs using grpc_stream_complete by blast

text \<open>The relayed bytes begin behind the response, which \<open>open\<close> has read.\<close>

definition behind_response :: "bytes \<Rightarrow> bytes" where
  "behind_response bs = drop (length (response_bytes response_ok)) bs"

lemma behind_response_take:
  "\<exists>m. behind_response (take k (response_bytes response_ok @ bs)) = take m bs"
  by (rule exI [of _ "k - length (response_bytes response_ok)"])
    (simp add: behind_response_def drop_take del: take_append)

lemma carried_down_behind:
  assumes "carried_down (response_bytes response_ok @ bs) got"
  shows "\<exists>m. behind_response got = take m bs"
proof -
  obtain k where "got = take k (response_bytes response_ok @ bs)"
    using carried_down_take [OF assms] by (elim exE)
  then show ?thesis by (simp only: behind_response_take)
qed

lemma copy_fin_all:
  assumes "copy_inv src c" and "cp_fin c"
  shows "cp_dst c = src"
proof (rule copy_done_all [OF assms(1)])
  from assms show "cp_pc c = CopyDone" unfolding copy_inv_def by blast
qed

text \<open>A copy of a beginning of a copy.\<close>

lemma copy_of_copy:
  assumes "copy_inv (take n (cp_dst w)) r" and "copy_inv src w"
  shows "\<exists>rest. cp_dst r @ rest = src"
proof -
  from assms obtain x y where "cp_dst r @ x = take n (cp_dst w)" and "cp_dst w @ y = src"
    unfolding copy_inv_def by blast
  then have "cp_dst r @ (x @ drop n (cp_dst w) @ y) = src"
    by (metis append.assoc append_take_drop_id)
  then show ?thesis ..
qed

subsection \<open>Examples\<close>

lemma one_frame_carried:
  assumes "bs \<noteq> []" and "length bs \<le> FRAME_SIZE"
  shows "carried_up bs bs" "carried_down bs bs" "carried_up_whole bs bs" "carried_down_whole bs bs"
proof -
  let ?a = "one_frame_sent bs" and ?b = "one_frame_got bs"
  have sent: "client_outbound bs ?a" "srv_outbound bs ?a"
    using one_frame_out [OF assms] by (simp_all add: pump_defs)
  have frames: "fo_frames ?a = [bs]" "fo_pc ?a = OutEnded" by (simp_all add: one_frame_sent_def)
  have got: "srv_inbound (fo_frames ?a) FramesEnd ?b" "client_inbound (fo_frames ?a) FramesEnd ?b"
    using one_frame_in by (simp_all add: pump_defs frames)
  have fin: "fi_fin ?b" "fi_written ?b = bs" by (simp_all add: one_frame_got_def)
  show "carried_up_whole bs bs" "carried_down_whole bs bs"
    unfolding carried_up_whole_def carried_down_whole_def using sent got frames(2) fin by metis+
  show "carried_up bs bs"
    unfolding carried_up_def using sent(1) got(1) fin(2) frames(1)
    by (intro exI [of _ "length bs"] exI [of _ ?a] exI [of _ 1] exI [of _ FramesEnd] exI [of _ ?b]) simp
  show "carried_down bs bs"
    unfolding carried_down_def using sent(2) got(2) fin(2) frames(1)
    by (intro exI [of _ "length bs"] exI [of _ ?a] exI [of _ 1] exI [of _ FramesEnd] exI [of _ ?b]) simp
qed

lemma client_relay_uploads:
  "(copy_moves buffer)\<^sup>*\<^sup>* (cr_upload c) w \<Longrightarrow> cr_result c = None \<Longrightarrow>
    (client_tcp_step buffer)\<^sup>*\<^sup>* c (c\<lparr>cr_upload := w\<rparr>)"
proof (induction rule: rtranclp_induct)
  case (step w w')
  then obtain wrote where "copy_step buffer w wrote w'" by (auto simp: copy_moves_def)
  with step.prems have "client_tcp_step buffer (c\<lparr>cr_upload := w\<rparr>) (c\<lparr>cr_upload := w'\<rparr>)"
    using ClientUpload [of "c\<lparr>cr_upload := w\<rparr>" buffer wrote w'] by simp
  with step show ?case by simp
qed simp

subsection \<open>Properties\<close>

text \<open>
  C21: datagrams cross gRPC in both directions in order, none twice and none changed: what the
  server has sent to the target are the first datagrams that the client read from its device, and
  what the client has handed to the device are the first that the server received, without the
  empty ones; however the streams were cut into frames, and however far each task on the way has
  come.
\<close>

theorem datagrams_cross_grpc:
  assumes "client_udp_relay (stream_of (behind_response down) e1) l"
    and "srv_udp_relay idle (stream_of up e2) s"
    and "carried_up (lo_out l) up" and "carried_down (response_bytes response_ok @ gw_out s) down"
  shows "gw_sent s = take (length (gw_sent s)) (lo_read l) \<and>
    (\<exists>k. lo_written l = filter (\<lambda>d. d \<noteq> []) (take k (gw_received s)))"
proof -
  obtain n m where "up = take n (lo_out l)" "behind_response down = take m (gw_out s)"
    using carried_up_take [OF assms(3)] carried_down_behind [OF assms(4)] by blast
  with assms(1,2) have
      l: "lo_reachable client_on_eof (stream_of (take m (gw_out s)) e1) l"
      and s: "gw_reachable srv_on_idle idle (stream_of (take n (lo_out l)) e2) s"
    by (simp_all add: client_udp_relay_def srv_udp_relay_def)
  show ?thesis
    using srv_udp.uplink_end_to_end [OF l s] srv_udp.downlink_end_to_end [OF s l] by (rule conjI)
qed

theorem datagrams_cross_grpc_witness:
  "gw_sent example_gateway = take (length (gw_sent example_gateway)) (lo_read example_local) \<and>
    (\<exists>k. lo_written example_local = filter (\<lambda>d. d \<noteq> []) (take k (gw_received example_gateway)))"
proof (rule datagrams_cross_grpc)
  show "client_udp_relay (stream_of (behind_response (response_bytes response_ok @ [0, 1, 9])) Stalls)
      example_local"
    using example_local_reachable [of client_on_eof] by (simp add: client_udp_relay_def behind_response_def)
  show "srv_udp_relay 5 (stream_of [0, 1, 7] Stalls) example_gateway"
    using example_gateway_reachable [of srv_on_idle 5] by (simp add: srv_udp_relay_def)
  show "carried_up (lo_out example_local) [0, 1, 7]"
    using one_frame_carried [of "[0, 1, 7]"] by (simp add: example_local_def FRAME_SIZE_def)
  show "carried_down (response_bytes response_ok @ gw_out example_gateway)
      (response_bytes response_ok @ [0, 1, 9])"
    using one_frame_carried [of "response_bytes response_ok @ [0, 1, 9]"]
    by (simp add: example_gateway_def FRAME_SIZE_def response_bytes_def response_ok_def MAGIC_def lit_def)
qed

text \<open>
  C22: the bytes of a TCP flow over gRPC: the target has been given a beginning of what the
  application sent, and the application a beginning of what the target sent; and whoever was told
  that there is no more, after every task on the way saw the end of its own input, was given all.
\<close>

theorem tcp_crosses_grpc:
  assumes "client_tcp_relay buffer from_app (behind_response down) c"
    and "tcp_reachable idle up from_target s"
    and "carried_up (cp_dst (cr_upload c)) up"
    and "carried_down (response_bytes response_ok @ cp_dst (tr_download s)) down"
  shows "(\<exists>x. cp_dst (tr_upload s) @ x = from_app) \<and> (\<exists>y. cp_dst (cr_download c) @ y = from_target) \<and>
    (cp_fin (tr_upload s) \<and> carried_up_whole (cp_dst (cr_upload c)) up \<and> cp_fin (cr_upload c) \<longrightarrow>
      cp_dst (tr_upload s) = from_app) \<and>
    (cp_fin (cr_download c) \<and> cp_fin (tr_download s) \<and>
      carried_down_whole (response_bytes response_ok @ cp_dst (tr_download s)) down \<longrightarrow>
      cp_dst (cr_download c) = from_target)"
proof -
  from client_reachable_inv assms(1) have c: "client_streams_inv from_app (behind_response down) c"
    unfolding client_tcp_relay_def .
  from tcp_reachable_invs [OF assms(2)] have s: "streams_inv up from_target s" ..
  obtain n m where up: "up = take n (cp_dst (cr_upload c))"
      and down: "behind_response down = take m (cp_dst (tr_download s))"
    using carried_up_take [OF assms(3)] carried_down_behind [OF assms(4)] by blast
  have inv: "copy_inv from_app (cr_upload c)" "copy_inv (take m (cp_dst (tr_download s))) (cr_download c)"
      "copy_inv (take n (cp_dst (cr_upload c))) (tr_upload s)" "copy_inv from_target (tr_download s)"
    using c s up down by (simp_all add: streams_inv_def client_streams_inv_def)
  have "cp_dst (tr_upload s) = from_app"
    if "cp_fin (tr_upload s)" "carried_up_whole (cp_dst (cr_upload c)) up" "cp_fin (cr_upload c)"
    using copy_fin_all [OF inv(1) that(3)] copy_fin_all [OF inv(3) that(1)] carried_up_whole_eq [OF that(2)] up
    by simp
  moreover have "cp_dst (cr_download c) = from_target"
    if "cp_fin (cr_download c)" "cp_fin (tr_download s)"
      "carried_down_whole (response_bytes response_ok @ cp_dst (tr_download s)) down"
    using copy_fin_all [OF inv(4) that(2)] copy_fin_all [OF inv(2) that(1)] carried_down_whole_eq [OF that(3)]
      down by (simp add: behind_response_def)
  ultimately show ?thesis
    using copy_of_copy [OF inv(3,1)] copy_of_copy [OF inv(2,4)] by blast
qed

theorem tcp_crosses_grpc_witness:
  "cp_dst (tr_upload tcp_example) = [1]"
proof -
  let ?c = "(cr_start [1] [])\<lparr>cr_upload := drained (cp_start [1])\<rparr>" and ?down = "response_bytes response_ok"
  have "client_tcp_relay 8192 [1] (behind_response ?down) ?c"
    using client_relay_uploads [of 8192 "cr_start [1] []" "drained (cp_start [1])"] copy_drains [of 8192 "cp_start [1]"]
    by (simp add: client_tcp_relay_def behind_response_def cr_start_def)
  moreover have out: "cp_dst (cr_upload ?c) = [1]" "cp_fin (cr_upload ?c)" by simp_all
  have up: "carried_up [1] [1]" "carried_up_whole [1] [1]"
    using one_frame_carried [of "[1]"] by (simp_all add: FRAME_SIZE_def)
  have "carried_down (?down @ cp_dst (tr_download tcp_example)) ?down"
    using one_frame_carried [of ?down]
    by (simp add: tcp_example_def FRAME_SIZE_def response_bytes_def response_ok_def MAGIC_def lit_def)
  moreover have "cp_fin (tr_upload tcp_example)" by (simp add: tcp_example_def)
  ultimately show ?thesis
    using tcp_crosses_grpc [OF _ tcp_example_reachable, of 8192 "[1]" ?down ?c] up out by simp
qed

end
