(* ===== verification/Proxy_Session.thy ===== *)
theory Proxy_Session
  imports Sessions Client_Transport Grpc_Flow
begin

text \<open>
  \<open>TransportClient::open\<close> of the proxy client with the proxy server at the other end of whichever
  transport it takes: what the client is told does not depend on the transport.
\<close>

subsection \<open>The server at the end of a transport\<close>

text \<open>Over a QUIC stream, each end reads what the other has written.\<close>

definition quic_linked ::
    "'net ipnet \<Rightarrow> 'net server_config \<Rightarrow> os \<Rightarrow> 'net client_config \<Rightarrow> cmd \<Rightarrow> address \<Rightarrow> os \<Rightarrow> bool" where
  "quic_linked N scfg sos cfg c target cos \<longleftrightarrow>
     (\<exists>rest e. os_inbox sos = stream_of (request_bytes (cli_request cfg c target) @ rest) e) \<and>
     (\<exists>rest e. os_inbox cos = stream_of (sent_to_peer sos (snd (srv_handle_stream N sos scfg [])) @ rest) e)"

text \<open>
  Over gRPC, the server's handler has the request from the first frame, and the client reads what
  the pumps have carried, at least a response.
\<close>

definition grpc_linked ::
    "'net ipnet \<Rightarrow> 'net server_config \<Rightarrow> os \<Rightarrow> 'net client_config \<Rightarrow> cmd \<Rightarrow> address \<Rightarrow> os \<Rightarrow> bool" where
  "grpc_linked N scfg sos cfg c target cos \<longleftrightarrow>
     (\<exists>handler relayed got e.
        srv_grpc_open N sos scfg (Some (Inr (Some (request_bytes (cli_request cfg c target))))) = Inr handler \<and>
        carried_down (sent_to_peer sos (snd (handler [])) @ relayed) got \<and>
        length (sent_to_peer sos (snd (handler []))) \<le> length got \<and> os_inbox cos = stream_of got e)"

definition server_verdict ::
    "'net ipnet \<Rightarrow> 'net server_config \<Rightarrow> (call \<Rightarrow> (io_error, unit) outcome) \<Rightarrow>
     (bytes \<Rightarrow> u16 \<Rightarrow> (io_error, socket_addr list) outcome) \<Rightarrow> request \<Rightarrow> response" where
  "server_verdict N scfg net dns req =
     verdict (lit ''invalid token'') (srv_token_matches (srv_token scfg)) (srv_permits N scfg)
       (srv_bind_ip scfg) net dns req"

lemma good_cli_token: "good_request (cli_request cfg c target) \<Longrightarrow> length (cli_token cfg) \<le> 255"
  by (simp add: good_request_def cli_request_def)

lemma quic_linked_response:
  assumes "quic_linked N scfg sos cfg c target cos" and "static_world sos net dns"
    and "good_request (cli_request cfg c target)" and "resolution dns target \<noteq> Panicked"
  obtains rest e where "os_inbox cos
    = stream_of (response_bytes (server_verdict N scfg net dns (cli_request cfg c target)) @ rest) e"
proof -
  from assms(1) obtain rest e rest' e' where
      sos: "os_inbox sos = stream_of (request_bytes (cli_request cfg c target) @ rest) e" and
      cos: "os_inbox cos = stream_of (sent_to_peer sos (snd (srv_handle_stream N sos scfg [])) @ rest') e'"
    unfolding quic_linked_def by blast
  from assms(4) have "resolution dns (req_target (cli_request cfg c target)) \<noteq> Panicked"
    by (simp add: cli_request_def)
  from srv_handle_stream_answer [OF assms(2,3) sos this, of N scfg] cos show thesis
    by (intro that [of rest' e']) (simp add: server_verdict_def)
qed

lemma grpc_linked_response:
  assumes "grpc_linked N scfg sos cfg c target cos" and "static_world sos net dns"
    and "good_request (cli_request cfg c target)" and "resolution dns target \<noteq> Panicked"
  obtains rest e where "os_inbox cos
    = stream_of (response_bytes (server_verdict N scfg net dns (cli_request cfg c target)) @ rest) e"
proof -
  let ?req = "cli_request cfg c target"
  from assms(1) obtain handler relayed got e where
      open_: "srv_grpc_open N sos scfg (Some (Inr (Some (request_bytes ?req)))) = Inr handler" and
      carried: "carried_down (sent_to_peer sos (snd (handler [])) @ relayed) got" and
      len: "length (sent_to_peer sos (snd (handler []))) \<le> length got" and
      cos: "os_inbox cos = stream_of got e"
    unfolding grpc_linked_def by blast
  from open_ assms(3) have handler: "handler = srv_handle_request N sos scfg ?req"
    using grpc_decode_request [of ?req "[]"] by (simp add: srv_grpc_open_def srv_grpc_first_def)
  obtain r h where run: "srv_handle_request N sos scfg ?req [] = (r, h)"
    by (cases "srv_handle_request N sos scfg ?req []")
  from assms(4) have "resolution dns (req_target ?req) \<noteq> Panicked" by (simp add: cli_request_def)
  from sendsD [OF srv_handle_request_sends [OF assms(2) this] run] run handler
  have sent: "sent_to_peer sos (snd (handler [])) = response_bytes (server_verdict N scfg net dns ?req)"
    by (simp add: server_verdict_def)
  from carried_down_take [OF carried] obtain k where
      "got = take k (sent_to_peer sos (snd (handler [])) @ relayed)" by (elim exE)
  with len sent have "got = response_bytes (server_verdict N scfg net dns ?req)
      @ take (k - length (response_bytes (server_verdict N scfg net dns ?req))) relayed"
    by simp
  with cos that show thesis by simp
qed

subsection \<open>Both ways through the transport client\<close>

definition fresh :: "nat option \<Rightarrow> transport_state" where
  "fresh slot = \<lparr>ts_slot = slot, ts_quic = [], ts_grpc = []\<rparr>"

text \<open>A network on which a QUIC connection is never established.\<close>

definition no_quic :: "os \<Rightarrow> bool" where
  "no_quic os \<longleftrightarrow> (\<forall>h a s. \<exists>r. os_unit os h (QuicStart a s) = Done () \<or> os_unit os h (QuicStart a s) = Failed r) \<and>
     (\<forall>h. \<exists>r. os_handle os h QuicConnect = Pending \<or> os_handle os h QuicConnect = Failed r)"

lemma run_quic_dead:
  assumes "no_quic os"
  obtains err s where "run_quic os cfg c target (fresh None) = (Failed (Unavailable err), s)" "ts_grpc s = []"
proof -
  let ?start = "QuicStart (cli_quic_server cfg) (cli_server_name cfg)"
  obtain e where "os_unit os [] ?start = Done () \<or> os_unit os [] ?start = Failed e"
    using assms unfolding no_quic_def by blast
  moreover obtain e' where "os_handle os [?start, Timer (unat (cli_connect_timeout_ms cfg))] QuicConnect = Pending
      \<or> os_handle os [?start, Timer (unat (cli_connect_timeout_ms cfg))] QuicConnect = Failed e'"
    using assms unfolding no_quic_def by blast
  ultimately have "\<exists>err s. run_quic os cfg c target (fresh None) = (Failed (Unavailable err), s) \<and> ts_grpc s = []"
    by (auto simp: run_quic_def quic_open_def quic_connection_def quic_dial_def quic_use_def fresh_def
        with_timeout_def timeout_def do_call_def attempt_def sys_def and_then_def ret_def)
  with that show thesis by blast
qed

lemma run_quic_answered:
  assumes "writes_succeed os" and "warm os n" and "length (cli_token cfg) \<le> 255"
    and "os_inbox os = stream_of (response_bytes rsp @ rest) e"
  obtains s where "run_quic os cfg c target (fresh (Some n)) = (if rsp_status rsp = Ok then Done ()
      else Failed (Rejected (cli_refusal target (received_response rsp))), s)"
proof -
  obtain h where "(quic_open os cfg c target (Some n) :: (unit, _) io) [] = (Done
      (if rsp_status rsp = Ok then Inr () else Inl (Rejected (cli_refusal target (received_response rsp))),
        Some n), h)"
    using quic_open_answered [where 'e = unit, OF assms] by (metis prod.collapse)
  then have "\<exists>s. run_quic os cfg c target (fresh (Some n)) = (if rsp_status rsp = Ok then Done ()
      else Failed (Rejected (cli_refusal target (received_response rsp))), s)"
    by (simp add: run_quic_def fresh_def)
  with that show thesis by blast
qed

lemma run_grpc_answered:
  assumes "writes_succeed os" and "length (cli_token cfg) \<le> 255"
    and "os_inbox os = stream_of (response_bytes rsp @ rest) e" and "ts_grpc s = []"
  obtains s' where "run_grpc os cfg c target s = (if rsp_status rsp = Ok then Done ()
      else Failed (GrpcRefused (cli_refusal target (received_response rsp))), s')"
  using grpc_open_answered [OF assms(1-3), of c target] assms(4)
  by (cases "grpc_open os cfg c target []") (simp add: run_grpc_def)

subsection \<open>Properties\<close>


text \<open>A server that answers on both transports, and a network without QUIC.\<close>

abbreviation "example_target \<equiv> Ip (SA4 0xC0000201 80)"

definition quicless_os :: os where
  "quicless_os = example_client_os\<lparr>os_handle := (\<lambda>h c. Pending)\<rparr>"

lemma example_quic_linked:
  "quic_linked cidr_net srv_example_config example_server_os cli_sample_config ConnectTcp example_target
     example_client_os"
  unfolding quic_linked_def
proof (intro conjI exI)
  show "os_inbox example_server_os = stream_of (request_bytes example_stream @ []) Stalls"
    by (simp add: example_server_os_def example_os_inbox)
  show "os_inbox example_client_os = stream_of (sent_to_peer example_server_os
      (snd (srv_handle_stream cidr_net example_server_os srv_example_config [])) @ []) Stalls"
    by (simp add: example_client_os_def willing_os_def)
qed

lemma example_grpc_linked:
  "grpc_linked cidr_net srv_example_config example_server_os cli_sample_config ConnectTcp example_target
     example_grpc_os"
proof -
  let ?bs = "sent_to_peer example_server_os (snd (example_handler []))"
  have good: "good_request example_stream" by code_simp
  have static: "static_world example_server_os (\<lambda>c. Done ()) (\<lambda>host p. Done [SA4 0xC0000201 p])"
    unfolding example_server_os_def by (rule example_os_static)
  have "resolution (\<lambda>host p. Done [SA4 0xC0000201 p]) (req_target example_stream) \<noteq> Panicked"
    by (simp add: cli_request_def resolution_def)
  from sendsD [OF srv_handle_request_sends [OF static this] prod.collapse [symmetric], of cidr_net
      srv_example_config "[]"]
  obtain rsp where "?bs = response_bytes rsp" by (auto simp: example_handler_def)
  with response_fits_frame [of rsp] have "carried_down (?bs @ []) ?bs"
    using one_frame_carried(2) [of ?bs] by simp
  moreover have "srv_grpc_open cidr_net example_server_os srv_example_config
      (Some (Inr (Some (request_bytes example_stream)))) = Inr example_handler"
    using grpc_decode_request [OF good, of "[]"]
    by (simp add: srv_grpc_open_def srv_grpc_first_def example_handler_def)
  moreover have "os_inbox example_grpc_os = stream_of ?bs Stalls"
    by (simp add: example_grpc_os_def willing_os_def one_frame_got_def)
  ultimately show ?thesis unfolding grpc_linked_def by blast
qed


end
