(* ===== verification/Backpressure.thy ===== *)
theory Backpressure
  imports Grpc_Pump Tcp_Relay
begin

text \<open>
  One direction of a TCP flow over gRPC with its bounded buffers: the copy of the near relay, the pipe
  of \<open>tokio::io::duplex(PIPE_CAPACITY)\<close>, the task that cuts frames, the channel
  \<open>mpsc::channel(32)\<close>, the task that writes the frames, the second pipe, and the copy of the far relay
  (\<open>open\<close> of \<open>crates/proxy-client/src/grpc.rs\<close> and of \<open>crates/proxy-server/src/grpc.rs\<close>, \<open>relay_tcp\<close> of
  both programs). Every task waits while the buffer before it is empty or the one behind it is full.
  The question is whether they can all wait at once.

  \<open>write_all\<close> writes as much as the pipe takes and waits for the rest; gRPC hands on the frames of the
  channel in order. Nothing fails here: what failures lead to is in \<open>Tcp_Flow\<close> and \<open>Grpc_Flow\<close>.
\<close>

definition PIPE_CAPACITY :: nat where "PIPE_CAPACITY = 64 * 1024"
definition CHANNEL_CAPACITY :: nat where "CHANNEL_CAPACITY = 32"

datatype stage = Moving | Closing | Ended

text \<open>
  For the copies, the bytes of the buffer not yet written; likewise for the task that writes frames.
  \<open>ch_sent\<close> is a history variable: all frames sent so far.
\<close>

record chain =
  ch_src :: bytes
  ch_near :: bytes
  ch_near_stage :: stage
  ch_pipe1 :: bytes
  ch_pipe1_closed :: bool
  ch_out :: bytes
  ch_out_ended :: bool
  ch_frames :: "bytes list"
  ch_in :: bytes
  ch_in_ended :: bool
  ch_pipe2 :: bytes
  ch_pipe2_closed :: bool
  ch_far :: bytes
  ch_far_stage :: stage
  ch_dst :: bytes
  ch_dst_fin :: bool
  ch_sent :: "bytes list"

definition ch_start :: "bytes \<Rightarrow> chain" where
  "ch_start src =
     \<lparr>ch_src = src, ch_near = [], ch_near_stage = Moving, ch_pipe1 = [], ch_pipe1_closed = False,
      ch_out = [], ch_out_ended = False, ch_frames = [], ch_in = [], ch_in_ended = False,
      ch_pipe2 = [], ch_pipe2_closed = False, ch_far = [], ch_far_stage = Moving, ch_dst = [],
      ch_dst_fin = False, ch_sent = []\<rparr>"

text \<open>\<open>near_buffer\<close> and \<open>far_buffer\<close> are the sizes of the two relays' copy buffers.\<close>

inductive chain_step :: "nat \<Rightarrow> nat \<Rightarrow> chain \<Rightarrow> chain \<Rightarrow> bool" for near_buffer far_buffer where
  NearRead: "\<lbrakk>ch_near_stage s = Moving; ch_near s = []; 0 < n; n \<le> near_buffer;
     n \<le> length (ch_src s)\<rbrakk> \<Longrightarrow>
   chain_step near_buffer far_buffer s (s\<lparr>ch_src := drop n (ch_src s), ch_near := take n (ch_src s)\<rparr>)"
| NearEof: "\<lbrakk>ch_near_stage s = Moving; ch_near s = []; ch_src s = []\<rbrakk> \<Longrightarrow>
   chain_step near_buffer far_buffer s (s\<lparr>ch_near_stage := Closing\<rparr>)"
| NearWrite: "\<lbrakk>0 < n; n \<le> length (ch_near s); length (ch_pipe1 s) + n \<le> PIPE_CAPACITY\<rbrakk> \<Longrightarrow>
   chain_step near_buffer far_buffer s
     (s\<lparr>ch_pipe1 := ch_pipe1 s @ take n (ch_near s), ch_near := drop n (ch_near s)\<rparr>)"
| NearClose: "ch_near_stage s = Closing \<Longrightarrow>
   chain_step near_buffer far_buffer s (s\<lparr>ch_pipe1_closed := True, ch_near_stage := Ended\<rparr>)"
| OutRead: "\<lbrakk>\<not> ch_out_ended s; ch_out s = []; 0 < n; n \<le> FRAME_SIZE; n \<le> length (ch_pipe1 s)\<rbrakk> \<Longrightarrow>
   chain_step near_buffer far_buffer s
     (s\<lparr>ch_pipe1 := drop n (ch_pipe1 s), ch_out := take n (ch_pipe1 s)\<rparr>)"
| OutEof: "\<lbrakk>\<not> ch_out_ended s; ch_out s = []; ch_pipe1 s = []; ch_pipe1_closed s\<rbrakk> \<Longrightarrow>
   chain_step near_buffer far_buffer s (s\<lparr>ch_out_ended := True\<rparr>)"
| OutSend: "\<lbrakk>ch_out s \<noteq> []; length (ch_frames s) < CHANNEL_CAPACITY\<rbrakk> \<Longrightarrow>
   chain_step near_buffer far_buffer s
     (s\<lparr>ch_frames := ch_frames s @ [ch_out s], ch_out := [], ch_sent := ch_sent s @ [ch_out s]\<rparr>)"
| InReceive: "\<lbrakk>\<not> ch_in_ended s; ch_in s = []; ch_frames s = f # fs\<rbrakk> \<Longrightarrow>
   chain_step near_buffer far_buffer s (s\<lparr>ch_frames := fs, ch_in := f\<rparr>)"
| InEnd: "\<lbrakk>\<not> ch_in_ended s; ch_in s = []; ch_frames s = []; ch_out_ended s\<rbrakk> \<Longrightarrow>
   chain_step near_buffer far_buffer s (s\<lparr>ch_pipe2_closed := True, ch_in_ended := True\<rparr>)"
| InWrite: "\<lbrakk>0 < n; n \<le> length (ch_in s); length (ch_pipe2 s) + n \<le> PIPE_CAPACITY\<rbrakk> \<Longrightarrow>
   chain_step near_buffer far_buffer s
     (s\<lparr>ch_pipe2 := ch_pipe2 s @ take n (ch_in s), ch_in := drop n (ch_in s)\<rparr>)"
| FarRead: "\<lbrakk>ch_far_stage s = Moving; ch_far s = []; 0 < n; n \<le> far_buffer;
     n \<le> length (ch_pipe2 s)\<rbrakk> \<Longrightarrow>
   chain_step near_buffer far_buffer s
     (s\<lparr>ch_pipe2 := drop n (ch_pipe2 s), ch_far := take n (ch_pipe2 s)\<rparr>)"
| FarEof: "\<lbrakk>ch_far_stage s = Moving; ch_far s = []; ch_pipe2 s = []; ch_pipe2_closed s\<rbrakk> \<Longrightarrow>
   chain_step near_buffer far_buffer s (s\<lparr>ch_far_stage := Closing\<rparr>)"
| FarWrite: "\<lbrakk>0 < n; n \<le> length (ch_far s)\<rbrakk> \<Longrightarrow>
   chain_step near_buffer far_buffer s
     (s\<lparr>ch_dst := ch_dst s @ take n (ch_far s), ch_far := drop n (ch_far s)\<rparr>)"
| FarClose: "ch_far_stage s = Closing \<Longrightarrow>
   chain_step near_buffer far_buffer s (s\<lparr>ch_dst_fin := True, ch_far_stage := Ended\<rparr>)"

definition chain_reachable :: "nat \<Rightarrow> nat \<Rightarrow> bytes \<Rightarrow> chain \<Rightarrow> bool" where
  "chain_reachable near_buffer far_buffer src s \<longleftrightarrow>
     (chain_step near_buffer far_buffer)\<^sup>*\<^sup>* (ch_start src) s"

text \<open>
  Upwards the near relay is the client's, with the buffer of \<open>tokio::io::copy\<close>, and the far one the
  server's; downwards it is the other way round.
\<close>

definition upload_chain :: "nat \<Rightarrow> bytes \<Rightarrow> chain \<Rightarrow> bool" where
  "upload_chain tokio_buffer src s \<longleftrightarrow> chain_reachable tokio_buffer COPY_BUFFER src s"

definition download_chain :: "nat \<Rightarrow> bytes \<Rightarrow> chain \<Rightarrow> bool" where
  "download_chain tokio_buffer src s \<longleftrightarrow> chain_reachable COPY_BUFFER tokio_buffer src s"

subsection \<open>No byte is lost, no buffer overflows\<close>

definition in_transit :: "chain \<Rightarrow> bytes" where
  "in_transit s = ch_far s @ ch_pipe2 s @ ch_in s @ concat (ch_frames s) @ ch_out s @ ch_pipe1 s
     @ ch_near s @ ch_src s"

definition within_capacity :: "chain \<Rightarrow> bool" where
  "within_capacity s \<longleftrightarrow> length (ch_pipe1 s) \<le> PIPE_CAPACITY \<and> length (ch_pipe2 s) \<le> PIPE_CAPACITY \<and>
     length (ch_frames s) \<le> CHANNEL_CAPACITY \<and> (\<forall>f \<in> set (ch_frames s). f \<noteq> [] \<and> length f \<le> FRAME_SIZE) \<and>
     length (ch_out s) \<le> FRAME_SIZE"

text \<open>Who has ended, in the order of the chain.\<close>

definition ends_in_order :: "chain \<Rightarrow> bool" where
  "ends_in_order s \<longleftrightarrow>
     (ch_near_stage s \<noteq> Moving \<longrightarrow> ch_near s = [] \<and> ch_src s = []) \<and>
     (ch_pipe1_closed s \<longleftrightarrow> ch_near_stage s = Ended) \<and>
     (ch_out_ended s \<longrightarrow> ch_pipe1_closed s \<and> ch_pipe1 s = [] \<and> ch_out s = []) \<and>
     (ch_pipe2_closed s \<longleftrightarrow> ch_in_ended s) \<and>
     (ch_in_ended s \<longrightarrow> ch_out_ended s \<and> ch_frames s = [] \<and> ch_in s = []) \<and>
     (ch_far_stage s \<noteq> Moving \<longrightarrow> ch_pipe2_closed s \<and> ch_pipe2 s = [] \<and> ch_far s = []) \<and>
     (ch_dst_fin s \<longleftrightarrow> ch_far_stage s = Ended)"

definition bounded_inv :: "bytes \<Rightarrow> chain \<Rightarrow> bool" where
  "bounded_inv src s \<longleftrightarrow> ch_dst s @ in_transit s = src \<and> within_capacity s \<and> ends_in_order s"

lemma chain_conserves:
  "chain_step near_buffer far_buffer s s' \<Longrightarrow> ch_dst s' @ in_transit s' = ch_dst s @ in_transit s"
  by (induction rule: chain_step.induct) (simp_all add: in_transit_def)

lemma chain_capacity:
  "chain_step near_buffer far_buffer s s' \<Longrightarrow> within_capacity s \<Longrightarrow> within_capacity s'"
  by (induction rule: chain_step.induct) (auto simp: within_capacity_def)

lemma chain_ends:
  "chain_step near_buffer far_buffer s s' \<Longrightarrow> ends_in_order s \<Longrightarrow> ends_in_order s'"
  by (induction rule: chain_step.induct) (auto simp: ends_in_order_def)

lemma chain_reachable_inv: "chain_reachable near_buffer far_buffer src s \<Longrightarrow> bounded_inv src s"
  unfolding chain_reachable_def
proof (induction rule: rtranclp_induct)
  case base
  then show ?case
    by (simp add: bounded_inv_def ch_start_def in_transit_def within_capacity_def ends_in_order_def)
next
  case (step s s')
  then show ?case
    using chain_conserves chain_capacity chain_ends unfolding bounded_inv_def by metis
qed

subsection \<open>Progress\<close>

fun stage_work :: "stage \<Rightarrow> nat" where
  "stage_work Moving = 2"
| "stage_work Closing = 1"
| "stage_work Ended = 0"

text \<open>Every byte has as much before it as stations lie ahead of it.\<close>

definition chain_work :: "chain \<Rightarrow> nat" where
  "chain_work s = 8 * length (ch_src s) + 7 * length (ch_near s) + 6 * length (ch_pipe1 s)
     + 5 * length (ch_out s) + 4 * length (concat (ch_frames s)) + 3 * length (ch_in s)
     + 2 * length (ch_pipe2 s) + length (ch_far s) + stage_work (ch_near_stage s)
     + (if ch_out_ended s then 0 else 1) + (if ch_in_ended s then 0 else 1)
     + stage_work (ch_far_stage s)"

lemma chain_step_work:
  assumes "chain_step near_buffer far_buffer s s'" and "within_capacity s"
  shows "chain_work s' < chain_work s"
  using assms
  by (induction rule: chain_step.induct) (auto simp: chain_work_def within_capacity_def)

text \<open>Somebody can always go on: the last task that has something to do, looking from the far end.\<close>

lemma far_end_moves:
  assumes "ends_in_order s" and "0 < far_buffer" and "\<not> ch_dst_fin s"
    and "ch_far s \<noteq> [] \<or> ch_pipe2 s \<noteq> [] \<or> ch_pipe2_closed s"
  shows "\<exists>s'. chain_step near_buffer far_buffer s s'"
proof (cases "ch_far s = []")
  case False
  then have "1 \<le> length (ch_far s)" by (simp add: Suc_leI)
  with FarWrite [of 1 s] show ?thesis by auto
next
  case far: True
  show ?thesis
  proof (cases "ch_far_stage s")
    case Moving
    show ?thesis
    proof (cases "ch_pipe2 s = []")
      case True
      with Moving far assms(4) show ?thesis by (blast intro: FarEof)
    next
      case False
      then have "1 \<le> length (ch_pipe2 s)" by (simp add: Suc_leI)
      with FarRead [OF Moving far, of 1 far_buffer] assms(2) show ?thesis by (auto simp: Suc_le_eq)
    qed
  next
    case Closing
    then show ?thesis by (blast intro: FarClose)
  next
    case Ended
    with assms(1,3) show ?thesis by (simp add: ends_in_order_def)
  qed
qed

lemma in_task_moves:
  assumes "\<not> ch_in_ended s" and "ch_pipe2 s = []"
    and "ch_in s \<noteq> [] \<or> ch_frames s \<noteq> [] \<or> ch_out_ended s"
  shows "\<exists>s'. chain_step near_buffer far_buffer s s'"
proof (cases "ch_in s = []")
  case False
  then have "1 \<le> length (ch_in s)" by (simp add: Suc_leI)
  with InWrite [of 1 s] assms(2) show ?thesis by (auto simp: PIPE_CAPACITY_def)
next
  case True
  with assms InEnd [of s] InReceive [of s] show ?thesis by (metis neq_Nil_conv)
qed

lemma out_task_moves:
  assumes "\<not> ch_out_ended s" and "ch_frames s = []"
    and "ch_out s \<noteq> [] \<or> ch_pipe1 s \<noteq> [] \<or> ch_pipe1_closed s"
  shows "\<exists>s'. chain_step near_buffer far_buffer s s'"
proof (cases "ch_out s = []")
  case False
  with OutSend [of s] assms(2) show ?thesis by (auto simp: CHANNEL_CAPACITY_def)
next
  case out: True
  show ?thesis
  proof (cases "ch_pipe1 s = []")
    case True
    with out assms OutEof [of s] show ?thesis by blast
  next
    case False
    then have "1 \<le> length (ch_pipe1 s)" by (simp add: Suc_leI)
    with OutRead [OF assms(1) out, of 1] show ?thesis by (auto simp: FRAME_SIZE_def)
  qed
qed

lemma near_end_moves:
  assumes "ch_near_stage s \<noteq> Ended" and "0 < near_buffer" and "ch_pipe1 s = []"
  shows "\<exists>s'. chain_step near_buffer far_buffer s s'"
proof (cases "ch_near s = []")
  case False
  then have "1 \<le> length (ch_near s)" by (simp add: Suc_leI)
  with NearWrite [of 1 s] assms(3) show ?thesis by (auto simp: PIPE_CAPACITY_def)
next
  case near: True
  show ?thesis
  proof (cases "ch_near_stage s")
    case Moving
    show ?thesis
    proof (cases "ch_src s = []")
      case True
      with NearEof [OF Moving near] show ?thesis by blast
    next
      case False
      then have "1 \<le> length (ch_src s)" by (simp add: Suc_leI)
      with NearRead [OF Moving near, of 1 near_buffer] assms(2) show ?thesis by (auto simp: Suc_le_eq)
    qed
  next
    case Closing
    then show ?thesis by (blast intro: NearClose)
  qed (use assms(1) in simp)
qed

lemma chain_not_stuck:
  assumes "ends_in_order s" and "0 < near_buffer" "0 < far_buffer" and "\<not> ch_dst_fin s"
  shows "\<exists>s'. chain_step near_buffer far_buffer s s'"
proof -
  consider (far) "ch_far s \<noteq> [] \<or> ch_pipe2 s \<noteq> [] \<or> ch_pipe2_closed s"
    | (inbound) "ch_pipe2 s = []" "\<not> ch_in_ended s" "ch_in s \<noteq> [] \<or> ch_frames s \<noteq> [] \<or> ch_out_ended s"
    | (outbound) "ch_frames s = []" "\<not> ch_out_ended s" "ch_out s \<noteq> [] \<or> ch_pipe1 s \<noteq> [] \<or> ch_pipe1_closed s"
    | (near) "ch_pipe1 s = []" "ch_near_stage s \<noteq> Ended"
    using assms(1) unfolding ends_in_order_def by blast
  then show ?thesis
    using far_end_moves [OF assms(1,3,4)] in_task_moves out_task_moves near_end_moves [OF _ assms(2)]
    by cases blast+
qed

lemma chain_ended_all:
  assumes "bounded_inv src s" and "ch_dst_fin s"
  shows "ch_dst s = src"
  using assms by (auto simp: bounded_inv_def ends_in_order_def in_transit_def)

lemma COPY_BUFFER_pos: "0 < COPY_BUFFER"
  by (simp add: COPY_BUFFER_def)

text \<open>Once the end has been passed on there is nothing left to do.\<close>

lemma chain_ended_stuck:
  assumes "chain_step near_buffer far_buffer s s'" and "ends_in_order s"
  shows "\<not> ch_dst_fin s"
  using assms by (induction rule: chain_step.induct) (auto simp: ends_in_order_def)

lemma chain_stuck_iff:
  assumes "chain_reachable near_buffer far_buffer src s" and "0 < near_buffer" "0 < far_buffer"
  shows "(\<nexists>s'. chain_step near_buffer far_buffer s s') \<longleftrightarrow> ch_dst s = src \<and> ch_dst_fin s"
  using chain_not_stuck [OF _ assms(2,3)] chain_ended_stuck chain_ended_all
    chain_reachable_inv [OF assms(1)] unfolding bounded_inv_def by blast

lemma chain_no_infinite_run:
  assumes "chain_reachable near_buffer far_buffer src s"
  shows "\<nexists>f. f 0 = s \<and> (\<forall>i. chain_step near_buffer far_buffer (f i) (f (Suc i)))"
proof
  assume "\<exists>f. f 0 = s \<and> (\<forall>i. chain_step near_buffer far_buffer (f i) (f (Suc i)))"
  then obtain f where f: "f 0 = s" "\<And>i. chain_step near_buffer far_buffer (f i) (f (Suc i))" by blast
  have "chain_reachable near_buffer far_buffer src (f i)" for i
  proof (induction i)
    case (Suc i)
    with f(2) [of i] show ?case by (simp add: chain_reachable_def)
  qed (use assms f(1) in simp)
  then have "within_capacity (f i)" for i
    using chain_reachable_inv unfolding bounded_inv_def by blast
  then have less: "chain_work (f (Suc i)) < chain_work (f i)" for i
    using chain_step_work [OF f(2)] by blast
  have "chain_work (f i) + i \<le> chain_work (f 0)" for i
  proof (induction i)
    case (Suc i)
    with less [of i] show ?case by simp
  qed simp
  from this [of "Suc (chain_work (f 0))"] show False by simp
qed

lemma chain_all_delivered:
  assumes "chain_reachable near_buffer far_buffer src s" and "0 < near_buffer" "0 < far_buffer"
  shows "(\<nexists>f. f 0 = s \<and> (\<forall>i. chain_step near_buffer far_buffer (f i) (f (Suc i)))) \<and>
    ((\<nexists>s'. chain_step near_buffer far_buffer s s') \<longleftrightarrow> ch_dst s = src \<and> ch_dst_fin s) \<and>
    within_capacity s"
  using chain_no_infinite_run [OF assms(1)] chain_stuck_iff [OF assms] chain_reachable_inv [OF assms(1)]
  by (simp add: bounded_inv_def)

lemma chain_completes:
  "\<exists>s. chain_reachable near_buffer far_buffer src s \<and> (\<nexists>s'. chain_step near_buffer far_buffer s s')"
proof -
  have "\<exists>t. (chain_step near_buffer far_buffer)\<^sup>*\<^sup>* s t \<and> (\<nexists>t'. chain_step near_buffer far_buffer t t')"
    if "within_capacity s" for s
    using that
  proof (induction "chain_work s" arbitrary: s rule: less_induct)
    case less
    show ?case
    proof (cases "\<exists>s'. chain_step near_buffer far_buffer s s'")
      case True
      then obtain s' where s': "chain_step near_buffer far_buffer s s'" ..
      from less.hyps [OF chain_step_work [OF s' less.prems] chain_capacity [OF s' less.prems]] s'
      show ?thesis by (meson converse_rtranclp_into_rtranclp)
    qed blast
  qed
  moreover have "within_capacity (ch_start src)" by (simp add: within_capacity_def ch_start_def)
  ultimately show ?thesis unfolding chain_reachable_def by blast
qed

subsection \<open>The bounded tasks are the unbounded ones\<close>

text \<open>
  The task that cuts frames, as in \<open>Grpc_Pump\<close>: waiting for the pipe and for the channel makes no
  difference to what it does.
\<close>

definition out_view :: "chain \<Rightarrow> frame_out" where
  "out_view s =
     \<lparr>fo_src = ch_pipe1 s @ ch_near s @ ch_src s, fo_frames = ch_sent s, fo_status = None,
      fo_pc = (if ch_out_ended s then OutEnded else if ch_out s = [] then OutReading
        else OutSending (ch_out s))\<rparr>"

lemma out_view_step:
  assumes "chain_step near_buffer far_buffer s s'" and "ends_in_order s"
  shows "out_view s' = out_view s \<or> frame_out_step on_error (out_view s) (out_view s')"
  using assms
proof (induction rule: chain_step.induct)
  case (OutRead s n)
  then show ?case
    using frame_out_step.OutRead [of "out_view s" n on_error] by (auto simp: out_view_def)
next
  case (OutEof s)
  then show ?case
    using frame_out_step.OutEof [of "out_view s" on_error] by (auto simp: out_view_def ends_in_order_def)
next
  case (OutSend s)
  then show ?case
    using frame_out_step.OutSent [of "out_view s" "ch_out s" on_error]
    by (auto simp: out_view_def ends_in_order_def)
qed (auto simp: out_view_def)

lemma out_view_reachable:
  assumes "chain_reachable near_buffer far_buffer src s"
  shows "(frame_out_step on_error)\<^sup>*\<^sup>* (fo_start src) (out_view s)"
  using assms unfolding chain_reachable_def
proof (induction rule: rtranclp_induct)
  case base
  then show ?case by (simp add: out_view_def ch_start_def fo_start_def)
next
  case (step s s')
  then have "ends_in_order s"
    using chain_reachable_inv unfolding chain_reachable_def bounded_inv_def by blast
  from out_view_step [OF step.hyps(2) this] step.IH show ?case
    by (metis rtranclp.rtrancl_into_rtrancl)
qed

subsection \<open>Properties\<close>

text \<open>
  C23: with pipes of 64 KiB and channels of 32 frames, the tasks of a TCP flow over gRPC never
  wait for each other in a circle: in both directions no schedule goes on for ever, and when no
  task can go on any more, every byte has been delivered and the end passed on; no buffer ever
  holds more than its capacity; and the frames are those of the task that cuts them, however long
  it had to wait.
\<close>

theorem bounded_flow_delivers:
  assumes "0 < tokio_buffer" and "upload_chain tokio_buffer from_app u"
    and "download_chain tokio_buffer from_target d"
  shows "(\<nexists>f. f 0 = u \<and> (\<forall>i. chain_step tokio_buffer COPY_BUFFER (f i) (f (Suc i)))) \<and>
    (\<nexists>f. f 0 = d \<and> (\<forall>i. chain_step COPY_BUFFER tokio_buffer (f i) (f (Suc i)))) \<and>
    ((\<nexists>u'. chain_step tokio_buffer COPY_BUFFER u u') \<longleftrightarrow> ch_dst u = from_app \<and> ch_dst_fin u) \<and>
    ((\<nexists>d'. chain_step COPY_BUFFER tokio_buffer d d') \<longleftrightarrow> ch_dst d = from_target \<and> ch_dst_fin d) \<and>
    within_capacity u \<and> within_capacity d \<and>
    client_outbound from_app (out_view u) \<and> srv_outbound from_target (out_view d)"
proof -
  note u = assms(2) [unfolded upload_chain_def] and d = assms(3) [unfolded download_chain_def]
  from chain_all_delivered [OF u assms(1) COPY_BUFFER_pos] chain_all_delivered [OF d COPY_BUFFER_pos assms(1)]
    out_view_reachable [OF u, of client_out_error] out_view_reachable [OF d, of srv_out_error]
  show ?thesis
    unfolding client_outbound_def srv_outbound_def by (elim conjE) (intro conjI; assumption)
qed

theorem bounded_flow_delivers_witness:
  "\<exists>u d. upload_chain 8192 [1, 2] u \<and> download_chain 8192 [3] d \<and> ch_dst u = [1, 2] \<and> ch_dst_fin u \<and>
    ch_dst d = [3] \<and> client_outbound [1, 2] (out_view u) \<and> srv_outbound [3] (out_view d)"
proof -
  obtain u where u: "upload_chain 8192 [1, 2] u" and up: "\<nexists>u'. chain_step 8192 COPY_BUFFER u u'"
    using chain_completes [of 8192 COPY_BUFFER "[1, 2]"] unfolding upload_chain_def by blast
  obtain d where d: "download_chain 8192 [3] d" and down: "\<nexists>d'. chain_step COPY_BUFFER 8192 d d'"
    using chain_completes [of COPY_BUFFER 8192 "[3]"] unfolding download_chain_def by blast
  have "0 < (8192 :: nat)" by simp
  from bounded_flow_delivers [OF this u d] u d up down show ?thesis
    by (intro exI [of _ u] exI [of _ d]) simp
qed

end
