(* ===== verification/Config_Documents.thy ===== *)
theory Config_Documents
  imports Host_Config Client_Config Server_Config
begin

text \<open>
  From the fields a document gives to a configuration. The \<open>config.rs\<close> of every crate says with
  \<open>#[serde(default)]\<close> and \<open>#[serde(default = ..)]\<close> which fields may be absent and what they are then. A
  document is the fields it gives, those that may be absent as options; making one of a text (TOML,
  unknown fields, values of a wrong type, absent required fields) is the argument \<open>from_toml\<close> of the
  \<open>load\<close> functions, and here that of the parser in front of the defaults.
\<close>

definition given :: "'a option \<Rightarrow> 'a \<Rightarrow> 'a" where
  "given field d = (case field of Some v \<Rightarrow> v | None \<Rightarrow> d)"

lemma given_simps [simp]: "given (Some v) d = v" "given None d = d"
  by (simp_all add: given_def)

lemma given_iff: "P (given field d) \<longleftrightarrow> (case field of Some v \<Rightarrow> P v | None \<Rightarrow> P d)"
  by (simp add: given_def split: option.split)

definition parsed :: "(bytes \<Rightarrow> bytes + 'doc) \<Rightarrow> ('doc \<Rightarrow> 'cfg) \<Rightarrow> bytes \<Rightarrow> bytes + 'cfg" where
  "parsed from_toml fill text = (case from_toml text of Inl e \<Rightarrow> Inl e | Inr doc \<Rightarrow> Inr (fill doc))"

lemma parsed_Inr [simp]:
  "parsed from_toml fill text = Inr cfg \<longleftrightarrow> (\<exists>doc. from_toml text = Inr doc \<and> cfg = fill doc)"
  by (auto simp: parsed_def split: sum.split)

subsection \<open>The documents\<close>

record 'net vm_document =
  vmd_listen :: socket_addr
  vmd_token :: "bytes option"
  vmd_allow :: "'net list option"
  vmd_deny :: "'net list option"
  vmd_bind_ip :: "ip_addr option"
  vmd_connect_timeout_ms :: "u64 option"
  vmd_udp_timeout_secs :: "u64 option"
  vmd_tcp_nodelay :: "bool option"

record host_server_document =
  hsd_address :: socket_addr
  hsd_token :: "bytes option"
  hsd_connect_timeout_ms :: "u64 option"
  hsd_reconnect_interval_ms :: "u64 option"
  hsd_tcp_nodelay :: "bool option"

record tun_document =
  td_name :: "bytes option"
  td_address :: "u32 option"
  td_netmask :: "u32 option"
  td_mtu :: "u16 option"
  td_auto_route :: "bool option"

record dns_document =
  dd_listen :: socket_addr
  dd_upstream :: "socket_addr list"
  dd_timeout_ms :: "u64 option"

record 'net host_document =
  hd_server :: host_server_document
  hd_tun :: "tun_document option"
  hd_routes :: "'net list option"
  hd_exclude :: "'net list option"
  hd_dns :: "dns_document option"

record 'net client_document =
  cld_server :: socket_addr
  cld_quic_enabled :: "bool option"
  cld_grpc_enabled :: "bool option"
  cld_quic_server :: "socket_addr option"
  cld_grpc_server :: "socket_addr option"
  cld_token :: bytes
  cld_server_name :: "bytes option"
  cld_certificate :: path
  cld_routes :: "'net list"
  cld_connect_timeout_ms :: "u64 option"
  cld_reconnect_interval_ms :: "u64 option"
  cld_tun :: "tun_document option"

record 'net server_document =
  svd_listen :: socket_addr
  svd_quic_enabled :: "bool option"
  svd_grpc_enabled :: "bool option"
  svd_quic_listen :: "socket_addr option"
  svd_grpc_listen :: "socket_addr option"
  svd_token :: bytes
  svd_server_name :: "bytes option"
  svd_certificate :: "path option"
  svd_private_key :: "path option"
  svd_allow :: "'net list option"
  svd_deny :: "'net list option"
  svd_bind_ip :: "ip_addr option"
  svd_connect_timeout_ms :: "u64 option"
  svd_dns_timeout_ms :: "u64 option"
  svd_tcp_idle_timeout_secs :: "u64 option"
  svd_udp_timeout_secs :: "u64 option"
  svd_max_concurrent_streams :: "u32 option"

subsection \<open>The defaults\<close>

definition host_default_true :: bool where "host_default_true = True"
definition cli_default_true :: bool where "cli_default_true = True"
definition srv_default_true :: bool where "srv_default_true = True"

definition vm_of_document :: "'net vm_document \<Rightarrow> 'net vm_config" where
  "vm_of_document d =
     \<lparr>vm_listen = vmd_listen d,
      vm_token = given (vmd_token d) [],
      vm_allow = given (vmd_allow d) [],
      vm_deny = given (vmd_deny d) [],
      vm_bind_ip = vmd_bind_ip d,
      vm_connect_timeout_ms = given (vmd_connect_timeout_ms d) vm_default_connect_timeout,
      vm_udp_timeout_secs = given (vmd_udp_timeout_secs d) vm_default_udp_timeout,
      vm_tcp_nodelay = given (vmd_tcp_nodelay d) vm_default_true\<rparr>"

definition host_server_of_document :: "host_server_document \<Rightarrow> host_server_config" where
  "host_server_of_document d =
     \<lparr>hs_address = hsd_address d,
      hs_token = given (hsd_token d) [],
      hs_connect_timeout_ms = given (hsd_connect_timeout_ms d) host_default_connect_timeout,
      hs_reconnect_interval_ms = given (hsd_reconnect_interval_ms d) host_default_reconnect_interval,
      hs_tcp_nodelay = given (hsd_tcp_nodelay d) host_default_true\<rparr>"

definition host_tun_of_document :: "tun_document \<Rightarrow> tun_config" where
  "host_tun_of_document d =
     \<lparr>tun_name = given (td_name d) host_default_tun_name,
      tun_address = given (td_address d) host_default_tun_address,
      tun_netmask = given (td_netmask d) host_default_tun_netmask,
      tun_mtu = given (td_mtu d) host_default_mtu,
      tun_auto_route = given (td_auto_route d) host_default_true\<rparr>"

definition dns_of_document :: "dns_document \<Rightarrow> dns_config" where
  "dns_of_document d =
     \<lparr>dns_listen = dd_listen d, dns_upstream = dd_upstream d,
      dns_timeout_ms = given (dd_timeout_ms d) host_default_dns_timeout\<rparr>"

definition host_of_document :: "'net host_document \<Rightarrow> 'net host_config" where
  "host_of_document d =
     \<lparr>host_server = host_server_of_document (hd_server d),
      host_tun = given (map_option host_tun_of_document (hd_tun d)) host_tun_default,
      host_routes = given (hd_routes d) [],
      host_exclude = given (hd_exclude d) [],
      host_dns = map_option dns_of_document (hd_dns d)\<rparr>"

definition cli_tun_of_document :: "tun_document \<Rightarrow> client_tun_config" where
  "cli_tun_of_document d =
     \<lparr>ctun_name = given (td_name d) cli_default_tun_name,
      ctun_address = given (td_address d) cli_default_tun_address,
      ctun_netmask = given (td_netmask d) cli_default_tun_netmask,
      ctun_mtu = given (td_mtu d) cli_default_mtu,
      ctun_auto_route = given (td_auto_route d) cli_default_true\<rparr>"

definition cli_of_document :: "'net client_document \<Rightarrow> 'net client_config" where
  "cli_of_document d =
     \<lparr>cli_server = cld_server d,
      cli_quic_enabled = given (cld_quic_enabled d) cli_default_true,
      cli_grpc_enabled = given (cld_grpc_enabled d) cli_default_true,
      cli_quic_server_opt = cld_quic_server d,
      cli_grpc_server_opt = cld_grpc_server d,
      cli_token = cld_token d,
      cli_server_name = given (cld_server_name d) cli_default_server_name,
      cli_certificate = cld_certificate d,
      cli_routes = cld_routes d,
      cli_connect_timeout_ms = given (cld_connect_timeout_ms d) cli_default_connect_timeout,
      cli_reconnect_interval_ms = given (cld_reconnect_interval_ms d) cli_default_reconnect_interval,
      cli_tun = given (map_option cli_tun_of_document (cld_tun d)) cli_tun_default\<rparr>"

definition srv_of_document :: "'net server_document \<Rightarrow> 'net server_config" where
  "srv_of_document d =
     \<lparr>srv_listen = svd_listen d,
      srv_quic_enabled = given (svd_quic_enabled d) srv_default_true,
      srv_grpc_enabled = given (svd_grpc_enabled d) srv_default_true,
      srv_quic_listen_opt = svd_quic_listen d,
      srv_grpc_listen_opt = svd_grpc_listen d,
      srv_token = svd_token d,
      srv_server_name = given (svd_server_name d) srv_default_server_name,
      srv_certificate = given (svd_certificate d) srv_default_certificate,
      srv_private_key = given (svd_private_key d) srv_default_private_key,
      srv_allow = given (svd_allow d) [],
      srv_deny = given (svd_deny d) [],
      srv_bind_ip = svd_bind_ip d,
      srv_connect_timeout_ms = given (svd_connect_timeout_ms d) srv_default_connect_timeout,
      srv_dns_timeout_ms = given (svd_dns_timeout_ms d) srv_default_dns_timeout,
      srv_tcp_idle_timeout_secs = given (svd_tcp_idle_timeout_secs d) srv_default_tcp_idle_timeout,
      srv_udp_timeout_secs = given (svd_udp_timeout_secs d) srv_default_udp_timeout,
      srv_max_concurrent_streams = given (svd_max_concurrent_streams d) srv_default_max_streams\<rparr>"

lemmas default_defs =
  vm_default_connect_timeout_def vm_default_udp_timeout_def vm_default_true_def
  host_default_connect_timeout_def host_default_reconnect_interval_def host_default_tun_name_def
  host_default_tun_address_def host_default_tun_netmask_def host_default_mtu_def
  host_default_dns_timeout_def host_default_true_def
  cli_default_server_name_def cli_default_connect_timeout_def cli_default_reconnect_interval_def
  cli_default_tun_name_def cli_default_tun_address_def cli_default_tun_netmask_def
  cli_default_mtu_def cli_default_true_def
  srv_default_server_name_def srv_default_certificate_def srv_default_private_key_def
  srv_default_connect_timeout_def srv_default_dns_timeout_def srv_default_tcp_idle_timeout_def
  srv_default_udp_timeout_def srv_default_max_streams_def srv_default_true_def

text \<open>An empty section and an absent one are the same.\<close>

definition empty_tun :: tun_document where
  "empty_tun =
     \<lparr>td_name = None, td_address = None, td_netmask = None, td_mtu = None, td_auto_route = None\<rparr>"

lemma empty_tun_is_absent:
  "host_tun_of_document empty_tun = host_tun_default" "cli_tun_of_document empty_tun = cli_tun_default"
  by (simp_all add: host_tun_of_document_def cli_tun_of_document_def empty_tun_def
      host_tun_default_def cli_tun_default_def host_default_true_def cli_default_true_def)

subsection \<open>Which documents are accepted\<close>

text \<open>\<open>holds_if_given P field\<close>: an absent field is never what a program refuses to start for.\<close>

definition holds_if_given :: "('a \<Rightarrow> bool) \<Rightarrow> 'a option \<Rightarrow> bool" where
  "holds_if_given P field \<longleftrightarrow> (case field of Some v \<Rightarrow> P v | None \<Rightarrow> True)"

lemma holds_if_given_default: "P d \<Longrightarrow> P (given field d) \<longleftrightarrow> holds_if_given P field"
  by (simp add: holds_if_given_def given_def split: option.split)

definition server_document_ok :: "'net server_document \<Rightarrow> bool" where
  "server_document_ok d \<longleftrightarrow>
     (svd_quic_enabled d \<noteq> Some False \<or> svd_grpc_enabled d \<noteq> Some False) \<and>
     svd_token d \<noteq> [] \<and> length (svd_token d) \<le> 255 \<and>
     holds_if_given (\<lambda>name. \<not> trim_is_empty name) (svd_server_name d) \<and>
     svd_max_concurrent_streams d \<noteq> Some 0 \<and> svd_connect_timeout_ms d \<noteq> Some 0 \<and>
     svd_dns_timeout_ms d \<noteq> Some 0 \<and> svd_tcp_idle_timeout_secs d \<noteq> Some 0 \<and>
     svd_udp_timeout_secs d \<noteq> Some 0"

definition host_document_ok :: "'net host_document \<Rightarrow> bool" where
  "host_document_ok d \<longleftrightarrow>
     (\<exists>net nets. hd_routes d = Some (net # nets)) \<and>
     hsd_reconnect_interval_ms (hd_server d) \<noteq> Some 0 \<and>
     holds_if_given (\<lambda>tun. holds_if_given ((\<le>) 1280) (td_mtu tun) \<and>
       holds_if_given (\<lambda>a. \<not> is_broadcast a \<and> \<not> is_unspecified a) (td_address tun)) (hd_tun d)"

definition vm_document_ok :: "'net vm_document \<Rightarrow> bool" where
  "vm_document_ok d \<longleftrightarrow> holds_if_given (\<lambda>t. length t \<le> 255) (vmd_token d)"

text \<open>The addresses the client will connect to, from what the document says of its transports.\<close>

definition document_servers :: "'net client_document \<Rightarrow> socket_addr list" where
  "document_servers d =
     (if cld_quic_enabled d = Some False then [] else [given (cld_quic_server d) (cld_server d)])
     @ (if cld_grpc_enabled d = Some False then [] else [given (cld_grpc_server d) (cld_server d)])"

definition client_document_ok :: "'net ipnet \<Rightarrow> 'net client_document \<Rightarrow> bool" where
  "client_document_ok N d \<longleftrightarrow> document_servers d \<noteq> [] \<and>
     cld_token d \<noteq> [] \<and> length (cld_token d) \<le> 255 \<and>
     holds_if_given (\<lambda>name. \<not> trim_is_empty name) (cld_server_name d) \<and>
     cld_routes d \<noteq> [] \<and>
     (\<forall>net \<in> set (cld_routes d). ip_is_ipv4 (net_addr N net) \<and>
       (\<forall>server \<in> set (document_servers d). \<not> net_contains N net (ip server))) \<and>
     holds_if_given (\<lambda>tun. holds_if_given ((\<le>) 1280) (td_mtu tun)) (cld_tun d) \<and>
     cld_reconnect_interval_ms d \<noteq> Some 0"

lemma given_not [simp]: "d \<noteq> v \<Longrightarrow> given field d = v \<longleftrightarrow> field = Some v"
  by (auto simp: given_def split: option.split)

lemma given_enabled [simp]: "given field True \<longleftrightarrow> field \<noteq> Some False"
  by (auto simp: given_def split: option.split)

lemma default_server_name_ok [simp]:
  "\<not> trim_is_empty srv_default_server_name" "\<not> trim_is_empty cli_default_server_name"
  by code_simp+

lemma default_tun_ok [simp]:
  "1280 \<le> host_default_mtu" "1280 \<le> cli_default_mtu"
  "\<not> is_broadcast host_default_tun_address" "\<not> is_unspecified host_default_tun_address"
  by code_simp+

lemma host_of_document_valid: "host_valid (host_of_document d) \<longleftrightarrow> host_document_ok d"
proof -
  have tun: "given (map_option host_tun_of_document (hd_tun d)) host_tun_default
      = host_tun_of_document (given (hd_tun d) empty_tun)"
    by (simp add: given_def flip: empty_tun_is_absent split: option.split)
  show ?thesis
    unfolding host_valid_def host_document_ok_def host_of_document_def tun
    by (auto simp: host_server_of_document_def host_tun_of_document_def holds_if_given_def given_def
        empty_tun_def host_default_reconnect_interval_def neq_Nil_conv split: option.splits)
qed

lemma srv_of_document_valid: "srv_valid (srv_of_document d) \<longleftrightarrow> server_document_ok d"
  by (auto simp: srv_valid_def srv_of_document_def server_document_ok_def holds_if_given_def
      given_def srv_default_true_def srv_default_connect_timeout_def srv_default_dns_timeout_def
      srv_default_tcp_idle_timeout_def srv_default_udp_timeout_def srv_default_max_streams_def
      split: option.splits)

lemma cli_of_document_servers: "cli_enabled_servers (cli_of_document d) = document_servers d"
  by (simp add: cli_enabled_servers_def cli_of_document_def document_servers_def cli_quic_server_def
      cli_grpc_server_def cli_default_true_def given_def split: option.split)

lemma cli_of_document_valid: "cli_valid N (cli_of_document d) \<longleftrightarrow> client_document_ok N d"
proof -
  have tun: "given (map_option cli_tun_of_document (cld_tun d)) cli_tun_default
      = cli_tun_of_document (given (cld_tun d) empty_tun)"
    by (simp add: given_def flip: empty_tun_is_absent split: option.split)
  have enabled: "cli_quic_enabled (cli_of_document d) \<or> cli_grpc_enabled (cli_of_document d)
      \<longleftrightarrow> document_servers d \<noteq> []"
    by (auto simp: cli_of_document_def document_servers_def cli_default_true_def)
  have mtu: "1280 \<le> ctun_mtu (cli_tun (cli_of_document d))
      \<longleftrightarrow> holds_if_given (\<lambda>tun. holds_if_given ((\<le>) 1280) (td_mtu tun)) (cld_tun d)"
    unfolding cli_of_document_def tun
    by (auto simp: cli_tun_of_document_def holds_if_given_def given_def empty_tun_def
        split: option.splits)
  show ?thesis
    unfolding cli_valid_def client_document_ok_def enabled mtu cli_of_document_servers
    by (auto simp: cli_of_document_def holds_if_given_def given_def
        cli_default_reconnect_interval_def split: option.splits)
qed

lemma vm_of_document_valid: "vm_validate (vm_of_document d) = Inr () \<longleftrightarrow> vm_document_ok d"
  by (auto simp: vm_validate_def vm_of_document_def vm_document_ok_def holds_if_given_def given_def
      split: option.split)

lemma cli_valid_certificate [simp]: "cli_valid N (cfg\<lparr>cli_certificate := c\<rparr>) \<longleftrightarrow> cli_valid N cfg"
  by (simp add: cli_valid_def cli_enabled_servers_def cli_quic_server_def cli_grpc_server_def
      cong: option.case_cong)

lemma srv_valid_paths [simp]:
  "srv_valid (cfg\<lparr>srv_certificate := c, srv_private_key := k\<rparr>) \<longleftrightarrow> srv_valid cfg"
  by (simp add: srv_valid_def)

lemma validate_dests:
  "host_validate c1 = Inl e1 \<Longrightarrow> \<not> host_valid c1" "host_validate c1 = Inr u \<Longrightarrow> host_valid c1"
  "cli_validate N c2 = Inl e2 \<Longrightarrow> \<not> cli_valid N c2" "cli_validate N c2 = Inr u \<Longrightarrow> cli_valid N c2"
  "srv_validate c3 = Inl e3 \<Longrightarrow> \<not> srv_valid c3" "srv_validate c3 = Inr u \<Longrightarrow> srv_valid c3"
  by (simp_all flip: host_validate_iff cli_validate_iff srv_validate_iff)

lemma host_load_document:
  "(\<exists>cfg. host_load rd (parsed toml host_of_document) p = Inr cfg) \<longleftrightarrow>
    (\<exists>text d. rd p = Inr text \<and> toml text = Inr d \<and> host_document_ok d)"
  by (auto simp: host_load_def parsed_def dest: validate_dests
      simp flip: host_of_document_valid split: sum.split)

lemma vm_load_document:
  "(\<exists>cfg. vm_load rd (parsed toml vm_of_document) p = Inr cfg) \<longleftrightarrow>
    (\<exists>text d. rd p = Inr text \<and> toml text = Inr d \<and> vm_document_ok d)"
  by (auto simp: vm_load_def parsed_def simp flip: vm_of_document_valid split: sum.split)

lemma cli_load_document:
  "(\<exists>cfg. cli_load N rd (parsed toml cli_of_document) p = Inr cfg) \<longleftrightarrow>
    (\<exists>text d. rd p = Inr text \<and> toml text = Inr d \<and> client_document_ok N d)"
  by (auto simp: cli_load_def Let_def parsed_def dest!: validate_dests
      simp flip: cli_of_document_valid split: sum.split)

lemma srv_load_document:
  "(\<exists>cfg. srv_load rd (parsed toml srv_of_document) p = Inr cfg) \<longleftrightarrow>
    (\<exists>text d. rd p = Inr text \<and> toml text = Inr d \<and> server_document_ok d)"
  by (auto simp: srv_load_def Let_def parsed_def
      dest!: validate_dests simp flip: srv_of_document_valid split: sum.split)

subsection \<open>Properties\<close>

text \<open>
  C39: Each program loads its configuration exactly when the file can be read, parses, and no
  field that it gives is out of range; whatever may be absent from the document has a default that
  is accepted. The routes of the host, and the required fields, have to be given.
\<close>

theorem documents_accepted:
  "((\<exists>cfg. host_load rd (parsed toml_h host_of_document) p = Inr cfg) \<longleftrightarrow>
      (\<exists>text d. rd p = Inr text \<and> toml_h text = Inr d \<and> host_document_ok d)) \<and>
   ((\<exists>cfg. vm_load rd (parsed toml_v vm_of_document) p = Inr cfg) \<longleftrightarrow>
      (\<exists>text d. rd p = Inr text \<and> toml_v text = Inr d \<and> vm_document_ok d)) \<and>
   ((\<exists>cfg. cli_load N rd (parsed toml_c cli_of_document) p = Inr cfg) \<longleftrightarrow>
      (\<exists>text d. rd p = Inr text \<and> toml_c text = Inr d \<and> client_document_ok N d)) \<and>
   ((\<exists>cfg. srv_load rd (parsed toml_s srv_of_document) p = Inr cfg) \<longleftrightarrow>
      (\<exists>text d. rd p = Inr text \<and> toml_s text = Inr d \<and> server_document_ok d))"
  by (intro conjI) (rule host_load_document vm_load_document cli_load_document srv_load_document)+

end
