(* ===== verification/Command_Line.thy ===== *)
theory Command_Line
  imports Startup Config_Documents
begin

text \<open>
  The four programs from their arguments on: \<open>Cli\<close> and \<open>init_tracing\<close> of each \<open>main.rs\<close>, and then the
  program of \<open>Startup\<close> on the configuration that a document describes (\<open>Config_Documents\<close>). Splitting
  the arguments into options is clap's, and reading \<open>RUST_LOG\<close> and a filter are those of
  tracing-subscriber: \<open>given_arguments\<close> holds the options given, \<open>from_env\<close> is what
  \<open>EnvFilter::try_from_default_env\<close> returns, \<open>new_filter\<close> is \<open>EnvFilter::new\<close>.
\<close>

subsection \<open>The arguments\<close>

record given_arguments =
  ga_config :: "path option"
  ga_check :: bool
  ga_log :: "bytes option"

record cli =
  arg_config :: "path option"
  arg_check :: bool
  arg_log :: bytes

definition host_cli :: "given_arguments \<Rightarrow> cli" where
  "host_cli g = \<lparr>arg_config = ga_config g, arg_check = ga_check g, arg_log = given (ga_log g) (lit ''info'')\<rparr>"

definition vm_cli :: "given_arguments \<Rightarrow> cli" where
  "vm_cli g = \<lparr>arg_config = ga_config g, arg_check = ga_check g, arg_log = given (ga_log g) (lit ''info'')\<rparr>"

definition client_cli :: "given_arguments \<Rightarrow> cli" where
  "client_cli g = \<lparr>arg_config = ga_config g, arg_check = ga_check g, arg_log = given (ga_log g) (lit ''info'')\<rparr>"

definition server_cli :: "given_arguments \<Rightarrow> cli" where
  "server_cli g = \<lparr>arg_config = ga_config g, arg_check = ga_check g, arg_log = given (ga_log g) (lit ''info'')\<rparr>"

subsection \<open>The log filter\<close>

definition host_log_filter :: "'err + 'filter \<Rightarrow> (bytes \<Rightarrow> 'filter) \<Rightarrow> bytes \<Rightarrow> 'filter" where
  "host_log_filter from_env new_filter level = (case from_env of
      Inr f \<Rightarrow> f
    | Inl _ \<Rightarrow> new_filter (lit ''vpnbridge_host='' @ level @ lit '',warn''))"

definition vm_log_filter :: "'err + 'filter \<Rightarrow> (bytes \<Rightarrow> 'filter) \<Rightarrow> bytes \<Rightarrow> 'filter" where
  "vm_log_filter from_env new_filter level = (case from_env of
      Inr f \<Rightarrow> f
    | Inl _ \<Rightarrow> new_filter (lit ''vpnbridge_vm='' @ level @ lit '',warn''))"

definition client_log_filter :: "'err + 'filter \<Rightarrow> (bytes \<Rightarrow> 'filter) \<Rightarrow> bytes \<Rightarrow> 'filter" where
  "client_log_filter from_env new_filter level = (case from_env of
      Inr f \<Rightarrow> f
    | Inl _ \<Rightarrow> new_filter (lit ''proxy_client='' @ level @ lit '',warn''))"

definition server_log_filter :: "'err + 'filter \<Rightarrow> (bytes \<Rightarrow> 'filter) \<Rightarrow> bytes \<Rightarrow> 'filter" where
  "server_log_filter from_env new_filter level = (case from_env of
      Inr f \<Rightarrow> f
    | Inl _ \<Rightarrow> new_filter (lit ''proxy_server='' @ level @ lit '',warn''))"

subsection \<open>What a failed search reports\<close>

text \<open>\<open>Display\<close> of the error: its message, or the context that was put around the cause.\<close>

fun path_error_text :: "(path \<Rightarrow> bytes) \<Rightarrow> path_error \<Rightarrow> bytes" where
  "path_error_text display NoParentDirectory = lit ''executable path has no parent directory''"
| "path_error_text display (ConfigNotFound file_name current adjacent) =
     lit ''configuration file `'' @ file_name @ lit ''` not found; checked '' @ display current
       @ lit '' and '' @ display adjacent"
| "path_error_text display (CurrentDirFailed e) = lit ''getting current working directory''"
| "path_error_text display (CurrentExeFailed e) = lit ''getting executable path''"

text \<open>A path as it is displayed on Unix.\<close>

definition unix_display :: "path \<Rightarrow> bytes" where
  "unix_display p = (if path_absolute p then lit ''/'' else []) @ join (lit ''/'') (path_components p)"

subsection \<open>The programs\<close>

text \<open>The filter that is installed, and what the program then does.\<close>

definition host_command ::
    "'err + 'filter \<Rightarrow> (bytes \<Rightarrow> 'filter) \<Rightarrow> 'net ipnet \<Rightarrow> (bytes \<Rightarrow> bytes + 'net host_document) \<Rightarrow>
     (u16 \<Rightarrow> bytes option) \<Rightarrow> environment \<Rightarrow> os \<Rightarrow> given_arguments \<Rightarrow>
     'filter \<times> (start_error + (main_error, unit) outcome) \<times> bytes list \<times> call list" where
  "host_command from_env new_filter N toml mtu_check env os g =
     (let cli = host_cli g in
      (host_log_filter from_env new_filter (arg_log cli),
       host_program N (parsed toml host_of_document) mtu_check env os (arg_config cli) (arg_check cli)))"

definition vm_command ::
    "'err + 'filter \<Rightarrow> (bytes \<Rightarrow> 'filter) \<Rightarrow> 'net ipnet \<Rightarrow> (bytes \<Rightarrow> bytes + 'net vm_document) \<Rightarrow>
     environment \<Rightarrow> (socket_addr \<Rightarrow> io_error + unit) \<Rightarrow> (io_error + 'conn) list \<Rightarrow> given_arguments \<Rightarrow>
     'filter \<times> (start_error + (vm_error + unit)) \<times> bytes list \<times> 'conn server_event list" where
  "vm_command from_env new_filter N toml env bind arrivals g =
     (let cli = vm_cli g in
      (vm_log_filter from_env new_filter (arg_log cli),
       vm_program N (parsed toml vm_of_document) env bind arrivals (arg_config cli) (arg_check cli)))"

definition client_command ::
    "'err + 'filter \<Rightarrow> (bytes \<Rightarrow> 'filter) \<Rightarrow> platform \<Rightarrow> 'net ipnet \<Rightarrow>
     (bytes \<Rightarrow> bytes + 'net client_document) \<Rightarrow> (u16 \<Rightarrow> bytes option) \<Rightarrow> (call list \<Rightarrow> io_error + bytes) \<Rightarrow>
     ('net client_config \<Rightarrow> bytes + 'quic) \<Rightarrow> ('net client_config \<Rightarrow> bytes + 'grpc) \<Rightarrow> environment \<Rightarrow>
     os \<Rightarrow> given_arguments \<Rightarrow>
     'filter \<times> (start_error + (client_error, unit) outcome) \<times> bytes list \<times> call list" where
  "client_command from_env new_filter os_kind N toml mtu_check device_name quic_new grpc_new env os g =
     (let cli = client_cli g in
      (client_log_filter from_env new_filter (arg_log cli),
       client_program os_kind N (parsed toml cli_of_document) mtu_check device_name quic_new grpc_new
         env os (arg_config cli) (arg_check cli)))"

definition server_command ::
    "'err + 'filter \<Rightarrow> (bytes \<Rightarrow> 'filter) \<Rightarrow> (fs_op \<Rightarrow> (io_error \<times> nat) option) \<Rightarrow>
     (bytes \<Rightarrow> bytes + bytes \<times> bytes) \<Rightarrow> (bytes \<Rightarrow> bytes + 'cert list) \<Rightarrow> (bytes \<Rightarrow> bytes + 'key option) \<Rightarrow>
     ('cert list \<times> 'key \<Rightarrow> bytes option) \<Rightarrow> (socket_addr \<Rightarrow> io_error option) \<Rightarrow>
     (server_branch list \<Rightarrow> server_error + unit) \<Rightarrow> (bytes \<Rightarrow> bytes + 'net server_document) \<Rightarrow>
     environment \<Rightarrow> given_arguments \<Rightarrow> files \<Rightarrow>
     'filter \<times> (server_error + unit) \<times> bytes list \<times> files" where
  "server_command from_env new_filter fault generate pem_certs pem_key tls_fault bind_fault race toml
     env g fs =
     (let cli = server_cli g in
      (server_log_filter from_env new_filter (arg_log cli),
       server_program fault generate pem_certs pem_key tls_fault bind_fault race
         (parsed toml srv_of_document) env (arg_config cli) (arg_check cli) fs))"

subsection \<open>What a check decides\<close>

definition found ::
    "resolve_fun \<Rightarrow> bytes \<Rightarrow> environment \<Rightarrow> path option \<Rightarrow> (bytes \<Rightarrow> bytes + 'doc) \<Rightarrow> 'doc \<Rightarrow> bool" where
  "found resolve name env config toml d \<longleftrightarrow> (\<exists>p text.
     resolve config name (env_cwd env) (env_exe env) (env_is_file env) = Inr p \<and>
     env_read env p = Inr text \<and> toml text = Inr d)"

text \<open>
  \<open>--check\<close> of the host succeeds exactly on the documents with which the host would start: it says
  nothing about the network, and a host without it gets past its configuration in the same cases.
\<close>

lemma host_check_decides:
  "fst (snd (host_command from_env new_filter N toml mtu_check env os (g\<lparr>ga_check := True\<rparr>)))
      = Inr (Done ()) \<longleftrightarrow>
    (\<exists>d. found host_resolve_config_path (lit ''host.toml'') env (ga_config g) toml d \<and> host_document_ok d)"
  "(\<exists>r. fst (snd (host_command from_env new_filter N toml mtu_check env os (g\<lparr>ga_check := False\<rparr>)))
      = Inr r) \<longleftrightarrow>
    (\<exists>d. found host_resolve_config_path (lit ''host.toml'') env (ga_config g) toml d \<and> host_document_ok d)"
proof -
  let ?load = "host_load (env_read env) (parsed toml host_of_document)"
  have ok: "\<exists>text d. env_read env p = Inr text \<and> toml text = Inr d \<and> host_document_ok d"
    if "?load p = Inr cfg" for p cfg
    using that host_load_document by blast
  have bad: False
    if "?load p = Inl e" "env_read env p = Inr t" "toml t = Inr d" "host_document_ok d" for p e t d
    using that host_load_document [of "env_read env" toml p] by (metis Inl_Inr_False)
  note defs = host_command_def host_program_def found_def host_cli_def host_main_def [of _ _ _ True] ret_def
  show "fst (snd (host_command from_env new_filter N toml mtu_check env os (g\<lparr>ga_check := True\<rparr>)))
      = Inr (Done ()) \<longleftrightarrow>
    (\<exists>d. found host_resolve_config_path (lit ''host.toml'') env (ga_config g) toml d \<and> host_document_ok d)"
    by (auto simp: defs Let_def dest: ok split: sum.split) (use bad in blast)
  show "(\<exists>r. fst (snd (host_command from_env new_filter N toml mtu_check env os (g\<lparr>ga_check := False\<rparr>)))
      = Inr r) \<longleftrightarrow>
    (\<exists>d. found host_resolve_config_path (lit ''host.toml'') env (ga_config g) toml d \<and> host_document_ok d)"
    by (auto simp: defs Let_def dest: ok split: sum.split prod.split) (use bad in blast)
qed

text \<open>A level given on the command line has no effect where the environment names a filter.\<close>

lemma environment_filter_wins:
  "fst (host_command (Inr f) new_filter N toml mtu_check env os g) = f"
  by (simp add: host_command_def host_log_filter_def Let_def)

end
