(* ===== verification/Repository_Tests.thy ===== *)
theory Repository_Tests
  imports Command_Line Sessions Tcp_Relay
begin

text \<open>
  The unit tests of the repository, run on the model: each \<open>#[test]\<close> is the proposition that its
  assertions hold, in the words of the definitions that model the code it calls. The texts that the
  tests parse stand here as the values they denote (\<open>toml::from_str\<close> is not part of the model, so a
  document is the fields the text gives). A test that binds sockets has a system that answers as the
  sockets of the test do.
\<close>

definition succeeds_with :: "('e + 'a) \<Rightarrow> ('a \<Rightarrow> bool) \<Rightarrow> bool" where
  "succeeds_with r P = (case r of Inr a \<Rightarrow> P a | Inl _ \<Rightarrow> False)"

definition fails_with :: "('e + 'a) \<Rightarrow> ('e \<Rightarrow> bool) \<Rightarrow> bool" where
  "fails_with r P = (case r of Inr _ \<Rightarrow> False | Inl e \<Rightarrow> P e)"

definition returns_with :: "('e, 'a) outcome \<times> 's \<Rightarrow> ('a \<Rightarrow> 's \<Rightarrow> bool) \<Rightarrow> bool" where
  "returns_with run P = (case run of (Done a, s) \<Rightarrow> P a s | _ \<Rightarrow> False)"

text \<open>\<open>str::contains\<close>.\<close>

definition contains_text :: "bytes \<Rightarrow> bytes \<Rightarrow> bool" where
  "contains_text hay needle \<longleftrightarrow>
     list_ex (\<lambda>i. take (length needle) (drop i hay) = needle) [0..<Suc (length hay)]"

lemma returns_with_fst: "returns_with run (\<lambda>a _. P a) \<longleftrightarrow> (case fst run of Done a \<Rightarrow> P a | _ \<Rightarrow> False)"
  by (cases run) (simp add: returns_with_def split: outcome.split)

lemma fails_with_validate [simp]:
  "fails_with (host_validate c1) (\<lambda>_. True) \<longleftrightarrow> \<not> host_valid c1"
  "fails_with (cli_validate N c2) (\<lambda>_. True) \<longleftrightarrow> \<not> cli_valid N c2"
  "fails_with (srv_validate c3) (\<lambda>_. True) \<longleftrightarrow> \<not> srv_valid c3"
  by (auto simp: fails_with_def dest: validate_dests split: sum.split)

lemma parsed_ipv4 [simp]:
  "ipv4 10 0 0 0 = 0x0A000000" "ipv4 10 1 2 3 = 0x0A010203" "ipv4 10 9 0 0 = 0x0A090000"
  "ipv4 10 9 1 1 = 0x0A090101" "ipv4 8 8 8 8 = 0x08080808" "ipv4 192 0 2 1 = 0xC0000201"
  by (simp_all add: ipv4_def from_be_def)

subsection \<open>\<open>crates/proto/src/lib.rs\<close>\<close>

definition request_roundtrip_ipv4 :: bool where
  "request_roundtrip_ipv4 =
     (let req = \<lparr>req_cmd = ConnectTcp, req_token = lit ''secret'',
        req_target = Ip (SA4 (ipv4 10 1 2 3) 443)\<rparr>
      in returns_with (request_write_to vec_tx req []) (\<lambda>_ buf.
         returns_with (request_read_from (cursor_rx cursor_eof) (cursor_new buf)) (\<lambda>decoded _.
           req_cmd decoded = ConnectTcp \<and> req_token decoded = lit ''secret'' \<and>
           req_target decoded = req_target req)))"

definition request_roundtrip_domain :: bool where
  "request_roundtrip_domain =
     (let req = \<lparr>req_cmd = BindUdp, req_token = [],
        req_target = Domain (lit ''intranet.example.com'') 53\<rparr>
      in returns_with (request_write_to vec_tx req []) (\<lambda>_ buf.
         returns_with (request_read_from (cursor_rx cursor_eof) (cursor_new buf)) (\<lambda>decoded _.
           req_target decoded = req_target req)))"

definition response_roundtrip :: bool where
  "response_roundtrip =
     (let resp = response_err Unreachable (lit ''connection refused'')
      in returns_with (response_write_to vec_tx resp []) (\<lambda>_ buf.
         returns_with (response_read_from (cursor_rx cursor_eof) (cursor_new buf)) (\<lambda>decoded _.
           rsp_status decoded = Unreachable \<and> rsp_message decoded = lit ''connection refused'')))"

definition datagram_roundtrip :: bool where
  "datagram_roundtrip =
     returns_with (write_datagram vec_tx (lit ''hello'') []) (\<lambda>_ wire.
     returns_with (write_datagram vec_tx [] wire) (\<lambda>_ wire.
     returns_with (read_datagram (cursor_rx cursor_eof) (cursor_new wire)) (\<lambda>buf cursor.
       length buf = 5 \<and> buf = lit ''hello'' \<and>
       returns_with (read_datagram (cursor_rx cursor_eof) cursor) (\<lambda>buf _. length buf = 0))))"

definition rejects_bad_magic :: bool where
  "rejects_bad_magic =
     (let wire = lit ''XXXX'' @ [1] @ [1, 0, ATYP_IPV4, 10, 0, 0, 1, 0, 80]
      in \<not> returns_with (request_read_from (cursor_rx cursor_eof) (cursor_new wire)) (\<lambda>_ _. True))"

lemma request_roundtrip:
  assumes "good_request req"
  shows "returns_with (request_write_to vec_tx req []) (\<lambda>_ buf.
    returns_with (request_read_from (cursor_rx eof) (cursor_new buf)) (\<lambda>d _. P d)) \<longleftrightarrow> P req"
  using assms request_dec_enc [OF assms, of "[]" "Ends eof"]
  by (simp add: returns_with_fst cursor_decodes)
    (simp add: returns_with_def write_limits good_request_def)

lemma response_roundtrip_via:
  assumes "good_response rsp"
  shows "returns_with (response_write_to vec_tx rsp []) (\<lambda>_ buf.
    returns_with (response_read_from (cursor_rx eof) (cursor_new buf)) (\<lambda>d _. P d)) \<longleftrightarrow> P rsp"
proof -
  have "fst (response_read_from (cursor_rx eof) (cursor_new (response_bytes rsp))) = Done rsp"
    using reads_asD [OF cursor.response_reads_as, of eof "cursor_new (response_bytes rsp)"]
      response_read_write [of rsp "[]" "Ends eof"] received_response_good [OF assms]
    by (cases "response_read_from (cursor_rx eof) (cursor_new (response_bytes rsp))")
      (simp add: cursor_view_def cursor_new_def)
  then show ?thesis
    by (simp add: returns_with_fst) (simp add: returns_with_def response_write_to_def act_simps)
qed

lemma proto_tests:
  "request_roundtrip_ipv4 \<and> request_roundtrip_domain \<and> response_roundtrip \<and> datagram_roundtrip \<and>
   rejects_bad_magic"
proof (intro conjI)
  have "good_request \<lparr>req_cmd = ConnectTcp, req_token = lit ''secret'',
      req_target = Ip (SA4 (ipv4 10 1 2 3) 443)\<rparr>"
    by (simp add: good_request_def lit_def utf8_valid_ascii)
  then show request_roundtrip_ipv4
    by (simp add: request_roundtrip_ipv4_def request_roundtrip)
  have "good_request \<lparr>req_cmd = BindUdp, req_token = [],
      req_target = Domain (lit ''intranet.example.com'') 53\<rparr>"
    by (simp add: good_request_def lit_def utf8_valid_ascii)
  then show request_roundtrip_domain
    by (simp add: request_roundtrip_domain_def request_roundtrip)
  show response_roundtrip
    unfolding response_roundtrip_def Let_def
    by (subst response_roundtrip_via) (simp_all add: good_response_def response_err_def lit_def
      utf8_valid_ascii)
  show datagram_roundtrip by code_simp
  show rejects_bad_magic by code_simp
qed

subsection \<open>\<open>crates/vm/src/config.rs\<close>\<close>

definition vm_token_comparison :: bool where
  "vm_token_comparison \<longleftrightarrow>
     vm_token_matches (lit ''secret'') (lit ''secret'') \<and>
     vm_token_matches [] [] \<and>
     \<not> vm_token_matches (lit ''secret'') (lit ''secre'') \<and>
     \<not> vm_token_matches (lit ''secret'') (lit ''Secret'') \<and>
     \<not> vm_token_matches [] (lit ''x'')"

definition vm_test_config :: "cidr list \<Rightarrow> cidr list \<Rightarrow> cidr vm_config" where
  "vm_test_config allow deny =
     \<lparr>vm_listen = SA4 (ipv4 0 0 0 0) 1, vm_token = [], vm_allow = allow, vm_deny = deny,
      vm_bind_ip = None, vm_connect_timeout_ms = 1000, vm_udp_timeout_secs = 10,
      vm_tcp_nodelay = True\<rparr>"

definition allow_list_semantics :: bool where
  "allow_list_semantics \<longleftrightarrow>
     (let cfg = vm_test_config [Cidr4 (ipv4 10 0 0 0) 8] [Cidr4 (ipv4 10 9 0 0) 16] in
      vm_permits cidr_net cfg (V4 (ipv4 10 1 2 3)) \<and>
      \<not> vm_permits cidr_net cfg (V4 (ipv4 10 9 1 1)) \<and>
      \<not> vm_permits cidr_net cfg (V4 (ipv4 8 8 8 8)))"

definition empty_allow_list_permits_everything :: bool where
  "empty_allow_list_permits_everything \<longleftrightarrow>
     vm_permits cidr_net (vm_test_config [] []) (V4 (ipv4 8 8 8 8))"

lemma parsed_cidr:
  "cidr_contains (Cidr4 0x0A000000 8) (V4 0x0A010203)" "\<not> cidr_contains (Cidr4 0x0A090000 16) (V4 0x0A010203)"
  "cidr_contains (Cidr4 0x0A090000 16) (V4 0x0A090101)" "\<not> cidr_contains (Cidr4 0x0A000000 8) (V4 0x08080808)"
  by code_simp+

lemma vm_config_tests:
  "vm_token_comparison \<and> allow_list_semantics \<and> empty_allow_list_permits_everything"
  by (simp add: vm_token_comparison_def vm_tokens.matches_exact lit_def allow_list_semantics_def
      empty_allow_list_permits_everything_def vm_test_config_def vm_permits_def
      parsed_cidr del: One_nat_def cidr_contains.simps)

subsection \<open>\<open>crates/host/src/config.rs\<close>\<close>

definition MINIMAL_CONFIG :: "cidr host_document" where
  "MINIMAL_CONFIG =
     \<lparr>hd_server = \<lparr>hsd_address = SA4 (ipv4 127 0 0 1) 17321, hsd_token = None,
        hsd_connect_timeout_ms = None, hsd_reconnect_interval_ms = None, hsd_tcp_nodelay = None\<rparr>,
      hd_tun = None, hd_routes = Some [Cidr4 (ipv4 10 0 0 0) 8], hd_exclude = None, hd_dns = None\<rparr>"

text \<open>\<open>format!("{MINIMAL_CONFIG}\nreconnect_interval_ms = ..")\<close>: the line ends up in \<open>[server]\<close>.\<close>

definition with_reconnect_interval :: "u64 \<Rightarrow> 'net host_document \<Rightarrow> 'net host_document" where
  "with_reconnect_interval ms d =
     d\<lparr>hd_server := (hd_server d)\<lparr>hsd_reconnect_interval_ms := Some ms\<rparr>\<rparr>"

definition reconnect_interval_defaults_to_ten_seconds :: bool where
  "reconnect_interval_defaults_to_ten_seconds \<longleftrightarrow>
     (let cfg = host_of_document MINIMAL_CONFIG in
      hs_reconnect_interval_ms (host_server cfg) = 10000 \<and> host_validate cfg = Inr ())"

definition reconnect_interval_can_be_configured :: bool where
  "reconnect_interval_can_be_configured \<longleftrightarrow>
     (let cfg = host_of_document (with_reconnect_interval 2500 MINIMAL_CONFIG) in
      hs_reconnect_interval_ms (host_server cfg) = 2500 \<and> host_validate cfg = Inr ())"

definition reconnect_interval_must_not_be_zero :: bool where
  "reconnect_interval_must_not_be_zero \<longleftrightarrow>
     (let cfg = host_of_document (with_reconnect_interval 0 MINIMAL_CONFIG) in
      fails_with (host_validate cfg) (\<lambda>_. True))"

lemma host_config_tests:
  "reconnect_interval_defaults_to_ten_seconds \<and> reconnect_interval_can_be_configured
   \<and> reconnect_interval_must_not_be_zero"
  by (simp add: reconnect_interval_defaults_to_ten_seconds_def reconnect_interval_can_be_configured_def
      reconnect_interval_must_not_be_zero_def MINIMAL_CONFIG_def with_reconnect_interval_def
      host_validate_iff host_of_document_valid host_document_ok_def holds_if_given_def
      host_of_document_def host_server_of_document_def host_default_reconnect_interval_def
      host_valid_def host_tun_default_def)

subsection \<open>\<open>crates/proxy-client/src/config.rs\<close>\<close>

definition client_test_document :: "cidr client_document" where
  "client_test_document =
     \<lparr>cld_server = SA4 (ipv4 192 0 2 1) 4433, cld_quic_enabled = None, cld_grpc_enabled = None,
      cld_quic_server = None, cld_grpc_server = None, cld_token = lit ''secret'',
      cld_server_name = None, cld_certificate = file_path (lit ''cert.pem''),
      cld_routes = [Cidr4 (ipv4 10 0 0 0) 8], cld_connect_timeout_ms = None,
      cld_reconnect_interval_ms = None, cld_tun = None\<rparr>"

definition legacy_server_address_enables_both_transports :: bool where
  "legacy_server_address_enables_both_transports \<longleftrightarrow>
     (let cfg = cli_of_document client_test_document in
      cli_quic_enabled cfg \<and> cli_grpc_enabled cfg \<and>
      cli_quic_server cfg = cli_server cfg \<and> cli_grpc_server cfg = cli_server cfg)"

definition transport_addresses_override_the_legacy_server :: bool where
  "transport_addresses_override_the_legacy_server \<longleftrightarrow>
     (let cfg = cli_of_document (client_test_document\<lparr>
        cld_quic_server := Some (SA4 (ipv4 192 0 2 1) 4443),
        cld_grpc_server := Some (SA4 (ipv4 192 0 2 1) 4444)\<rparr>) in
      cli_quic_server cfg = SA4 (ipv4 192 0 2 1) 4443 \<and>
      cli_grpc_server cfg = SA4 (ipv4 192 0 2 1) 4444)"

definition client_test_config :: "socket_addr \<Rightarrow> bool \<Rightarrow> bool \<Rightarrow> cidr client_config" where
  "client_test_config server quic grpc =
     \<lparr>cli_server = server, cli_quic_enabled = quic, cli_grpc_enabled = grpc,
      cli_quic_server_opt = None, cli_grpc_server_opt = None, cli_token = lit ''secret'',
      cli_server_name = lit ''vpnbridge.local'', cli_certificate = file_path (lit ''cert.pem''),
      cli_routes = [Cidr4 (ipv4 10 0 0 0) 8], cli_connect_timeout_ms = 1000,
      cli_reconnect_interval_ms = 1000, cli_tun = cli_tun_default\<rparr>"

definition rejects_a_route_that_captures_the_server :: bool where
  "rejects_a_route_that_captures_the_server \<longleftrightarrow>
     fails_with (cli_validate cidr_net (client_test_config (SA4 (ipv4 10 1 2 3) 4433) True True))
       (\<lambda>_. True)"

definition client_rejects_disabling_all_transports :: bool where
  "client_rejects_disabling_all_transports \<longleftrightarrow>
     fails_with (cli_validate cidr_net (client_test_config (SA4 (ipv4 192 0 2 1) 4433) False False))
       (\<lambda>_. True)"

lemma client_config_tests:
  "legacy_server_address_enables_both_transports \<and>
   transport_addresses_override_the_legacy_server \<and>
   rejects_a_route_that_captures_the_server \<and> client_rejects_disabling_all_transports"
  by (simp add: legacy_server_address_enables_both_transports_def
      transport_addresses_override_the_legacy_server_def client_test_document_def
      rejects_a_route_that_captures_the_server_def client_rejects_disabling_all_transports_def
      client_test_config_def cli_valid_def cli_enabled_servers_def cli_quic_server_def
      cli_grpc_server_def cli_of_document_def cli_default_true_def del: One_nat_def)

subsection \<open>\<open>crates/proxy-server/src/config.rs\<close>\<close>

definition server_test_document :: "cidr server_document" where
  "server_test_document =
     \<lparr>svd_listen = SA4 (ipv4 0 0 0 0) 4433, svd_quic_enabled = None, svd_grpc_enabled = None,
      svd_quic_listen = None, svd_grpc_listen = None, svd_token = lit ''secret'',
      svd_server_name = None, svd_certificate = None, svd_private_key = None, svd_allow = None,
      svd_deny = None, svd_bind_ip = None, svd_connect_timeout_ms = None, svd_dns_timeout_ms = None,
      svd_tcp_idle_timeout_secs = None, svd_udp_timeout_secs = None,
      svd_max_concurrent_streams = None\<rparr>"

definition legacy_listen_address_enables_both_transports :: bool where
  "legacy_listen_address_enables_both_transports \<longleftrightarrow>
     (let cfg = srv_of_document server_test_document in
      srv_quic_enabled cfg \<and> srv_grpc_enabled cfg \<and>
      srv_quic_listen cfg = srv_listen cfg \<and> srv_grpc_listen cfg = srv_listen cfg \<and>
      srv_dns_timeout_ms cfg = 5000 \<and> srv_tcp_idle_timeout_secs cfg = 300)"

definition server_rejects_disabling_all_transports :: bool where
  "server_rejects_disabling_all_transports \<longleftrightarrow>
     (let cfg = srv_of_document (server_test_document\<lparr>svd_quic_enabled := Some False,
        svd_grpc_enabled := Some False\<rparr>) in
      fails_with (srv_validate cfg) (\<lambda>_. True))"

definition token_comparison_is_length_independent :: bool where
  "token_comparison_is_length_independent \<longleftrightarrow>
     srv_token_matches (lit ''secret'') (lit ''secret'') \<and>
     \<not> srv_token_matches (lit ''secret'') (lit ''secre'') \<and>
     \<not> srv_token_matches (lit ''secret'') (lit ''Secret'')"

definition rejects_zero_timeouts :: bool where
  "rejects_zero_timeouts \<longleftrightarrow>
     list_all (\<lambda>document. fails_with (srv_validate (srv_of_document document)) (\<lambda>_. True))
       [server_test_document\<lparr>svd_connect_timeout_ms := Some 0\<rparr>,
        server_test_document\<lparr>svd_dns_timeout_ms := Some 0\<rparr>,
        server_test_document\<lparr>svd_tcp_idle_timeout_secs := Some 0\<rparr>,
        server_test_document\<lparr>svd_udp_timeout_secs := Some 0\<rparr>]"

lemma server_config_tests:
  "legacy_listen_address_enables_both_transports \<and>
   server_rejects_disabling_all_transports \<and> token_comparison_is_length_independent
   \<and> rejects_zero_timeouts"
  by (simp add: legacy_listen_address_enables_both_transports_def
      server_rejects_disabling_all_transports_def token_comparison_is_length_independent_def
      rejects_zero_timeouts_def server_test_document_def srv_of_document_valid server_document_ok_def
      srv_tokens.matches_exact lit_def srv_of_document_def srv_default_true_def srv_quic_listen_def
      srv_grpc_listen_def srv_default_dns_timeout_def srv_default_tcp_idle_timeout_def srv_valid_def)

subsection \<open>The searches for the configuration file, \<open>main.rs\<close> of the four programs\<close>

text \<open>A relative path of the tests, \<open>Path::new("bin/host.toml")\<close>.\<close>

definition in_dir :: "bytes \<Rightarrow> bytes \<Rightarrow> path" where
  "in_dir d f = Path False [d, f]"

definition host_current_directory_takes_precedence :: bool where
  "host_current_directory_takes_precedence \<longleftrightarrow> succeeds_with (host_choose_config_path
     (lit ''host.toml'') (file_path (lit ''work''))
     (in_dir (lit ''bin'') (lit ''vpnbridge-host'')) (\<lambda>_. True))
     (\<lambda>result. result = in_dir (lit ''work'') (lit ''host.toml''))"

definition host_falls_back_to_executable_directory :: bool where
  "host_falls_back_to_executable_directory \<longleftrightarrow> succeeds_with (host_choose_config_path
     (lit ''host.toml'') (file_path (lit ''work''))
     (in_dir (lit ''bin'') (lit ''vpnbridge-host''))
     (\<lambda>path. path = in_dir (lit ''bin'') (lit ''host.toml'')))
     (\<lambda>result. result = in_dir (lit ''bin'') (lit ''host.toml''))"

definition host_reports_all_implicit_locations_when_missing :: bool where
  "host_reports_all_implicit_locations_when_missing \<longleftrightarrow> fails_with (host_choose_config_path
     (lit ''host.toml'') (file_path (lit ''work''))
     (in_dir (lit ''bin'') (lit ''vpnbridge-host'')) (\<lambda>_. False))
     (\<lambda>err. let err = path_error_text unix_display err in
       contains_text err (unix_display (in_dir (lit ''work'') (lit ''host.toml''))) \<and>
       contains_text err (unix_display (in_dir (lit ''bin'') (lit ''host.toml''))))"

definition vm_current_directory_takes_precedence :: bool where
  "vm_current_directory_takes_precedence \<longleftrightarrow> succeeds_with (vm_choose_config_path
     (lit ''vm.toml'') (file_path (lit ''work''))
     (in_dir (lit ''bin'') (lit ''vpnbridge-vm'')) (\<lambda>_. True))
     (\<lambda>result. result = in_dir (lit ''work'') (lit ''vm.toml''))"

definition vm_falls_back_to_executable_directory :: bool where
  "vm_falls_back_to_executable_directory \<longleftrightarrow> succeeds_with (vm_choose_config_path
     (lit ''vm.toml'') (file_path (lit ''work''))
     (in_dir (lit ''bin'') (lit ''vpnbridge-vm''))
     (\<lambda>path. path = in_dir (lit ''bin'') (lit ''vm.toml'')))
     (\<lambda>result. result = in_dir (lit ''bin'') (lit ''vm.toml''))"

definition vm_reports_all_implicit_locations_when_missing :: bool where
  "vm_reports_all_implicit_locations_when_missing \<longleftrightarrow> fails_with (vm_choose_config_path
     (lit ''vm.toml'') (file_path (lit ''work''))
     (in_dir (lit ''bin'') (lit ''vpnbridge-vm'')) (\<lambda>_. False))
     (\<lambda>err. let err = path_error_text unix_display err in
       contains_text err (unix_display (in_dir (lit ''work'') (lit ''vm.toml''))) \<and>
       contains_text err (unix_display (in_dir (lit ''bin'') (lit ''vm.toml''))))"

definition client_current_directory_takes_precedence :: bool where
  "client_current_directory_takes_precedence \<longleftrightarrow> succeeds_with (client_choose_config_path
     (lit ''proxy-client.toml'') (file_path (lit ''work''))
     (in_dir (lit ''bin'') (lit ''proxy-client'')) (\<lambda>_. True))
     (\<lambda>result. result = in_dir (lit ''work'') (lit ''proxy-client.toml''))"

definition client_falls_back_to_executable_directory :: bool where
  "client_falls_back_to_executable_directory \<longleftrightarrow> succeeds_with (client_choose_config_path
     (lit ''proxy-client.toml'') (file_path (lit ''work''))
     (in_dir (lit ''bin'') (lit ''proxy-client''))
     (\<lambda>path. path = in_dir (lit ''bin'') (lit ''proxy-client.toml'')))
     (\<lambda>result. result = in_dir (lit ''bin'') (lit ''proxy-client.toml''))"

definition client_reports_all_implicit_locations_when_missing :: bool where
  "client_reports_all_implicit_locations_when_missing \<longleftrightarrow> fails_with (client_choose_config_path
     (lit ''proxy-client.toml'') (file_path (lit ''work''))
     (in_dir (lit ''bin'') (lit ''proxy-client'')) (\<lambda>_. False))
     (\<lambda>err. let err = path_error_text unix_display err in
       contains_text err (unix_display (in_dir (lit ''work'') (lit ''proxy-client.toml''))) \<and>
       contains_text err (unix_display (in_dir (lit ''bin'') (lit ''proxy-client.toml''))))"

definition server_current_directory_takes_precedence :: bool where
  "server_current_directory_takes_precedence \<longleftrightarrow> succeeds_with (server_choose_config_path
     (lit ''proxy-server.toml'') (file_path (lit ''work''))
     (in_dir (lit ''bin'') (lit ''proxy-server'')) (\<lambda>_. True))
     (\<lambda>result. result = in_dir (lit ''work'') (lit ''proxy-server.toml''))"

definition server_falls_back_to_executable_directory :: bool where
  "server_falls_back_to_executable_directory \<longleftrightarrow> succeeds_with (server_choose_config_path
     (lit ''proxy-server.toml'') (file_path (lit ''work''))
     (in_dir (lit ''bin'') (lit ''proxy-server''))
     (\<lambda>path. path = in_dir (lit ''bin'') (lit ''proxy-server.toml'')))
     (\<lambda>result. result = in_dir (lit ''bin'') (lit ''proxy-server.toml''))"

definition server_reports_all_implicit_locations_when_missing :: bool where
  "server_reports_all_implicit_locations_when_missing \<longleftrightarrow> fails_with (server_choose_config_path
     (lit ''proxy-server.toml'') (file_path (lit ''work''))
     (in_dir (lit ''bin'') (lit ''proxy-server'')) (\<lambda>_. False))
     (\<lambda>err. let err = path_error_text unix_display err in
       contains_text err (unix_display (in_dir (lit ''work'') (lit ''proxy-server.toml''))) \<and>
       contains_text err (unix_display (in_dir (lit ''bin'') (lit ''proxy-server.toml''))))"

lemmas search_test_defs =
  host_current_directory_takes_precedence_def host_falls_back_to_executable_directory_def
  host_reports_all_implicit_locations_when_missing_def
  vm_current_directory_takes_precedence_def vm_falls_back_to_executable_directory_def
  vm_reports_all_implicit_locations_when_missing_def
  client_current_directory_takes_precedence_def client_falls_back_to_executable_directory_def
  client_reports_all_implicit_locations_when_missing_def
  server_current_directory_takes_precedence_def server_falls_back_to_executable_directory_def
  server_reports_all_implicit_locations_when_missing_def

lemma contains_in_message: "contains_text (a @ x @ b) x"
  unfolding contains_text_def list_ex_iff
  by (rule bexI [of _ "length a"]) simp_all

lemma work_is_not_bin: "lit ''work'' \<noteq> lit ''bin''"
  by (simp add: lit_def)

lemma contains_both:
  "contains_text (a @ b @ c @ x @ d @ y) x" "contains_text (a @ b @ c @ x @ d @ y) y"
  using contains_in_message [of "a @ b @ c" x "d @ y"] contains_in_message [of "a @ b @ c @ x @ d" y "[]"]
  by simp_all

lemma search_tests:
  "host_current_directory_takes_precedence \<and> host_falls_back_to_executable_directory
   \<and> host_reports_all_implicit_locations_when_missing \<and>
   vm_current_directory_takes_precedence \<and> vm_falls_back_to_executable_directory \<and>
   vm_reports_all_implicit_locations_when_missing \<and>
   client_current_directory_takes_precedence \<and> client_falls_back_to_executable_directory
   \<and> client_reports_all_implicit_locations_when_missing \<and>
   server_current_directory_takes_precedence \<and> server_falls_back_to_executable_directory
   \<and> server_reports_all_implicit_locations_when_missing"
  unfolding search_test_defs
  by (simp add: choose_defs succeeds_with_def fails_with_def in_dir_def path_join_def path_parent_def
      file_path_def contains_both work_is_not_bin)

subsection \<open>\<open>crates/host/src/tunnel.rs\<close>\<close>

text \<open>
  The port is bound but nobody listens when the first attempt is made; then an agent comes up, which
  answers the request with success. The port is whatever the system gave.
\<close>

definition late_agent :: os where
  "late_agent = (willing_os (stream_of (response_bytes response_ok) Stalls) [])\<lparr>os_unit := (\<lambda>h c.
     case c of
       TcpDial a \<Rightarrow> (if TcpDial a \<in> set h then Done ()
         else Failed (IoError (OtherKind 111) (lit ''Connection refused'')))
     | _ \<Rightarrow> Done ())\<rparr>"

definition tunnel_test_config :: "socket_addr \<Rightarrow> host_server_config" where
  "tunnel_test_config agent =
     \<lparr>hs_address = agent, hs_token = lit ''test-token'', hs_connect_timeout_ms = 50,
      hs_reconnect_interval_ms = 20, hs_tcp_nodelay = True\<rparr>"

definition retries_until_vm_agent_accepts_connections :: "socket_addr \<Rightarrow> bool" where
  "retries_until_vm_agent_accepts_connections agent \<longleftrightarrow>
     (let target = Ip (SA4 (ipv4 10 0 0 1) 443) in
      returns_with (host_open late_agent (tunnel_test_config agent) ConnectTcp target []) (\<lambda>_ h.
        returns_with (request_read_from stream_rx (stream_of (sent_to_peer late_agent h) Stalls))
          (\<lambda>request _. req_token request = lit ''test-token'')))"

lemma tunnel_test: "retries_until_vm_agent_accepts_connections agent"
proof -
  let ?cfg = "tunnel_test_config agent" and ?target = "Ip (SA4 (ipv4 10 0 0 1) 443)"
  let ?req = "host_request ?cfg ConnectTcp ?target"
  let ?h = "after_attempts ?cfg [] 1 @ take 2 (host_round ?cfg) @ [SetNodelay True, Timer 50]"
  let ?sent = "?h @ [WriteAll (request_bytes ?req), Flush]"
  have "host_dial late_agent ?cfg [] = (Done (), after_attempts ?cfg [] 1 @ take 2 (host_round ?cfg))"
    by (rule host_dial_first_success)
      (simp_all add: dial_outcome_def late_agent_def after_attempts_def host_round_def)
  moreover have short: "length (req_token ?req) \<le> 255"
    by (simp add: host_request_def tunnel_test_config_def lit_def)
  then have wrote: "request_write_to (peer_tx late_agent) ?req ?h = (Done (), ?sent)"
    by (simp add: request_write_to_def and_then_def sys_def do_call_def late_agent_def willing_os_def)
  moreover have quiet: "\<forall>c \<in> set ?h. silent c"
    by (auto simp: host_round_def after_attempts_def)
  have inbox: "inbox_view (os_inbox late_agent) ?sent = stream_of (response_bytes response_ok @ []) Stalls"
    using request_write_sends [OF wrote] silent_keeps [OF quiet, of late_agent "[]"]
    by (simp add: late_agent_def willing_os_def)
  obtain h' where read: "response_read_from (peer_rx late_agent) ?sent = (Done response_ok, h')"
    using reads_asD [OF peer.response_reads_as, of late_agent ?sent]
      response_read_write [of response_ok "[]" Stalls] received_response_good [of response_ok] inbox
    by (cases "response_read_from (peer_rx late_agent) ?sent")
      (simp add: good_response_def response_ok_def)
  ultimately have "host_open late_agent ?cfg ConnectTcp ?target [] = (Done (), h')"
    by (simp add: host_open_def host_conclude_def host_set_nodelay_def and_then_Done ignore_def do_call_def
        sys_def attempt_def with_timeout_def timeout_def and_then_def ret_def host_handshake_def
        tunnel_test_config_def late_agent_def willing_os_def response_ok_def)
  moreover have "sent_to_peer late_agent h' = request_bytes ?req @ []"
    using response_read_peer(2) [OF read] request_write_sends [OF wrote]
      silent_keeps [OF quiet, of late_agent "[]"] by simp
  moreover have "good_request ?req"
    by (simp add: good_request_def host_request_def tunnel_test_config_def lit_def utf8_valid_ascii)
  ultimately show ?thesis
    using request_dec_enc [of ?req "[]" Stalls]
    by (simp add: retries_until_vm_agent_accepts_connections_def returns_with_def host_request_def
        tunnel_test_config_def)
qed

subsection \<open>\<open>crates/proxy-client/src/transport.rs\<close>\<close>

text \<open>
  Nothing answers QUIC; the gRPC service answers with the response of \<open>EchoProxy::open\<close>, in which
  the server's response is the first frame.
\<close>

definition without_quic :: os where
  "without_quic = (willing_os (stream_of [] Stalls) [])\<lparr>os_handle := (\<lambda>h c. Pending)\<rparr>"

definition EchoProxy :: os where
  "EchoProxy = willing_os (stream_of (snd (response_write_to vec_tx response_ok [])) Stalls) []"

definition transport_test_config :: "socket_addr \<Rightarrow> path \<Rightarrow> cidr client_config" where
  "transport_test_config server_address certificate_path =
     \<lparr>cli_server = server_address, cli_quic_enabled = True, cli_grpc_enabled = True,
      cli_quic_server_opt = None, cli_grpc_server_opt = None, cli_token = lit ''test-token'',
      cli_server_name = lit ''vpnbridge.local'', cli_certificate = certificate_path,
      cli_routes = [Cidr4 (ipv4 10 0 0 0) 8], cli_connect_timeout_ms = 1000,
      cli_reconnect_interval_ms = 1000, cli_tun = cli_tun_default\<rparr>"

definition falls_back_to_grpc_when_quic_is_unavailable :: "socket_addr \<Rightarrow> path \<Rightarrow> bool" where
  "falls_back_to_grpc_when_quic_is_unavailable server_address certificate_path \<longleftrightarrow>
     (let cfg = transport_test_config server_address certificate_path;
          client = \<lparr>ts_slot = None, ts_quic = [], ts_grpc = []\<rparr>
      in returns_with ((transport_client_open without_quic EchoProxy cfg ConnectTcp
           (Ip (SA4 (ipv4 10 1 2 3) 443)) None :: (_, unit, _) act) client) (\<lambda>opened _.
         succeeds_with (fst opened) (\<lambda>flow. snd flow = Grpc)))"

lemma transport_test: "falls_back_to_grpc_when_quic_is_unavailable server_address certificate_path"
proof -
  let ?cfg = "transport_test_config server_address certificate_path"
    and ?target = "Ip (SA4 (ipv4 10 1 2 3) 443)" and ?s = "\<lparr>ts_slot = None, ts_quic = [], ts_grpc = []\<rparr>"
  obtain s where quic: "run_quic without_quic ?cfg ConnectTcp ?target ?s = (Failed (Unavailable QuicTimedOut), s)"
      and none: "ts_grpc s = []"
    by (simp add: run_quic_def quic_open_def quic_connection_def quic_dial_def quic_use_def without_quic_def
        with_timeout_def timeout_def do_call_def attempt_def sys_def and_then_def ret_def willing_os_def)
  have "os_inbox EchoProxy = stream_of (response_bytes response_ok @ []) Stalls"
    by (simp add: EchoProxy_def willing_os_def response_write_to_def act_simps)
  with grpc_open_answered [of EchoProxy ?cfg response_ok "[]" Stalls ConnectTcp ?target]
  have "fst (grpc_open EchoProxy ?cfg ConnectTcp ?target []) = Done ()"
    by (simp add: EchoProxy_def willing_writes_succeed transport_test_config_def lit_def response_ok_def)
  then obtain s' where grpc: "run_grpc EchoProxy ?cfg ConnectTcp ?target s = (Done (), s')"
    by (cases "grpc_open EchoProxy ?cfg ConnectTcp ?target []") (simp add: run_grpc_def none)
  have "cli_quic_enabled ?cfg" "cli_grpc_enabled ?cfg" by (simp_all add: transport_test_config_def)
  with quic grpc show ?thesis
    by (simp add: falls_back_to_grpc_when_quic_is_unavailable_def transport_client_open_def
        transport_open_def is_suppressed_def open_with_fallback_def read_clock_def attempt_def and_then_def
        ret_def returns_with_def succeeds_with_def)
qed

subsection \<open>\<open>crates/proxy-server/src/server.rs\<close>\<close>

text \<open>Neither peer sends anything, for as long as the idle timeout of 25 ms.\<close>

definition closes_an_idle_tcp_flow :: bool where
  "closes_an_idle_tcp_flow \<longleftrightarrow>
     (let quiet = (tr_start 25 [] [])\<lparr>tr_clock := 25\<rparr> in
      (tcp_step 25)\<^sup>*\<^sup>* (tr_start 25 [] []) quiet \<and> tcp_step 25 quiet (tr_elapsed quiet) \<and>
      (case tr_result (tr_elapsed quiet) of
         Some (Inl error) \<Rightarrow> contains_text (err_text error) (lit ''TCP flow idle'')
       | _ \<Rightarrow> False))"

definition server_test_config :: "socket_addr \<Rightarrow> cidr server_config" where
  "server_test_config server_address =
     \<lparr>srv_listen = server_address, srv_quic_enabled = True, srv_grpc_enabled = True,
      srv_quic_listen_opt = None, srv_grpc_listen_opt = None, srv_token = lit ''test-token'',
      srv_server_name = lit ''vpnbridge.local'', srv_certificate = Path False [],
      srv_private_key = Path False [], srv_allow = [], srv_deny = [], srv_bind_ip = None,
      srv_connect_timeout_ms = 1000, srv_dns_timeout_ms = 1000, srv_tcp_idle_timeout_secs = 10,
      srv_udp_timeout_secs = 10, srv_max_concurrent_streams = 16\<rparr>"

text \<open>What the client reads after it has sent a request on a new stream, every dial succeeding.\<close>

definition answers_ok :: "socket_addr \<Rightarrow> cmd \<Rightarrow> u16 \<Rightarrow> bool" where
  "answers_ok server_address c echo_port \<longleftrightarrow>
     (let req = \<lparr>req_cmd = c, req_token = lit ''test-token'',
            req_target = Ip (SA4 (ipv4 127 0 0 1) echo_port)\<rparr>;
          os = example_os req;
          h = snd (srv_handle_stream cidr_net os (server_test_config server_address) [])
      in returns_with (response_read_from stream_rx (stream_of (sent_to_peer os h) Stalls))
           (\<lambda>response _. rsp_status response = Ok))"

definition proxies_tcp_over_authenticated_quic_streams :: "socket_addr \<Rightarrow> u16 \<Rightarrow> bool" where
  "proxies_tcp_over_authenticated_quic_streams server_address echo_port \<longleftrightarrow>
     answers_ok server_address ConnectTcp echo_port"

definition proxies_udp_over_authenticated_quic_streams :: "socket_addr \<Rightarrow> u16 \<Rightarrow> bool" where
  "proxies_udp_over_authenticated_quic_streams server_address udp_echo_port \<longleftrightarrow>
     answers_ok server_address BindUdp udp_echo_port"

lemma tcp_ticks:
  assumes "tr_result s = None"
  shows "(tcp_step idle)\<^sup>*\<^sup>* s (s\<lparr>tr_clock := tr_clock s + n\<rparr>)"
proof (induction n)
  case (Suc n)
  have "tcp_step idle (s\<lparr>tr_clock := tr_clock s + n\<rparr>) (s\<lparr>tr_clock := tr_clock s + Suc n\<rparr>)"
    using Pass [of "s\<lparr>tr_clock := tr_clock s + n\<rparr>" idle] assms by simp
  with Suc show ?case by simp
qed simp

lemma idle_flow_test: closes_an_idle_tcp_flow
proof -
  have "(tcp_step 25)\<^sup>*\<^sup>* (tr_start 25 [] []) ((tr_start 25 [] [])\<lparr>tr_clock := 25\<rparr>)"
    using tcp_ticks [of "tr_start 25 [] []" 25 25] by (simp add: tr_start_def)
  moreover have "tcp_step 25 ((tr_start 25 [] [])\<lparr>tr_clock := 25\<rparr>)
      (tr_elapsed ((tr_start 25 [] [])\<lparr>tr_clock := 25\<rparr>))"
    by (rule TimerFired) (simp_all add: tr_start_def)
  moreover have "contains_text x x" for x
    using contains_in_message [of "[]" x "[]"] by simp
  ultimately show ?thesis
    by (simp add: closes_an_idle_tcp_flow_def tr_elapsed_def Let_def)
qed

lemma stream_answers_ok: "answers_ok server_address c echo_port"
proof -
  let ?req = "\<lparr>req_cmd = c, req_token = lit ''test-token'',
    req_target = Ip (SA4 (ipv4 127 0 0 1) echo_port)\<rparr>"
  let ?cfg = "server_test_config server_address"
  have good: "good_request ?req"
    by (simp add: good_request_def lit_def utf8_valid_ascii)
  have "sent_to_peer (example_os ?req) (snd (srv_handle_stream cidr_net (example_os ?req) ?cfg []))
      = response_bytes (verdict (lit ''invalid token'') (srv_token_matches (srv_token ?cfg))
        (srv_permits cidr_net ?cfg) (srv_bind_ip ?cfg) (\<lambda>c. Done ())
        (\<lambda>host p. Done [SA4 0xC0000201 p]) ?req)"
    by (rule srv_handle_stream_answer [OF example_os_static good example_os_inbox])
      (simp add: resolution_def)
  also have "verdict (lit ''invalid token'') (srv_token_matches (srv_token ?cfg))
        (srv_permits cidr_net ?cfg) (srv_bind_ip ?cfg) (\<lambda>c. Done ())
        (\<lambda>host p. Done [SA4 0xC0000201 p]) ?req = response_ok"
    by (cases c) (simp_all add: verdict_def server_test_config_def srv_tokens.matches_refl resolution_def
        srv_permits_def open_verdict_def tcp_result_def)
  finally show ?thesis
    using response_read_write [of response_ok "[]" Stalls]
    by (simp add: answers_ok_def returns_with_def response_ok_def received_response_def)
qed

lemma quic_stream_tests:
  "proxies_tcp_over_authenticated_quic_streams server_address echo_port \<and>
   proxies_udp_over_authenticated_quic_streams server_address udp_echo_port"
  by (simp add: proxies_tcp_over_authenticated_quic_streams_def
      proxies_udp_over_authenticated_quic_streams_def stream_answers_ok)

end
