(* ===== verification/Spec2Isabelle.thy ===== *)
theory Spec2Isabelle
  imports Startup Accept_Loop Client_Shared Transport_Shared Server_Grpc Udp_Relay Tcp_Flow Deadlines
    Proxy_Session Backpressure Command_Line Repository_Tests
begin

text \<open>
  \<^bold>\<open>The program.\<close> Two pairs of programs move TCP and UDP flows of a machine through another one. The
  host (\<open>crates/host\<close>) reads packets from a TUN device, a userspace IP stack (ipstack) turns them
  into flows, and for every flow the host opens one TCP connection to the VM agent (\<open>crates/vm\<close>),
  which dials the flow's destination from inside a VPN. The proxy client (\<open>crates/proxy-client\<close>)
  and the proxy server (\<open>crates/proxy-server\<close>) do the same over streams of one QUIC connection,
  with gRPC over TCP as the fallback. All four speak the protocol of \<open>crates/proto\<close>: a request
  with a command, a token and a target; a response with a status and a message; then raw bytes for
  TCP, or length-prefixed datagrams for UDP.

  \<^bold>\<open>The model.\<close> Code that runs from start to end is an action (\<open>Prelude.act\<close>): a function from a state
  to an outcome and the next state, where the outcome is a value, an error, \<open>Panicked\<close>, or \<open>Pending\<close>,
  for code that never returns. For code that talks to the system the state is the history of its
  system calls (\<open>World.call\<close>), and an \<open>os\<close> record answers every call as a function of the history:
  the theorems that quantify over \<open>os\<close> hold for every behaviour of kernel, network, peer and name
  service. Code that runs concurrently (relays, pumps) is a step relation on a record of the
  buffers, with one program counter per task; any task may take the next step, any call may fail at
  any step. Integers keep their width; text is bytes, and where Rust demands UTF-8 the model checks it.

  \<^bold>\<open>Theories.\<close>
  \<^item> \<open>Prelude\<close>, \<open>Bytes\<close>, \<open>Utf8\<close>, \<open>Streams\<close>, \<open>Net\<close>, \<open>Text_Parse\<close>: actions, big-endian octets, what the code
    uses of Rust's \<open>str\<close>, of \<open>AsyncRead\<close> and \<open>AsyncWrite\<close>, of \<open>std::net\<close> and of the crate ipnet.
  \<^item> \<open>Wire\<close>, \<open>Wire_Codec\<close>: \<open>crates/proto/src/lib.rs\<close>; that decoding inverts encoding, accepts nothing
    else, and notices every truncation.
  \<^item> \<open>World\<close>, \<open>Triples\<close>, \<open>Loops\<close>: the system calls; Hoare triples over histories with a condition on every
    call; the contract \<open>gateway\<close> of a session handler and what follows from it; loops that may not end.
  \<^item> \<open>Access\<close>, \<open>Vm_Config\<close>, \<open>Server_Config\<close>, \<open>Host_Config\<close>, \<open>Client_Config\<close>, \<open>Config_Path\<close>: the four
    configurations (\<open>config.rs\<close>) with their defaults, the access policy and the token comparison as
    contracts of their own, and the search for the file.
  \<^item> \<open>Config_Documents\<close>, \<open>Command_Line\<close>: from the fields that a document gives, and the options that
    are given, to a configuration and the run of the program: what may be absent, what it then is,
    and exactly which documents are accepted.
  \<^item> \<open>Vm_Server\<close>, \<open>Server_Handler\<close>: \<open>crates/vm/src/server.rs\<close> and \<open>crates/proxy-server/src/server.rs\<close>; both
    fulfil \<open>gateway\<close>: what is dialled, when success is reported, what a peer without the token can
    cause, and the exact response on every branch.
  \<^item> \<open>Host_Tunnel\<close>, \<open>Host_Dns\<close>: \<open>tunnel.rs\<close> and \<open>dns.rs\<close> of the host: dialling the agent, the handshake, the
    DNS forwarder.
  \<^item> \<open>Udp_Relay\<close>, \<open>Tcp_Relay\<close>, \<open>Grpc_Pump\<close>: the relays of all four programs and the pumps between streams
    and gRPC frames: order, completeness, idle timers, termination. \<open>channel_step\<close> is the abstract
    channel that the datagram relays refine.
  \<^item> \<open>Tcp_Flow\<close>: the TCP relays of proxy client and proxy server at work on the two ends of one tunnel,
    from the application to the target and back.
  \<^item> \<open>Grpc_Flow\<close>: the relays of proxy client and proxy server, for datagrams and for TCP, with the tasks
    between pipes and gRPC frames in between.
  \<^item> \<open>Backpressure\<close>: the same tasks with the bounds of the pipes and the channel between them: neither
    direction of a TCP flow ever comes to a halt before all is delivered. Elsewhere a write completes
    when it does.
  \<^item> \<open>Client_Grpc\<close>, \<open>Client_Quic\<close>, \<open>Client_Transport\<close>, \<open>Server_Grpc\<close>: opening a flow over either transport
    (\<open>grpc.rs\<close>, \<open>quic.rs\<close>, \<open>transport.rs\<close>), the cached connection, the fallback; the server's gRPC side.
  \<^item> \<open>Client_Shared\<close>, \<open>Transport_Shared\<close>: what all flows of the proxy client share, the connection behind
    its mutex and the instant until which QUIC is not tried, with any number of flows interleaved
    between their awaits. The functions of \<open>Client_Quic\<close> and \<open>Client_Transport\<close>, which treat one flow
    from start to end, are runs of these steps.
  \<^item> \<open>Routes\<close>, \<open>Host_Route\<close>, \<open>Client_Route\<close>: \<open>route.rs\<close> of host and proxy client; both fulfil \<open>route_manager\<close>:
    what was added is removed, in reverse order.
  \<^item> \<open>Tun_Device\<close>, \<open>Host_Main\<close>, \<open>Client_Main\<close>, \<open>Server_Certificate\<close>, \<open>Startup\<close>: the device adapters, the main
    functions, the identity of the server, and the four programs from the command line on.
  \<^item> \<open>Accept_Loop\<close>: the loops of host and proxy client over arriving flows, signals and errors, and how
    the program then ends.
  \<^item> \<open>Sessions\<close>, \<open>Proxy_Session\<close>: host and agent, and proxy client and proxy server over QUIC and over gRPC,
    put together; and that the transport a flow takes makes no difference to the server's verdict.
  \<^item> \<open>Deadlines\<close>: how long the programs can wait, from the timers they arm: a flow of the proxy client is
    open or refused within six connect timeouts, a stream of the proxy server is answered within the
    sum of its deadlines; and the two waits that no timer bounds.
  \<^item> \<open>Repository_Tests\<close>: the unit tests of the crates as propositions about the model, proved.

  \<^bold>\<open>How parts meet.\<close> A session handler sees the relay it ends in as one call (\<open>CopyBidirectional\<close>,
  \<open>RaceTcpPumps\<close>, \<open>RaceUdpPumps\<close>) whose inside is a step relation of the relay theories. The
  codecs are written once over an abstract reader and writer (locales \<open>async_read\<close>, \<open>async_write\<close>) and
  interpreted for a byte stream, a cursor and the peer of a history. In \<open>Sessions\<close> the bytes one end
  has sent are the input of the other.

  \<^bold>\<open>Bounds and loops.\<close> No fuel is used. The only loop that may run for ever, dialling the agent, is a
  \<open>partial_function (option)\<close> whose divergence is \<open>Pending\<close>; it then returns the state it started in,
  since a history that never ends has no last state, and \<open>Host_Tunnel.host_dial_persists\<close> says how
  many attempts it makes before a success. Accept loops are functions of the list of arrivals. The UDP
  activity counter wraps at 64 bits, and the theorems say so.

  \<^bold>\<open>What is assumed of the system.\<close> Only what a theorem names: \<open>static_world\<close> (every call has the same
  answer whenever it is made, writes succeed) for the exact responses, \<open>writes_succeed\<close> for the ends
  in \<open>Sessions\<close>, \<open>packet_device\<close> for the TUN device, \<open>takes\<close> and \<open>few_names\<close> in \<open>Deadlines\<close> (the calls that
  are under no timer return, a name has so many addresses). A timeout fires exactly where the timed
  action is \<open>Pending\<close>; how long a call takes within its timer is not modelled, except in the watchdogs
  of the relays, whose clock advances by steps of its own.

  \<^bold>\<open>Not modelled.\<close> Log messages, the parsing of arguments (clap) and of log filters
  (tracing-subscriber). TLS, QUIC, HTTP/2 and certificate generation (quinn, rustls, tonic, rcgen),
  TOML and PEM parsing, the IP stack, and \<open>tokio::io::copy_bidirectional\<close>, which is all of the TCP
  relays of host and agent: not in the repository; they are calls of the world or arguments. The
  generated protobuf code: a frame is its payload. The flow control of TCP, QUIC and HTTP/2. Of the
  unit tests, those of clap, and the bytes that two socket tests send through an echo server after
  the response.
\<close>

end
